(* ===== verification/Prelude.thy ===== *)
theory Prelude
  imports Main "HOL-Library.Word" "HOL-Library.Monad_Syntax"
begin

text \<open>
  Shared vocabulary of the development: the C integer types, the alignment macros of
  \<^verbatim>\<open>types/types.h\<close>, the collections of rewrite rules the component proofs use, and facts on
  words, options and lists that several components need.

  A C function that can run into undefined behaviour (a null dereference, an index outside an
  array) returns an \<open>option\<close>: \<open>None\<close> is the fault, \<open>Some r\<close> a run that ends with \<open>r\<close>. The
  same \<open>None\<close> stands for a loop that never ends, so a theorem that a call gives \<open>Some\<close> says
  both that it is free of faults and that it returns.
\<close>

unbundle bit_operations_syntax

named_theorems word_unat \<open>reading word arithmetic as arithmetic on naturals\<close>
named_theorems c_const \<open>values of the C constants\<close>
named_theorems mem_simps \<open>reading a byte memory after a write\<close>

section \<open>C integer types\<close>

type_synonym u8 = "8 word"
type_synonym u16 = "16 word"
type_synonym u32 = "32 word"
type_synonym u64 = "64 word"

section \<open>The macros of types/types.h\<close>

definition PAGE_SIZE :: u64 where
  "PAGE_SIZE = 4096"

definition PAGE_SHIFT :: nat where
  "PAGE_SHIFT = 12"

definition PAGE_MASK :: u64 where
  "PAGE_MASK = NOT (PAGE_SIZE - 1)"

definition ALIGN_DOWN :: "u64 \<Rightarrow> u64 \<Rightarrow> u64" where
  "ALIGN_DOWN x a = x AND NOT (a - 1)"

definition ALIGN_UP :: "u64 \<Rightarrow> u64 \<Rightarrow> u64" where
  "ALIGN_UP x a = (x + a - 1) AND NOT (a - 1)"

definition KB :: "u64 \<Rightarrow> u64" where
  "KB x = x * 1024"

definition MB :: "u64 \<Rightarrow> u64" where
  "MB x = x * 1024 * 1024"

section \<open>Words\<close>

lemma unat_add_no_wrap [word_unat]:
  "unat (a::'a::len word) + unat b < 2 ^ LENGTH('a) \<Longrightarrow> unat (a + b) = unat a + unat b"
  by (simp add: unat_word_ariths)

lemma unat_add_of_nat:
  "unat (a::'a::len word) + n < 2 ^ LENGTH('a) \<Longrightarrow> unat (a + of_nat n) = unat a + n"
proof -
  assume h: "unat a + n < 2 ^ LENGTH('a)"
  then have "unat (of_nat n :: 'a word) = n"
    by (simp add: unat_of_nat)
  with h show "unat (a + of_nat n) = unat a + n"
    using unat_add_no_wrap [of a "of_nat n"] by simp
qed

lemma unat_less_pow: "unat (x::'a::len word) < 2 ^ LENGTH('a)"
  by (rule unsigned_less)

lemma unat_less_64: "unat (x::u64) < 2 ^ 64" and unat_less_32: "unat (y::u32) < 2 ^ 32"
  using unat_less_pow [of x] unat_less_pow [of y] by simp_all

lemma unat_diff [word_unat]:
  "b \<le> (a::'a::len word) \<Longrightarrow> unat (a - b) = unat a - unat b"
  by (rule unat_sub)

lemma and_not_low_mask:
  "(x::'a::len word) AND NOT (2 ^ n - 1) = push_bit n (drop_bit n x)"
proof -
  have "(2 ^ n - 1 :: 'a word) = mask n"
    by (simp add: mask_eq_decr_exp)
  then show ?thesis
    by (auto intro!: bit_word_eqI simp: bit_simps)
qed

lemma unat_push_drop:
  "unat (push_bit n (drop_bit n x)) = 2 ^ n * (unat (x::'a::len word) div 2 ^ n)"
proof -
  have "unat (push_bit n (drop_bit n x)) = take_bit LENGTH('a) (push_bit n (drop_bit n (unat x)))"
    by (simp add: unsigned_push_bit_eq unat_drop_bit_eq)
  also have "push_bit n (drop_bit n (unat x)) = 2 ^ n * (unat x div 2 ^ n)"
    by (simp add: push_bit_eq_mult drop_bit_eq_div)
  also have "take_bit LENGTH('a) \<dots> = 2 ^ n * (unat x div 2 ^ n)"
    by (rule take_bit_nat_eq_self) (rule le_less_trans [OF times_div_less_eq_dividend unsigned_less])
  finally show ?thesis .
qed

lemma unat_ALIGN_DOWN: "unat (ALIGN_DOWN x PAGE_SIZE) = 4096 * (unat x div 4096)"
proof -
  have "ALIGN_DOWN x PAGE_SIZE = push_bit 12 (drop_bit 12 x)"
    using and_not_low_mask [of x 12] by (simp add: ALIGN_DOWN_def PAGE_SIZE_def)
  then show ?thesis using unat_push_drop [of 12 x] by simp
qed

lemma unat_ALIGN_UP:
  assumes "unat x + 4095 < 2 ^ 64"
  shows "unat (ALIGN_UP x PAGE_SIZE) = 4096 * ((unat x + 4095) div 4096)"
proof -
  have "ALIGN_UP x PAGE_SIZE = ALIGN_DOWN (x + 4095) PAGE_SIZE"
    by (simp add: ALIGN_UP_def ALIGN_DOWN_def PAGE_SIZE_def algebra_simps)
  moreover have "unat (x + 4095) = unat x + 4095"
    using assms unat_add_no_wrap [of x 4095] by simp
  ultimately show ?thesis by (simp add: unat_ALIGN_DOWN)
qed

end
