(* ===== verification/Byte_Memory.thy ===== *)
theory Byte_Memory
  imports Prelude
begin

text \<open>
  Byte-addressed memory, the way the compiled C sees it: a function from addresses to bytes,
  with little-endian loads and stores of any width, and the frame facts that say which reads a
  write leaves alone. Addresses wrap around as machine addresses do. The kernel proper uses it
  with 32-bit addresses, the physical memory simulation of \<^verbatim>\<open>pmm/pmm.c\<close> with 64-bit offsets.
\<close>

section \<open>Regions of addresses\<close>

definition region :: "'a::len word \<Rightarrow> nat \<Rightarrow> 'a word set" where
  "region a n = {x. unat (x - a) < n}"

lemma mem_region_offset: "x \<in> region a n \<longleftrightarrow> (\<exists>i<n. i < 2 ^ LENGTH('a) \<and> x = (a::'a::len word) + of_nat i)"
proof
  assume "x \<in> region a n"
  then have "unat (x - a) < n" by (simp add: region_def)
  moreover have "x = a + of_nat (unat (x - a))" by simp
  ultimately show "\<exists>i<n. i < 2 ^ LENGTH('a) \<and> x = a + of_nat i"
    using unsigned_less [of "x - a"] by blast
next
  assume "\<exists>i<n. i < 2 ^ LENGTH('a) \<and> x = a + of_nat i"
  then show "x \<in> region a n" by (auto simp: region_def unat_of_nat)
qed

lemma region_member [intro]: "i < n \<Longrightarrow> (a::'a::len word) + of_nat i \<in> region a n"
  by (simp add: region_def unat_of_nat order_le_less_trans [OF mod_less_eq_dividend])

lemma region_empty [simp]: "region a 0 = {}"
  by (simp add: region_def)

lemma region_unat:
  assumes "unat (a::'a::len word) + n \<le> 2 ^ LENGTH('a)"
  shows "region a n = {x. unat a \<le> unat x \<and> unat x < unat a + n}"
proof (rule set_eqI)
  fix x
  show "x \<in> region a n \<longleftrightarrow> x \<in> {x. unat a \<le> unat x \<and> unat x < unat a + n}"
  proof (cases "a \<le> x")
    case True
    then show ?thesis
      by (auto simp: region_def unat_sub word_le_nat_alt)
  next
    case False
    then have lt: "unat x < unat a" by (simp add: word_le_nat_alt)
    have "unat (x - a) = unat x + 2 ^ LENGTH('a) - unat a"
      using lt unat_sub_if' [of x a] by simp
    with lt assms show ?thesis by (auto simp: region_def)
  qed
qed

lemma region_disjoint:
  fixes a b :: "'a::len word"
  assumes "unat a + n \<le> unat b" "unat b + k \<le> 2 ^ LENGTH('a)"
  shows "region a n \<inter> region b k = {}"
proof -
  have "unat a + n \<le> 2 ^ LENGTH('a)" using assms by linarith
  with assms show ?thesis by (auto simp: region_unat)
qed

lemma region_disjoint':
  fixes a b :: "'a::len word"
  assumes "unat b + k \<le> unat a" "unat a + n \<le> 2 ^ LENGTH('a)"
  shows "region a n \<inter> region b k = {}"
  using region_disjoint [OF assms] by blast

lemma region_subset:
  fixes a b :: "'a::len word"
  assumes "unat b \<le> unat a" "unat a + n \<le> unat b + k" "unat b + k \<le> 2 ^ LENGTH('a)"
  shows "region a n \<subseteq> region b k"
proof -
  have "unat a + n \<le> 2 ^ LENGTH('a)" using assms by linarith
  with assms show ?thesis by (auto simp: region_unat)
qed

lemma region_single [simp]: "region a (Suc 0) = {a}"
  by (auto simp: region_def unat_eq_0)

lemma region_Suc: "region a (Suc n) = insert a (region (a + 1) n)"
proof (rule set_eqI)
  fix x
  show "x \<in> region a (Suc n) \<longleftrightarrow> x \<in> insert a (region (a + 1) n)"
  proof (cases "x = a")
    case True
    then show ?thesis by (simp add: region_def)
  next
    case False
    then have "unat (x - a) \<noteq> 0" by (simp add: unat_eq_0)
    moreover have "unat (x - (a + 1)) = unat (x - a) - 1"
      using False by (simp add: diff_diff_eq [symmetric] unat_minus_one)
    ultimately show ?thesis using False by (auto simp: region_def)
  qed
qed

lemma region_snoc: "region a (Suc n) = insert (a + of_nat n) (region a n)"
  by (auto simp: mem_region_offset less_Suc_eq)

lemma unat_neg_one: "unat (- 1 :: 'a::len word) = 2 ^ LENGTH('a) - 1"
  by (simp add: unsigned_minus_1_eq_mask mask_eq_exp_minus_1)

section \<open>Little-endian loads and stores\<close>

primrec load_le :: "('a::len word \<Rightarrow> u8) \<Rightarrow> 'a word \<Rightarrow> nat \<Rightarrow> 'b::len word" where
  "load_le m a 0 = 0"
| "load_le m a (Suc n) = ucast (m a) OR push_bit 8 (load_le m (a + 1) n)"

primrec store_le :: "('a::len word \<Rightarrow> u8) \<Rightarrow> 'a word \<Rightarrow> nat \<Rightarrow> 'b::len word \<Rightarrow> 'a word \<Rightarrow> u8" where
  "store_le m a 0 v = m"
| "store_le m a (Suc n) v = store_le (m(a := ucast v)) (a + 1) n (drop_bit 8 v)"

lemma bit_load_le:
  "bit (load_le m a n :: 'b::len word) k \<longleftrightarrow>
     k < LENGTH('b) \<and> k div 8 < n \<and> bit (m (a + of_nat (k div 8))) (k mod 8)"
proof (induction n arbitrary: a k)
  case 0
  then show ?case by simp
next
  case (Suc n)
  show ?case
  proof (cases "k < 8")
    case True
    then show ?thesis
      by (auto simp: bit_or_iff bit_push_bit_iff bit_ucast_iff dest: bit_imp_le_length)
  next
    case False
    then have "k div 8 = Suc ((k - 8) div 8)" "k mod 8 = (k - 8) mod 8" "k - 8 < k"
      by (simp_all add: le_div_geq le_mod_geq)
    with False show ?thesis
      by (auto simp: bit_or_iff bit_push_bit_iff bit_ucast_iff Suc.IH ac_simps dest: bit_imp_le_length)
  qed
qed

lemma store_le_outside:
  "x \<notin> region a n \<Longrightarrow> n \<le> 2 ^ LENGTH('a) \<Longrightarrow> store_le m (a::'a::len word) n v x = m x"
proof (induction n arbitrary: m a v)
  case 0
  then show ?case by simp
next
  case (Suc n)
  have "x \<noteq> a" using Suc.prems by (auto simp: region_def)
  moreover have "x \<notin> region (a + 1) n"
  proof
    assume "x \<in> region (a + 1) n"
    then obtain i where i: "i < n" "x = a + 1 + of_nat i"
      by (auto simp: mem_region_offset)
    then have "x = a + of_nat (Suc i)" by simp
    with i Suc.prems show False by (metis Suc_less_eq region_member)
  qed
  ultimately show ?case using Suc.IH Suc.prems by simp
qed

lemma store_le_inside:
  "i < n \<Longrightarrow> n \<le> 2 ^ LENGTH('a) \<Longrightarrow>
     store_le m (a::'a::len word) n v (a + of_nat i) = ucast (drop_bit (8 * i) v)"
proof (induction n arbitrary: m a v i)
  case 0
  then show ?case by simp
next
  case (Suc n)
  show ?case
  proof (cases i)
    case 0
    have "a \<notin> region (a + 1) n"
      using Suc.prems(2) by (simp add: region_def unat_neg_one)
    with 0 Suc.prems show ?thesis by (simp add: store_le_outside)
  next
    case (Suc j)
    then have "a + of_nat i = (a + 1) + of_nat j" by simp
    moreover have "store_le (m(a := ucast v)) (a + 1) n (drop_bit 8 v) ((a + 1) + of_nat j) =
        ucast (drop_bit (8 * j) (drop_bit 8 v))"
      using Suc Suc.prems by (intro Suc.IH) simp_all
    moreover have "drop_bit (8 * j) (drop_bit 8 v) = drop_bit (8 * i) v"
      using Suc by (simp add: drop_bit_drop_bit add.commute)
    ultimately show ?thesis by (simp only: store_le.simps)
  qed
qed

lemma load_le_cong:
  assumes "\<And>x. x \<in> region a n \<Longrightarrow> m x = m' x"
  shows "(load_le m a n :: 'b::len word) = load_le m' a n"
proof (rule bit_word_eqI)
  fix k assume "k < LENGTH('b)"
  show "bit (load_le m a n :: 'b word) k \<longleftrightarrow> bit (load_le m' a n :: 'b word) k"
    using assms [OF region_member [of "k div 8" n a]] by (auto simp: bit_load_le)
qed

lemma load_store_same [mem_simps]:
  assumes "n \<le> 2 ^ LENGTH('a)" "LENGTH('b) \<le> 8 * n"
  shows "(load_le (store_le m (a::'a::len word) n v) a n :: 'b::len word) = v"
proof (rule bit_word_eqI)
  fix k assume k: "k < LENGTH('b)"
  have "8 * (k div 8) + k mod 8 = k" by simp
  moreover have "k div 8 < n" using k assms(2) by (simp add: div_less_iff_less_mult mult.commute)
  ultimately show "bit (load_le (store_le m a n v) a n :: 'b word) k \<longleftrightarrow> bit v k"
    using k assms(1) by (simp add: bit_load_le store_le_inside bit_ucast_iff bit_drop_bit_eq)
qed

lemma load_store_other [mem_simps]:
  assumes "region a n \<inter> region b k = {}" "k \<le> 2 ^ LENGTH('a)"
  shows "(load_le (store_le m (b::'a::len word) k v) a n :: 'b::len word) = load_le m a n"
  using assms by (intro load_le_cong store_le_outside) auto

end
