(* ===== verification/Lib_Memory.thy ===== *)
theory Lib_Memory
  imports Byte_Memory
begin

text \<open>
  The freestanding memory and string routines of \<^verbatim>\<open>lib/memory.c\<close>, over the kernel's 32-bit
  byte memory. Counted loops recurse on the number of rounds left; the loops that look for a
  terminating zero byte are partial functions, \<open>None\<close> when no zero byte is ever met.
\<close>

type_synonym mem32 = "u32 \<Rightarrow> u8"

section \<open>The routines\<close>

primrec memcpy_loop :: "mem32 \<Rightarrow> u32 \<Rightarrow> u32 \<Rightarrow> u32 \<Rightarrow> nat \<Rightarrow> mem32" where
  "memcpy_loop m d s i 0 = m"
| "memcpy_loop m d s i (Suc k) = memcpy_loop (m(d + i := m (s + i))) d s (i + 1) k"

definition memcpy :: "mem32 \<Rightarrow> u32 \<Rightarrow> u32 \<Rightarrow> u32 \<Rightarrow> u32 \<times> mem32" where
  "memcpy m dest src n = (dest, memcpy_loop m dest src 0 (unat n))"

primrec memmove_up :: "mem32 \<Rightarrow> u32 \<Rightarrow> u32 \<Rightarrow> nat \<Rightarrow> mem32" where
  "memmove_up m d s 0 = m"
| "memmove_up m d s (Suc n) = memmove_up (m(d := m s)) (d + 1) (s + 1) n"

primrec memmove_down :: "mem32 \<Rightarrow> u32 \<Rightarrow> u32 \<Rightarrow> nat \<Rightarrow> mem32" where
  "memmove_down m d s 0 = m"
| "memmove_down m d s (Suc n) = memmove_down (m(d - 1 := m (s - 1))) (d - 1) (s - 1) n"

definition memmove :: "mem32 \<Rightarrow> u32 \<Rightarrow> u32 \<Rightarrow> u32 \<Rightarrow> u32 \<times> mem32" where
  "memmove m dest src n =
     (dest, if dest < src then memmove_up m dest src (unat n)
            else memmove_down m (dest + n) (src + n) (unat n))"

primrec memset_loop :: "mem32 \<Rightarrow> u32 \<Rightarrow> u8 \<Rightarrow> u32 \<Rightarrow> nat \<Rightarrow> mem32" where
  "memset_loop m d v i 0 = m"
| "memset_loop m d v i (Suc k) = memset_loop (m(d + i := v)) d v (i + 1) k"

definition memset :: "mem32 \<Rightarrow> u32 \<Rightarrow> u32 \<Rightarrow> u32 \<Rightarrow> u32 \<times> mem32" where
  "memset m dest value n = (dest, memset_loop m dest (ucast value) 0 (unat n))"

partial_function (option) strlen_loop :: "mem32 \<Rightarrow> u32 \<Rightarrow> u32 \<Rightarrow> u32 option" where
  "strlen_loop m str len =
     (if m (str + len) \<noteq> 0 then strlen_loop m str (len + 1) else Some len)"

definition strlen :: "mem32 \<Rightarrow> u32 \<Rightarrow> u32 option" where
  "strlen m str = strlen_loop m str 0"

partial_function (option) strcmp :: "mem32 \<Rightarrow> u32 \<Rightarrow> u32 \<Rightarrow> int option" where
  "strcmp m a b =
     (if m a \<noteq> 0 \<and> m a = m b then strcmp m (a + 1) (b + 1)
      else Some (uint (m a) - uint (m b)))"

partial_function (option) strcpy_loop :: "mem32 \<Rightarrow> u32 \<Rightarrow> u32 \<Rightarrow> mem32 option" where
  "strcpy_loop m d src =
     (let m' = m(d := m src)
      in if m' d \<noteq> 0 then strcpy_loop m' (d + 1) (src + 1) else Some m')"

definition strcpy :: "mem32 \<Rightarrow> u32 \<Rightarrow> u32 \<Rightarrow> (u32 \<times> mem32) option" where
  "strcpy m dest src = map_option (Pair dest) (strcpy_loop m dest src)"

primrec memcmp_loop :: "mem32 \<Rightarrow> u32 \<Rightarrow> u32 \<Rightarrow> u32 \<Rightarrow> nat \<Rightarrow> int" where
  "memcmp_loop m p1 p2 i 0 = 0"
| "memcmp_loop m p1 p2 i (Suc k) =
     (if m (p1 + i) \<noteq> m (p2 + i) then uint (m (p1 + i)) - uint (m (p2 + i))
      else memcmp_loop m p1 p2 (i + 1) k)"

definition memcmp :: "mem32 \<Rightarrow> u32 \<Rightarrow> u32 \<Rightarrow> u32 \<Rightarrow> int" where
  "memcmp m a b n = memcmp_loop m a b 0 (unat n)"

section \<open>Block copies and fills\<close>

text \<open>What a copy should do: the destination region receives the old source bytes.\<close>

definition copied :: "mem32 \<Rightarrow> u32 \<Rightarrow> u32 \<Rightarrow> nat \<Rightarrow> mem32" where
  "copied m d s n = (\<lambda>x. if x \<in> region d n then m (s + (x - d)) else m x)"

lemma copied_0 [simp]: "copied m d s 0 = m"
  by (simp add: copied_def)

text \<open>
  Copying upwards is right when no byte is overwritten before it is read, and copying
  downwards likewise: the side condition names the pairs of indices where that could happen.
\<close>

lemma copied_step:
  assumes "\<And>j. 0 < j \<Longrightarrow> j < Suc n \<Longrightarrow> d \<noteq> s + of_nat j"
  shows "copied (m(d := m s)) (d + 1) (s + 1) n = copied m d s (Suc n)"
proof
  fix x
  show "copied (m(d := m s)) (d + 1) (s + 1) n x = copied m d s (Suc n) x"
  proof (cases "x \<in> region (d + 1) n")
    case True
    then obtain j where j: "j < n" "x = (d + 1) + of_nat j" by (auto simp: mem_region_offset)
    then have "s + (x - d) = s + of_nat (Suc j)" by simp
    moreover have "d \<noteq> s + of_nat (Suc j)" using assms [of "Suc j"] j by simp
    ultimately show ?thesis using True by (simp add: copied_def region_Suc algebra_simps)
  next
    case False
    then show ?thesis by (auto simp: copied_def region_Suc)
  qed
qed

lemma memmove_up_copied:
  assumes "\<And>i j. i < j \<Longrightarrow> j < n \<Longrightarrow> d + of_nat i \<noteq> s + of_nat j"
  shows "memmove_up m d s n = copied m d s n"
  using assms
proof (induction n arbitrary: m d s)
  case 0
  then show ?case by simp
next
  case (Suc n)
  have "memmove_up m d s (Suc n) = copied (m(d := m s)) (d + 1) (s + 1) n"
    using Suc.prems [of "Suc _" "Suc _"] by (simp, intro Suc.IH) (auto simp: add.assoc)
  also have "\<dots> = copied m d s (Suc n)"
    using Suc.prems [of 0] by (intro copied_step) simp
  finally show ?case .
qed

lemma memmove_down_copied:
  assumes "\<And>i j. j < i \<Longrightarrow> i < n \<Longrightarrow> d + of_nat i \<noteq> s + of_nat j"
  shows "memmove_down m (d + of_nat n) (s + of_nat n) n = copied m d s n"
  using assms
proof (induction n arbitrary: m)
  case 0
  then show ?case by simp
next
  case (Suc n)
  let ?m = "m(d + of_nat n := m (s + of_nat n))"
  have "memmove_down m (d + of_nat (Suc n)) (s + of_nat (Suc n)) (Suc n) = copied ?m d s n"
    using Suc.prems by (simp add: algebra_simps, intro Suc.IH) auto
  moreover have "copied ?m d s n x = copied m d s (Suc n) x" for x
  proof (cases "x \<in> region d n")
    case True
    then obtain j where j: "j < n" "x = d + of_nat j" by (auto simp: mem_region_offset)
    then have "s + (x - d) \<noteq> d + of_nat n" using Suc.prems [of j n] by auto
    then show ?thesis using True by (simp add: copied_def region_snoc)
  next
    case False
    then show ?thesis by (auto simp: copied_def region_snoc)
  qed
  ultimately show ?case by auto
qed

lemma memcpy_loop_up: "memcpy_loop m d s i k = memmove_up m (d + i) (s + i) k"
  by (induction k arbitrary: m i) (simp_all add: add.assoc)

lemma memset_loop_fill:
  "k \<le> 2 ^ 32 \<Longrightarrow> memset_loop m d v i k x = (if x \<in> region (d + i) k then v else m x)"
  by (induction k arbitrary: m i) (auto simp: region_Suc add.assoc)

lemma disjoint_no_overlap:
  "region d n \<inter> region s n = {} \<Longrightarrow> i < n \<Longrightarrow> j < n \<Longrightarrow> d + of_nat i \<noteq> s + of_nat j"
  by (metis disjoint_iff region_member)

section \<open>Strings\<close>

text \<open>The bytes of a C string: non-zero bytes followed by a zero byte.\<close>

primrec cstr :: "mem32 \<Rightarrow> u32 \<Rightarrow> u8 list \<Rightarrow> bool" where
  "cstr m a [] \<longleftrightarrow> m a = 0"
| "cstr m a (b # bs) \<longleftrightarrow> m a = b \<and> b \<noteq> 0 \<and> cstr m (a + 1) bs"

lemma cstr_nth: "cstr m a bs \<Longrightarrow> i < length bs \<Longrightarrow> m (a + of_nat i) = bs ! i \<and> bs ! i \<noteq> 0"
proof (induction bs arbitrary: a i)
  case (Cons b bs)
  then show ?case
    by (cases i) (auto simp: add.assoc [symmetric] dest: Cons.IH)
qed simp

lemma cstr_end: "cstr m a bs \<Longrightarrow> m (a + of_nat (length bs)) = 0"
  by (induction bs arbitrary: a) (auto simp: add.assoc [symmetric])

lemma cstr_unique: "cstr m a bs \<Longrightarrow> cstr m a bs' \<Longrightarrow> bs = bs'"
proof (induction bs arbitrary: a bs')
  case Nil
  then show ?case by (cases bs') auto
next
  case (Cons b bs)
  then show ?case by (cases bs') auto
qed

lemma cstr_length: "cstr m a bs \<Longrightarrow> length bs < 2 ^ 32"
proof (rule ccontr)
  assume c: "cstr m a bs" and "\<not> length bs < 2 ^ 32"
  let ?i = "length bs mod 2 ^ 32"
  have "(of_nat (length bs) :: u32) = of_nat ?i"
    by (simp add: word_of_nat_eq_iff take_bit_eq_mod)
  moreover have "?i < length bs"
    using \<open>\<not> length bs < 2 ^ 32\<close> by (simp add: not_less order_less_le_trans [of _ "2 ^ 32"])
  ultimately show False using cstr_nth [OF c, of ?i] cstr_end [OF c] by simp
qed

lemma cstr_cong:
  "(\<And>x. x \<in> region a (Suc (length bs)) \<Longrightarrow> m x = m' x) \<Longrightarrow> cstr m a bs = cstr m' a bs"
proof (induction bs arbitrary: a)
  case (Cons b bs)
  have "cstr m (a + 1) bs = cstr m' (a + 1) bs"
    by (rule Cons.IH) (simp add: Cons.prems region_Suc [of a])
  moreover have "m a = m' a" by (simp add: Cons.prems region_Suc [of a])
  ultimately show ?case by simp
qed simp

lemma cstr_exists: "m z = 0 \<Longrightarrow> \<exists>bs. cstr m a bs"
proof (induction "unat (z - a)" arbitrary: a)
  case 0
  then have "cstr m a []" by (simp add: unat_eq_0)
  then show ?case ..
next
  case (Suc n)
  show ?case
  proof (cases "m a = 0")
    case True
    then have "cstr m a []" by simp
    then show ?thesis ..
  next
    case False
    have "z - a \<noteq> 0" using Suc.hyps(2) by (metis nat.distinct(1) unat_0)
    then have "unat (z - (a + 1)) = n"
      using Suc.hyps(2) by (simp add: diff_diff_eq [symmetric] unat_minus_one)
    then obtain bs where "cstr m (a + 1) bs" using Suc.hyps(1) Suc.prems by metis
    with False have "cstr m a (m a # bs)" by simp
    then show ?thesis ..
  qed
qed

lemma strlen_loop_cstr: "cstr m (str + len) bs \<Longrightarrow> strlen_loop m str len = Some (len + of_nat (length bs))"
proof (induction bs arbitrary: len)
  case Nil
  then show ?case by (simp add: strlen_loop.simps)
next
  case (Cons b bs)
  then show ?case by (subst strlen_loop.simps) (simp add: add.assoc)
qed

lemma strlen_loop_zero:
  assumes "strlen_loop m str len = Some n"
  shows "m (str + n) = 0"
proof (rule strlen_loop.raw_induct [where P = "\<lambda>m str len n. m (str + n) = 0", OF _ assms])
  fix f m str len n
  assume "\<And>m str len n. f m str len = Some n \<Longrightarrow> m (str + n) = (0::u8)"
    and "(if m (str + len) \<noteq> 0 then f m str (len + 1) else Some len) = Some n"
  then show "m (str + n) = 0" by (auto split: if_splits)
qed

lemma strcmp_cstr:
  "cstr m a xs \<Longrightarrow> cstr m b ys \<Longrightarrow>
     \<exists>r. strcmp m a b = Some r \<and> (r = 0 \<longleftrightarrow> xs = ys) \<and>
         (r < 0 \<longleftrightarrow> (xs, ys) \<in> lexord {(u, v). u < v})"
proof (induction xs arbitrary: a b ys)
  case Nil
  then show ?case
    by (cases ys) (auto simp: strcmp.simps uint_0_iff word_less_def [symmetric] word_greater_zero_iff
        less_le)
next
  case (Cons x xs)
  show ?case
  proof (cases ys)
    case Nil
    with Cons.prems show ?thesis by (auto simp: strcmp.simps uint_0_iff)
  next
    case ys: (Cons y ys')
    show ?thesis
    proof (cases "x = y")
      case True
      then show ?thesis
        using Cons.prems Cons.IH [of "a + 1" "b + 1" ys'] ys by (simp add: strcmp.simps [of m a b])
    next
      case False
      then show ?thesis
        using Cons.prems ys
        by (auto simp: strcmp.simps [of m a b] word_less_def word_uint_eq_iff)
    qed
  qed
qed

lemma strcpy_loop_cstr:
  "cstr m s bs \<Longrightarrow> region d (Suc (length bs)) \<inter> region s (Suc (length bs)) = {} \<Longrightarrow>
     strcpy_loop m d s = Some (copied m d s (Suc (length bs)))"
proof (induction bs arbitrary: m d s)
  case Nil
  have "copied (m(d := m s)) (d + 1) (s + 1) 0 = copied m d s (Suc 0)"
    by (rule copied_step) simp
  then have "copied m d s (Suc 0) = m(d := m s)" by simp
  with Nil show ?case by (subst strcpy_loop.simps) (simp add: Let_def)
next
  case (Cons b bs)
  let ?n = "Suc (length bs)" and ?m = "m(d := m s)"
  have d: "d \<noteq> s + of_nat j" if "j < Suc ?n" for j
    using disjoint_no_overlap [of d "Suc ?n" s 0 j] Cons.prems(2) that by simp
  have "cstr ?m (s + 1) bs"
  proof (rule cstr_cong [THEN iffD1])
    fix x assume "x \<in> region (s + 1) ?n"
    then have "x \<in> region s (Suc ?n)" by (subst region_Suc) simp
    moreover have "d \<in> region d (Suc ?n)" using region_member [of 0 "Suc ?n" d] by simp
    ultimately show "m x = ?m x" using Cons.prems(2) by auto
  qed (use Cons.prems(1) in simp)
  moreover have "region (d + 1) ?n \<inter> region (s + 1) ?n = {}"
    using Cons.prems(2) by (auto simp: region_Suc [of d ?n] region_Suc [of s ?n])
  ultimately have copy: "strcpy_loop ?m (d + 1) (s + 1) = Some (copied ?m (d + 1) (s + 1) ?n)"
    by (rule Cons.IH)
  have "strcpy_loop m d s = strcpy_loop ?m (d + 1) (s + 1)"
    using Cons.prems(1) by (subst strcpy_loop.simps) (simp add: Let_def)
  also note copy
  also have "copied ?m (d + 1) (s + 1) ?n = copied m d s (Suc ?n)"
    using d by (intro copied_step) simp
  finally show ?case by simp
qed

lemma cstr_copied: "cstr m s bs \<Longrightarrow> cstr (copied m d s (Suc (length bs))) d bs"
proof -
  assume c: "cstr m s bs"
  have shift: "cstr m s bs = cstr (\<lambda>x. m (s + (x - d))) d bs" for s d
  proof (induction bs arbitrary: s d)
    case (Cons b bs)
    show ?case using Cons.IH [of "s + 1" "d + 1"] by simp
  qed simp
  show ?thesis
    using c shift [of s d] by (subst cstr_cong [where m' = "\<lambda>x. m (s + (x - d))"])
      (simp_all add: copied_def)
qed

section \<open>Properties\<close>

text \<open>
  C33. \<open>memmove\<close> copies correctly whatever the overlap of the two buffers: when neither buffer
  runs past the end of the address space, the \<open>n\<close> destination bytes hold what the source
  bytes held before the call, every other byte is unchanged, and the destination pointer is
  returned.
\<close>

theorem memmove_correct:
  assumes "unat d + unat n \<le> 2 ^ 32" and "unat s + unat n \<le> 2 ^ 32"
  shows "memmove m d s n = (d, copied m d s (unat n))"
proof (cases "d < s")
  case True
  have "d + of_nat i \<noteq> s + of_nat j" if "i < j" "j < unat n" for i j
    using assms that True unat_add_of_nat [of d i] unat_add_of_nat [of s j]
    by (auto simp: word_less_nat_alt word_unat_eq_iff)
  then show ?thesis using True by (simp add: memmove_def memmove_up_copied)
next
  case False
  have "d + of_nat i \<noteq> s + of_nat j" if "j < i" "i < unat n" for i j
    using assms that False unat_add_of_nat [of d i] unat_add_of_nat [of s j]
    by (auto simp: word_less_nat_alt word_unat_eq_iff)
  then show ?thesis using False memmove_down_copied [of "unat n" d s m] by (simp add: memmove_def)
qed

theorem memmove_correct_witness:
  "memmove (\<lambda>x. ucast x) 0x101 0x100 3 = (0x101, copied (\<lambda>x. ucast x) 0x101 0x100 3)"
  using memmove_correct [of "0x101" 3 "0x100" "\<lambda>x. ucast x"] by simp

text \<open>
  \<open>memcpy\<close> copies correctly when the two buffers do not overlap.
\<close>

theorem memcpy_correct:
  assumes "region d (unat n) \<inter> region s (unat n) = {}"
  shows "memcpy m d s n = (d, copied m d s (unat n))"
  using memmove_up_copied [of "unat n" d s m] disjoint_no_overlap [OF assms]
  by (simp add: memcpy_def memcpy_loop_up)

theorem memcpy_correct_witness:
  "memcpy (\<lambda>x. ucast x) 0x200 0x100 8 = (0x200, copied (\<lambda>x. ucast x) 0x200 0x100 8)"
proof -
  have "region (0x200::u32) 8 \<inter> region 0x100 8 = {}"
    by (rule region_disjoint') simp_all
  then show ?thesis using memcpy_correct [of "0x200" 8 "0x100" "\<lambda>x. ucast x"] by simp
qed

text \<open>
  C34. \<open>strlen\<close> returns exactly when memory holds a zero byte, and then returns the length of
  the string at its argument: the number of non-zero bytes before the first zero byte.
\<close>

theorem strlen_correct:
  "(strlen m a = Some n \<longleftrightarrow> (\<exists>bs. cstr m a bs \<and> length bs = unat n)) \<and>
   (strlen m a = None \<longleftrightarrow> (\<forall>x. m x \<noteq> 0))"
proof -
  have some: "strlen m a = Some (of_nat (length bs))" if "cstr m a bs" for bs
    using strlen_loop_cstr [of m a 0 bs] that by (simp add: strlen_def)
  have ex: "\<exists>bs. cstr m a bs" if "strlen m a = Some k" for k
    using strlen_loop_zero [of m a 0 k] that cstr_exists by (simp add: strlen_def)
  have len: "unat (of_nat (length bs) :: u32) = length bs" if "cstr m a bs" for bs
    using cstr_length [OF that] by (simp add: unat_of_nat)
  have "strlen m a = Some n \<longleftrightarrow> (\<exists>bs. cstr m a bs \<and> length bs = unat n)"
    using some ex [of n] len by (fastforce simp: word_unat_eq_iff)
  moreover have "strlen m a = None \<longleftrightarrow> (\<forall>x. m x \<noteq> 0)"
    using some ex cstr_exists [of m _ a] cstr_end [of m a] by (cases "strlen m a") fastforce+
  ultimately show ?thesis ..
qed

text \<open>
  \<open>strcmp\<close> decides equality and lexicographic order of two C strings, comparing bytes as
  unsigned: on any two strings it returns, zero exactly when they are equal and a negative
  number exactly when the first comes first.
\<close>

theorem strcmp_correct:
  assumes "cstr m a xs" and "cstr m b ys"
  shows "\<exists>r. strcmp m a b = Some r \<and> (r = 0 \<longleftrightarrow> xs = ys) \<and>
             (r < 0 \<longleftrightarrow> (xs, ys) \<in> lexord {(u, v). u < v})"
  using assms by (rule strcmp_cstr)

definition two_strings :: mem32 where
  "two_strings = (\<lambda>_. 0)(0x10 := 97, 0x11 := 98, 0x20 := 97, 0x21 := 200)"

theorem strcmp_correct_witness:
  "\<exists>r. strcmp two_strings 0x10 0x20 = Some r \<and> (r = 0 \<longleftrightarrow> [97, 98::u8] = [97, 200]) \<and>
       (r < 0 \<longleftrightarrow> ([97, 98], [97, 200::u8]) \<in> lexord {(u, v). u < v})"
  by (rule strcmp_correct) (simp_all add: two_strings_def)

text \<open>
  \<open>strcpy\<close> returns and copies the string with its terminating zero: on a source string and
  a destination that does not overlap it, the destination holds the same string afterwards and
  no byte outside the destination buffer changes.
\<close>

theorem strcpy_correct:
  assumes "cstr m s bs" and "region d (Suc (length bs)) \<inter> region s (Suc (length bs)) = {}"
  shows "\<exists>m'. strcpy m d s = Some (d, m') \<and> cstr m' d bs \<and>
              (\<forall>x. x \<notin> region d (Suc (length bs)) \<longrightarrow> m' x = m x)"
  using strcpy_loop_cstr [OF assms] cstr_copied [OF assms(1), of d]
  by (auto simp: strcpy_def copied_def)

theorem strcpy_correct_witness:
  "\<exists>m'. strcpy two_strings 0x40 0x10 = Some (0x40, m') \<and> cstr m' 0x40 [97, 98] \<and>
        (\<forall>x. x \<notin> region 0x40 (Suc (length [97, 98::u8])) \<longrightarrow> m' x = two_strings x)"
proof (rule strcpy_correct)
  show "cstr two_strings 0x10 [97, 98]" by (simp add: two_strings_def)
  show "region (0x40::u32) (Suc (length [97, 98::u8])) \<inter> region 0x10 (Suc (length [97, 98::u8])) = {}"
    by (rule region_disjoint') simp_all
qed

end
