(* ===== verification/Memory_Map.thy ===== *)
theory Memory_Map
  imports Prelude
begin

text \<open>
  The machine's memory map, \<^verbatim>\<open>memory_map/memory_map.c\<close>: a table of at most
  \<open>MMAP_MAX_ENTRIES\<close> typed regions with running totals of the free bytes, and the fixed
  64 MB layout that \<open>mmap_parse\<close> builds. The lines the code prints are not modelled, but for
  the type names.
\<close>

section \<open>Data\<close>

text \<open>
  The enumerators of \<open>mmap_type_t\<close>. \<open>MMAP_ZERO\<close> is the value 0, which is no enumerator but
  is what a cleared table entry holds.
\<close>

datatype mmap_type_t =
  MMAP_ZERO | MMAP_FREE | MMAP_RESERVED | MMAP_ACPI | MMAP_NVS | MMAP_BADRAM | MMAP_KERNEL

fun mmap_type_code :: "mmap_type_t \<Rightarrow> nat" where
  "mmap_type_code MMAP_ZERO = 0"
| "mmap_type_code MMAP_FREE = 1"
| "mmap_type_code MMAP_RESERVED = 2"
| "mmap_type_code MMAP_ACPI = 3"
| "mmap_type_code MMAP_NVS = 4"
| "mmap_type_code MMAP_BADRAM = 5"
| "mmap_type_code MMAP_KERNEL = 6"

lemma mmap_type_code_inj [simp]: "mmap_type_code a = mmap_type_code b \<longleftrightarrow> a = b"
  by (cases a; cases b) simp_all

instantiation mmap_type_t :: linorder
begin

definition less_eq_mmap_type_t :: "mmap_type_t \<Rightarrow> mmap_type_t \<Rightarrow> bool" where
  "a \<le> b \<longleftrightarrow> mmap_type_code a \<le> mmap_type_code b"

definition less_mmap_type_t :: "mmap_type_t \<Rightarrow> mmap_type_t \<Rightarrow> bool" where
  "a < b \<longleftrightarrow> mmap_type_code a < mmap_type_code b"

instance
  by standard (auto simp: less_eq_mmap_type_t_def less_mmap_type_t_def)

end

record mmap_entry_t =
  entry_base :: u64
  entry_length :: u64
  entry_type :: mmap_type_t

definition MMAP_MAX_ENTRIES :: nat where
  "MMAP_MAX_ENTRIES = 64"

record memory_map_t =
  entries :: "mmap_entry_t list"
  count :: u32
  total_free :: u64
  total_usable :: u64

section \<open>Operations\<close>

fun mmap_type_str :: "mmap_type_t \<Rightarrow> string" where
  "mmap_type_str MMAP_FREE = ''Free RAM''"
| "mmap_type_str MMAP_RESERVED = ''Reserved''"
| "mmap_type_str MMAP_ACPI = ''ACPI Reclaimable''"
| "mmap_type_str MMAP_NVS = ''ACPI NVS''"
| "mmap_type_str MMAP_BADRAM = ''Bad RAM''"
| "mmap_type_str MMAP_KERNEL = ''Kernel''"
| "mmap_type_str _ = ''Unknown''"

definition mmap_init :: memory_map_t where
  "mmap_init =
     \<lparr>entries = replicate MMAP_MAX_ENTRIES \<lparr>entry_base = 0, entry_length = 0, entry_type = MMAP_ZERO\<rparr>,
      count = 0, total_free = 0, total_usable = 0\<rparr>"

definition mmap_add_entry :: "memory_map_t \<Rightarrow> u64 \<Rightarrow> u64 \<Rightarrow> mmap_type_t \<Rightarrow> memory_map_t" where
  "mmap_add_entry mmap b len ty =
     (if unat (count mmap) \<ge> MMAP_MAX_ENTRIES then mmap
      else
        let m = mmap\<lparr>entries := (entries mmap)
                       [unat (count mmap) := \<lparr>entry_base = b, entry_length = len, entry_type = ty\<rparr>],
                     count := count mmap + 1\<rparr>
        in if ty = MMAP_FREE
           then m\<lparr>total_free := total_free m + len, total_usable := total_usable m + len\<rparr>
           else m)"

definition mmap_parse :: memory_map_t where
  "mmap_parse =
     (let m = mmap_init;
          m = mmap_add_entry m 0x00000000 0x000A0000 MMAP_FREE;
          m = mmap_add_entry m 0x000A0000 0x00020000 MMAP_RESERVED;
          m = mmap_add_entry m 0x000C0000 0x00040000 MMAP_RESERVED;
          m = mmap_add_entry m 0x00100000 0x00E00000 MMAP_FREE;
          m = mmap_add_entry m 0x00F00000 0x00100000 MMAP_RESERVED;
          m = mmap_add_entry m 0x01000000 0x01800000 MMAP_FREE;
          m = mmap_add_entry m 0x02800000 0x00100000 MMAP_ACPI;
          m = mmap_add_entry m 0x02900000 0x01300000 MMAP_FREE;
          m = mmap_add_entry m 0x03C00000 0x00400000 MMAP_RESERVED
      in m)"

text \<open>
  The printed table: the number of entries, a line per entry and the total. A count beyond the array
  is a read out of bounds.
\<close>

definition mmap_print :: "memory_map_t \<Rightarrow> (u32 \<times> (u64 \<times> u64 \<times> string) list \<times> u64) option" where
  "mmap_print mmap =
     (if unat (count mmap) \<le> length (entries mmap)
      then Some (count mmap,
        map (\<lambda>e. (entry_base e, entry_length e, mmap_type_str (entry_type e))) (take (unat (count mmap)) (entries mmap)),
        total_free mmap)
      else None)"

section \<open>The table as a list of regions\<close>

text \<open>The entries in use: the abstract view of the table.\<close>

definition regions :: "memory_map_t \<Rightarrow> mmap_entry_t list" where
  "regions mmap = take (unat (count mmap)) (entries mmap)"

definition free_bytes :: "mmap_entry_t list \<Rightarrow> u64" where
  "free_bytes es = sum_list (map entry_length (filter (\<lambda>e. entry_type e = MMAP_FREE) es))"

definition mmap_wf :: "memory_map_t \<Rightarrow> bool" where
  "mmap_wf mmap \<longleftrightarrow>
     length (entries mmap) = MMAP_MAX_ENTRIES \<and> unat (count mmap) \<le> MMAP_MAX_ENTRIES \<and>
     total_free mmap = free_bytes (regions mmap) \<and> total_usable mmap = total_free mmap"

text \<open>Regions that follow each other without gap or overlap, from \<open>a\<close> up to \<open>e\<close>.\<close>

fun tiling :: "nat \<Rightarrow> mmap_entry_t list \<Rightarrow> nat \<Rightarrow> bool" where
  "tiling a [] e \<longleftrightarrow> a = e"
| "tiling a (r # rs) e \<longleftrightarrow>
     unat (entry_base r) = a \<and> tiling (a + unat (entry_length r)) rs e"

lemma free_bytes_append: "free_bytes (es @ [e]) =
    free_bytes es + (if entry_type e = MMAP_FREE then entry_length e else 0)"
  by (simp add: free_bytes_def)

lemma mmap_wf_init: "mmap_wf mmap_init" and regions_init: "regions mmap_init = []"
  by (simp_all add: mmap_wf_def mmap_init_def regions_def free_bytes_def)

lemma count_Suc: "unat (c::u32) < MMAP_MAX_ENTRIES \<Longrightarrow> unat (c + 1) = Suc (unat c)"
  using unat_add_no_wrap [of c 1] by (simp add: MMAP_MAX_ENTRIES_def)

lemma regions_add_entry:
  assumes "mmap_wf mmap"
  shows "regions (mmap_add_entry mmap b len ty) =
    (if unat (count mmap) < MMAP_MAX_ENTRIES
     then regions mmap @ [\<lparr>entry_base = b, entry_length = len, entry_type = ty\<rparr>]
     else regions mmap)"
  using assms
  by (simp add: mmap_add_entry_def regions_def mmap_wf_def Let_def count_Suc take_Suc_conv_app_nth)

lemma mmap_wf_add_entry:
  assumes "mmap_wf mmap"
  shows "mmap_wf (mmap_add_entry mmap b len ty)"
proof (cases "unat (count mmap) < MMAP_MAX_ENTRIES")
  case True
  then show ?thesis
    using assms regions_add_entry [OF assms, of b len ty]
    by (auto simp: mmap_wf_def free_bytes_append)
      (auto simp: mmap_add_entry_def Let_def count_Suc)
next
  case False
  then show ?thesis using assms by (simp add: mmap_add_entry_def)
qed

lemma mmap_wf_parse: "mmap_wf mmap_parse"
  by (simp add: mmap_parse_def Let_def mmap_wf_add_entry mmap_wf_init)

lemma count_init: "count mmap_init = 0"
  by (simp add: mmap_init_def)

text \<open>The table that \<open>mmap_parse\<close> builds, as a list.\<close>

lemma count_add_entry:
  "unat (count mmap) < MMAP_MAX_ENTRIES \<Longrightarrow> count (mmap_add_entry mmap b len ty) = count mmap + 1"
  by (simp add: mmap_add_entry_def Let_def)

lemma regions_parse:
  "regions mmap_parse =
     map (\<lambda>(b, l, t). \<lparr>entry_base = b, entry_length = l, entry_type = t\<rparr>)
       [(0x00000000, 0x000A0000, MMAP_FREE), (0x000A0000, 0x00020000, MMAP_RESERVED),
        (0x000C0000, 0x00040000, MMAP_RESERVED), (0x00100000, 0x00E00000, MMAP_FREE),
        (0x00F00000, 0x00100000, MMAP_RESERVED), (0x01000000, 0x01800000, MMAP_FREE),
        (0x02800000, 0x00100000, MMAP_ACPI), (0x02900000, 0x01300000, MMAP_FREE),
        (0x03C00000, 0x00400000, MMAP_RESERVED)]"
  by (simp add: mmap_parse_def Let_def regions_add_entry mmap_wf_add_entry mmap_wf_init
      regions_init count_add_entry MMAP_MAX_ENTRIES_def count_init)

definition in_region :: "mmap_entry_t \<Rightarrow> nat \<Rightarrow> bool" where
  "in_region r x \<longleftrightarrow>
     unat (entry_base r) \<le> x \<and> x < unat (entry_base r) + unat (entry_length r)"

lemma tiling_above: "tiling a rs e \<Longrightarrow> i < length rs \<Longrightarrow> a \<le> unat (entry_base (rs ! i))"
proof (induction rs arbitrary: a i)
  case (Cons r rs)
  show ?case
  proof (cases i)
    case 0
    then show ?thesis using Cons.prems by simp
  next
    case (Suc j)
    then show ?thesis using Cons.prems Cons.IH [of "a + unat (entry_length r)" j] by simp
  qed
qed simp

lemma tiling_covers:
  "tiling a rs e \<Longrightarrow> a \<le> x \<Longrightarrow> x < e \<Longrightarrow> \<exists>!i. i < length rs \<and> in_region (rs ! i) x"
proof (induction rs arbitrary: a)
  case Nil
  then show ?case by simp
next
  case (Cons r rs)
  let ?b = "a + unat (entry_length r)"
  have t: "tiling ?b rs e" and r: "in_region r x \<longleftrightarrow> x < ?b"
    using Cons.prems by (simp_all add: in_region_def)
  show ?case
  proof (cases "x < ?b")
    case True
    have "i = 0" if "i < length (r # rs)" "in_region ((r # rs) ! i) x" for i
      using that tiling_above [OF t, of "i - 1"] True by (cases i) (auto simp: in_region_def)
    then show ?thesis using True r by (intro ex1I [of _ 0]) auto
  next
    case False
    then obtain j where j: "j < length rs" "in_region (rs ! j) x"
      and uniq: "\<And>i. i < length rs \<Longrightarrow> in_region (rs ! i) x \<Longrightarrow> i = j"
      using Cons.IH [OF t] Cons.prems(3) by (auto simp: not_less)
    have "i = Suc j" if "i < length (r # rs)" "in_region ((r # rs) ! i) x" for i
      using that uniq [of "i - 1"] False r by (cases i) auto
    then show ?thesis using j by (intro ex1I [of _ "Suc j"]) auto
  qed
qed

text \<open>Regions that do not overlap, and the tilings that give them.\<close>

definition no_overlap :: "mmap_entry_t list \<Rightarrow> bool" where
  "no_overlap rs \<longleftrightarrow> sorted_wrt (\<lambda>r r'. \<forall>x. \<not> (in_region r x \<and> in_region r' x)) rs"

lemma tiling_no_overlap: "tiling a rs e \<Longrightarrow> no_overlap rs"
proof (induction rs arbitrary: a)
  case (Cons r rs)
  have t: "tiling (a + unat (entry_length r)) rs e" using Cons.prems by simp
  have "\<not> (in_region r x \<and> in_region r' x)" if "r' \<in> set rs" for r' x
  proof -
    from that obtain i where "i < length rs" "r' = rs ! i" by (auto simp: in_set_conv_nth)
    then show ?thesis using tiling_above [OF t] Cons.prems by (fastforce simp: in_region_def)
  qed
  then show ?case using Cons.IH [OF t] by (simp add: no_overlap_def)
qed (simp add: no_overlap_def)

section \<open>Properties\<close>

text \<open>
  \<open>mmap_add_entry\<close> implements appending a region to a bounded list: on a well-formed table
  it appends the region when fewer than 64 are in use and drops it otherwise, and the table
  stays well-formed, so that \<open>total_free\<close> is the sum of the free regions' lengths.
\<close>

theorem mmap_add_entry_appends:
  assumes "mmap_wf mmap"
  shows "mmap_wf (mmap_add_entry mmap b len ty) \<and>
    regions (mmap_add_entry mmap b len ty) =
      (if length (regions mmap) < MMAP_MAX_ENTRIES
       then regions mmap @ [\<lparr>entry_base = b, entry_length = len, entry_type = ty\<rparr>]
       else regions mmap)"
  using assms mmap_wf_add_entry [OF assms] regions_add_entry [OF assms, of b len ty]
  by (auto simp: mmap_wf_def regions_def)

theorem mmap_add_entry_appends_witness:
  "mmap_wf (mmap_add_entry mmap_init 0x1000 0x2000 MMAP_FREE) \<and>
   regions (mmap_add_entry mmap_init 0x1000 0x2000 MMAP_FREE) =
     (if length (regions mmap_init) < MMAP_MAX_ENTRIES
      then regions mmap_init @ [\<lparr>entry_base = 0x1000, entry_length = 0x2000, entry_type = MMAP_FREE\<rparr>]
      else regions mmap_init)"
  by (rule mmap_add_entry_appends [OF mmap_wf_init])

text \<open>
  C35. The layout that \<open>mmap_parse\<close> builds is well-formed and partitions the simulated 64 MB:
  every address below \<open>0x4000000\<close> lies in exactly one of its nine regions, and the free regions
  add up to 14752 pages.
\<close>

theorem mmap_parse_partition:
  "mmap_wf mmap_parse \<and> length (regions mmap_parse) = 9 \<and>
   total_free mmap_parse = 14752 * PAGE_SIZE \<and>
   (x < 0x4000000 \<longrightarrow>
     (\<exists>!i. i < length (regions mmap_parse) \<and> in_region (regions mmap_parse ! i) x))"
proof -
  have "tiling 0 (regions mmap_parse) 0x4000000" by (simp add: regions_parse)
  moreover have "total_free mmap_parse = 14752 * PAGE_SIZE"
    using mmap_wf_parse by (simp add: mmap_wf_def free_bytes_def regions_parse PAGE_SIZE_def)
  moreover have "length (regions mmap_parse) = 9" by (simp add: regions_parse)
  ultimately show ?thesis using tiling_covers [of 0 "regions mmap_parse"] mmap_wf_parse by simp
qed

theorem mmap_parse_partition_witness:
  "\<exists>!i. i < length (regions mmap_parse) \<and> in_region (regions mmap_parse ! i) 0xB8000"
proof -
  have "(0xB8000::nat) < 0x4000000" by simp
  then show ?thesis using mmap_parse_partition [of "0xB8000"] by blast
qed

end
