(* ===== verification/Pmm.thy ===== *)
theory Pmm
  imports Byte_Memory Memory_Map
begin

text \<open>
  The physical page allocator, \<^verbatim>\<open>pmm/pmm.c\<close>: a bitmap with one bit per 4 KB page of the
  simulated 64 MB, three counters, and the simulated memory itself. Addresses are 64 bits wide
  (\<open>paddr_t\<close> is \<open>uintptr_t\<close> on the 64-bit host the 4-level page tables are made for). An index
  outside the bitmap and an access outside \<open>phys_mem\<close> are faults. Messages are not modelled.

  A loop whose counter runs from 0 to a bound recurses on the number of rounds left and carries
  the counter as the machine integer the code uses.
\<close>

section \<open>Simulated physical memory\<close>

definition PHYS_MEM_SIZE :: u64 where
  "PHYS_MEM_SIZE = MB 64"

definition PMM_MAX_PAGES :: u64 where
  "PMM_MAX_PAGES = PHYS_MEM_SIZE div PAGE_SIZE"

definition PMM_BITMAP_BYTES :: u64 where
  "PMM_BITMAP_BYTES = PMM_MAX_PAGES div 8"

lemma pmm_consts [c_const]:
  "PAGE_SIZE = 4096" "PHYS_MEM_SIZE = 0x4000000" "PMM_MAX_PAGES = 16384" "PMM_BITMAP_BYTES = 2048"
  by (simp_all add: PAGE_SIZE_def PHYS_MEM_SIZE_def MB_def PMM_MAX_PAGES_def PMM_BITMAP_BYTES_def)

text \<open>
  A host pointer is null or \<open>PhysMem off\<close>, the address \<open>phys_mem + off\<close>; as offsets are taken
  modulo \<open>2 ^ 64\<close>, every address is of this form, and it lies in the array iff
  \<open>off < PHYS_MEM_SIZE\<close>.
\<close>

datatype cptr = NULL | PhysMem u64

definition phys_to_virt :: "u64 \<Rightarrow> cptr" where
  "phys_to_virt addr = (if addr \<ge> PHYS_MEM_SIZE then NULL else PhysMem addr)"

definition virt_to_phys :: "cptr \<Rightarrow> u64" where
  "virt_to_phys ptr =
     (case ptr of
        NULL \<Rightarrow> - 1
      | PhysMem off \<Rightarrow> if off \<ge> PHYS_MEM_SIZE then - 1 else off)"

text \<open>The C library's \<open>memset\<close> on the array.\<close>

definition memset_phys :: "(u64 \<Rightarrow> u8) \<Rightarrow> cptr \<Rightarrow> u8 \<Rightarrow> u64 \<Rightarrow> (u64 \<Rightarrow> u8) option" where
  "memset_phys m p v n =
     (case p of
        NULL \<Rightarrow> None
      | PhysMem off \<Rightarrow>
          if unat off + unat n \<le> unat PHYS_MEM_SIZE
          then Some (\<lambda>x. if unat (x - off) < unat n then v else m x) else None)"

section \<open>The bitmap\<close>

definition bitmap_set :: "u8 list \<Rightarrow> u64 \<Rightarrow> u8 list option" where
  "bitmap_set bitmap b =
     (let i = unat (drop_bit 3 b)
      in if i < length bitmap
         then Some (bitmap[i := ucast ((ucast (bitmap ! i) :: u32) OR push_bit (unat (b AND 7)) 1)])
         else None)"

definition bitmap_clear :: "u8 list \<Rightarrow> u64 \<Rightarrow> u8 list option" where
  "bitmap_clear bitmap b =
     (let i = unat (drop_bit 3 b)
      in if i < length bitmap
         then Some (bitmap[i := ucast ((ucast (bitmap ! i) :: u32) AND NOT (push_bit (unat (b AND 7)) 1))])
         else None)"

definition bitmap_test :: "u8 list \<Rightarrow> u64 \<Rightarrow> bool option" where
  "bitmap_test bitmap b =
     (let i = unat (drop_bit 3 b)
      in if i < length bitmap
         then Some ((drop_bit (unat (b AND 7)) (ucast (bitmap ! i) :: u32)) AND 1 \<noteq> 0)
         else None)"

section \<open>The allocator\<close>

record pmm_t =
  bitmap :: "u8 list"
  total_pages :: u64
  free_pages :: u64
  used_pages :: u64

record phys_t =
  pmm :: pmm_t
  phys_mem :: "u64 \<Rightarrow> u8"

primrec pmm_init_pages :: "nat \<Rightarrow> u64 \<Rightarrow> pmm_t \<Rightarrow> pmm_t option" where
  "pmm_init_pages 0 b p = Some p"
| "pmm_init_pages (Suc n) b p = do {
     bm \<leftarrow> bitmap_clear (bitmap p) b;
     pmm_init_pages n (b + 1)
       (p\<lparr>bitmap := bm, free_pages := free_pages p + 1, total_pages := total_pages p + 1\<rparr>) }"

definition pmm_init_entry :: "mmap_entry_t \<Rightarrow> pmm_t \<Rightarrow> pmm_t option" where
  "pmm_init_entry e p =
     (if entry_type e \<noteq> MMAP_FREE then Some p
      else
        let bs = ALIGN_UP (entry_base e) PAGE_SIZE;
            top = ALIGN_DOWN (entry_base e + entry_length e) PAGE_SIZE
        in if bs \<ge> PHYS_MEM_SIZE then Some p
           else
             let top = (if top > PHYS_MEM_SIZE then PHYS_MEM_SIZE else top);
                 pages = (top - bs) div PAGE_SIZE;
                 first = bs div PAGE_SIZE
             in pmm_init_pages (unat pages) first p)"

primrec pmm_init_entries :: "nat \<Rightarrow> nat \<Rightarrow> memory_map_t \<Rightarrow> pmm_t \<Rightarrow> pmm_t option" where
  "pmm_init_entries 0 i mmap p = Some p"
| "pmm_init_entries (Suc n) i mmap p =
     (if i < length (entries mmap)
      then do { p' \<leftarrow> pmm_init_entry (entries mmap ! i) p; pmm_init_entries n (Suc i) mmap p' }
      else None)"

definition pmm_init :: "memory_map_t \<Rightarrow> pmm_t option" where
  "pmm_init mmap = do {
     p \<leftarrow> pmm_init_entries (unat (count mmap)) 0 mmap
            \<lparr>bitmap = replicate (unat PMM_BITMAP_BYTES) 0xFF, total_pages = 0, free_pages = 0, used_pages = 0\<rparr>;
     Some (p\<lparr>used_pages := 0\<rparr>) }"

primrec pmm_scan :: "u8 list \<Rightarrow> nat \<Rightarrow> u64 \<Rightarrow> u64 option option" where
  "pmm_scan bm 0 i = Some None"
| "pmm_scan bm (Suc n) i = do {
     used \<leftarrow> bitmap_test bm i;
     if \<not> used then Some (Some i) else pmm_scan bm n (i + 1) }"

definition pmm_alloc :: "phys_t \<Rightarrow> (u64 \<times> phys_t) option" where
  "pmm_alloc ph =
     (let p = pmm ph
      in if free_pages p = 0 then Some (- 1, ph)
         else do {
           found \<leftarrow> pmm_scan (bitmap p) (unat PMM_MAX_PAGES) 0;
           case found of
             None \<Rightarrow> Some (- 1, ph)
           | Some i \<Rightarrow> do {
               bm \<leftarrow> bitmap_set (bitmap p) i;
               let addr = i * PAGE_SIZE;
               mem \<leftarrow> memset_phys (phys_mem ph) (phys_to_virt addr) 0 PAGE_SIZE;
               Some (addr, ph\<lparr>pmm := p\<lparr>bitmap := bm, free_pages := free_pages p - 1,
                                       used_pages := used_pages p + 1\<rparr>,
                              phys_mem := mem\<rparr>) } })"

primrec pmm_run_scan :: "u8 list \<Rightarrow> u64 \<Rightarrow> nat \<Rightarrow> u64 \<Rightarrow> u64 \<Rightarrow> u64 \<Rightarrow> u64 option option" where
  "pmm_run_scan bm n 0 i run start = Some None"
| "pmm_run_scan bm n (Suc k) i run start = do {
     used \<leftarrow> bitmap_test bm i;
     if \<not> used then
       (let start = (if run = 0 then i else start); run = run + 1
        in if run = n then Some (Some start) else pmm_run_scan bm n k (i + 1) run start)
     else pmm_run_scan bm n k (i + 1) 0 start }"

primrec pmm_take_pages :: "nat \<Rightarrow> u64 \<Rightarrow> pmm_t \<Rightarrow> pmm_t option" where
  "pmm_take_pages 0 j p = Some p"
| "pmm_take_pages (Suc k) j p = do {
     bm \<leftarrow> bitmap_set (bitmap p) j;
     pmm_take_pages k (j + 1)
       (p\<lparr>bitmap := bm, free_pages := free_pages p - 1, used_pages := used_pages p + 1\<rparr>) }"

definition pmm_alloc_n :: "phys_t \<Rightarrow> u64 \<Rightarrow> (u64 \<times> phys_t) option" where
  "pmm_alloc_n ph n =
     (let p = pmm ph
      in if n = 0 \<or> free_pages p < n then Some (- 1, ph)
         else do {
           found \<leftarrow> pmm_run_scan (bitmap p) n (unat PMM_MAX_PAGES) 0 0 0;
           case found of
             None \<Rightarrow> Some (- 1, ph)
           | Some start \<Rightarrow> do {
               p' \<leftarrow> pmm_take_pages (unat (start + n) - unat start) start p;
               let addr = start * PAGE_SIZE;
               mem \<leftarrow> memset_phys (phys_mem ph) (phys_to_virt addr) 0 (n * PAGE_SIZE);
               Some (addr, ph\<lparr>pmm := p', phys_mem := mem\<rparr>) } })"

definition pmm_free :: "pmm_t \<Rightarrow> u64 \<Rightarrow> pmm_t option" where
  "pmm_free p addr =
     (if addr mod PAGE_SIZE \<noteq> 0 then Some p
      else if addr \<ge> PHYS_MEM_SIZE then Some p
      else
        let page = addr div PAGE_SIZE
        in do {
          used \<leftarrow> bitmap_test (bitmap p) page;
          if \<not> used then Some p
          else do {
            bm \<leftarrow> bitmap_clear (bitmap p) page;
            Some (p\<lparr>bitmap := bm, free_pages := free_pages p + 1, used_pages := used_pages p - 1\<rparr>) } })"

primrec pmm_free_loop :: "nat \<Rightarrow> u64 \<Rightarrow> pmm_t \<Rightarrow> u64 \<Rightarrow> pmm_t option" where
  "pmm_free_loop 0 i p addr = Some p"
| "pmm_free_loop (Suc k) i p addr = do {
     p' \<leftarrow> pmm_free p (addr + i * PAGE_SIZE);
     pmm_free_loop k (i + 1) p' addr }"

definition pmm_free_n :: "pmm_t \<Rightarrow> u64 \<Rightarrow> u64 \<Rightarrow> pmm_t option" where
  "pmm_free_n p addr n = pmm_free_loop (unat n) 0 p addr"

definition pmm_is_free :: "pmm_t \<Rightarrow> u64 \<Rightarrow> bool option" where
  "pmm_is_free p addr =
     (if addr \<ge> PHYS_MEM_SIZE then Some False
      else map_option Not (bitmap_test (bitmap p) (addr div PAGE_SIZE)))"

text \<open>The printed statistics: pages and megabytes in all, free and used.\<close>

definition pmm_print_stats :: "pmm_t \<Rightarrow> (u64 \<times> u64) list" where
  "pmm_print_stats p =
     (let free_mb = free_pages p * PAGE_SIZE div (1024 * 1024);
          used_mb = used_pages p * PAGE_SIZE div (1024 * 1024);
          total_mb = total_pages p * PAGE_SIZE div (1024 * 1024)
      in [(total_pages p, total_mb), (free_pages p, free_mb), (used_pages p, used_mb)])"

section \<open>Facts on the bitmap\<close>

text \<open>Page \<open>i\<close> is used when its bit is set.\<close>

definition used_at :: "u8 list \<Rightarrow> nat \<Rightarrow> bool" where
  "used_at bm i = bit (bm ! (i div 8)) (i mod 8)"

lemma unat_byte_index: "unat (drop_bit 3 (b::u64)) = unat b div 8"
  by (simp add: drop_bit_eq_div unat_div)

lemma unat_bit_index: "unat ((b::u64) AND 7) = unat b mod 8"
proof -
  have "b AND 7 = take_bit 3 b" by (simp add: take_bit_eq_mask mask_eq_exp_minus_1)
  then show ?thesis by (simp add: take_bit_eq_mod unat_mod)
qed

lemma bitmap_test_used:
  "unat b div 8 < length bm \<Longrightarrow> bitmap_test bm b = Some (used_at bm (unat b))"
  by (simp add: bitmap_test_def Let_def unat_byte_index unat_bit_index used_at_def and_one_eq
      bit_ucast_iff flip: odd_iff_mod_2_eq_one bit_iff_odd_drop_bit)
    (auto dest: bit_imp_le_length)

lemma bitmap_set_used:
  assumes "unat b div 8 < length bm"
  obtains bm' where "bitmap_set bm b = Some bm'" "length bm' = length bm"
    "\<And>i. i div 8 < length bm \<Longrightarrow> used_at bm' i \<longleftrightarrow> i = unat b \<or> used_at bm i"
proof
  let ?i = "unat b div 8" and ?k = "unat b mod 8"
  let ?bm = "bm[?i := ucast ((ucast (bm ! ?i) :: u32) OR push_bit ?k 1)]"
  show "bitmap_set bm b = Some ?bm"
    using assms by (simp add: bitmap_set_def Let_def unat_byte_index unat_bit_index)
  show "length ?bm = length bm" by simp
  fix i assume "i div 8 < length bm"
  moreover have "i = unat b \<longleftrightarrow> i div 8 = ?i \<and> i mod 8 = ?k" by (metis div_mult_mod_eq)
  ultimately show "used_at ?bm i \<longleftrightarrow> i = unat b \<or> used_at bm i"
    using assms by (cases "i div 8 = ?i") (auto simp: used_at_def bit_simps)
qed

lemma bitmap_clear_used:
  assumes "unat b div 8 < length bm"
  obtains bm' where "bitmap_clear bm b = Some bm'" "length bm' = length bm"
    "\<And>i. i div 8 < length bm \<Longrightarrow> used_at bm' i \<longleftrightarrow> i \<noteq> unat b \<and> used_at bm i"
proof
  let ?i = "unat b div 8" and ?k = "unat b mod 8"
  let ?bm = "bm[?i := ucast ((ucast (bm ! ?i) :: u32) AND NOT (push_bit ?k 1))]"
  show "bitmap_clear bm b = Some ?bm"
    using assms by (simp add: bitmap_clear_def Let_def unat_byte_index unat_bit_index)
  show "length ?bm = length bm" by simp
  fix i assume "i div 8 < length bm"
  moreover have "i = unat b \<longleftrightarrow> i div 8 = ?i \<and> i mod 8 = ?k" by (metis div_mult_mod_eq)
  ultimately show "used_at ?bm i \<longleftrightarrow> i \<noteq> unat b \<and> used_at bm i"
    using assms by (cases "i div 8 = ?i") (auto simp: used_at_def bit_simps)
qed

lemma bitmap_clear_outside: "length bm \<le> unat b div 8 \<Longrightarrow> bitmap_clear bm b = None"
  by (simp add: bitmap_clear_def Let_def unat_byte_index)

lemma bitmap_eqI:
  assumes "length bm = length bm'" "\<And>i. i div 8 < length bm \<Longrightarrow> used_at bm i = used_at bm' i"
  shows "bm = bm'"
proof (rule nth_equalityI [OF assms(1)], rule bit_word_eqI)
  fix j k assume "j < length bm" "k < LENGTH(8)"
  then show "bit (bm ! j) k = bit (bm' ! j) k"
    using assms(2) [of "8 * j + k"] by (simp add: used_at_def)
qed

section \<open>The free pages and the invariant\<close>

definition free_set :: "u8 list \<Rightarrow> nat set" where
  "free_set bm = {i. i < 16384 \<and> \<not> used_at bm i}"

text \<open>
  The bitmap has its full size, \<open>free_pages\<close> counts the clear bits and \<open>total_pages\<close> is the sum
  of the two other counters without wrap-around.
\<close>

definition pmm_wf :: "pmm_t \<Rightarrow> bool" where
  "pmm_wf p \<longleftrightarrow>
     length (bitmap p) = 2048 \<and> unat (free_pages p) = card (free_set (bitmap p)) \<and>
     unat (total_pages p) = unat (free_pages p) + unat (used_pages p)"

lemma finite_free_set [simp, intro]: "finite (free_set bm)"
  by (simp add: free_set_def)

lemma free_set_bound: "i \<in> free_set bm \<Longrightarrow> i < 16384"
  by (simp add: free_set_def)

lemma card_free_set: "card (free_set bm) \<le> 16384"
  using card_mono [of "{..<16384}" "free_set bm"] by (auto simp: free_set_def)

lemma unat_page_number [simp]: "i \<le> 16384 \<Longrightarrow> unat (of_nat i :: u64) = i"
  by (simp add: unat_of_nat)

lemma page_index: "i < 16384 \<Longrightarrow> length bm = 2048 \<Longrightarrow> i div 8 < length bm"
  by simp

lemma test_page:
  "length bm = 2048 \<Longrightarrow> i < 16384 \<Longrightarrow> bitmap_test bm (of_nat i) = Some (used_at bm i)"
  using bitmap_test_used [of "of_nat i" bm] by simp

lemma set_page:
  assumes "length bm = 2048" "i < 16384"
  obtains bm' where "bitmap_set bm (of_nat i) = Some bm'" "length bm' = 2048"
    "free_set bm' = free_set bm - {i}"
proof -
  have "unat (of_nat i :: u64) div 8 < length bm" using assms by simp
  then obtain bm' where bm': "bitmap_set bm (of_nat i) = Some bm'" "length bm' = length bm"
    "\<And>j. j div 8 < length bm \<Longrightarrow> used_at bm' j \<longleftrightarrow> j = unat (of_nat i :: u64) \<or> used_at bm j"
    by (rule bitmap_set_used) blast
  have "free_set bm' = free_set bm - {i}"
    using bm'(3) assms by (auto simp: free_set_def)
  with bm' assms that show ?thesis by simp
qed

lemma clear_page:
  assumes "length bm = 2048" "i < 16384"
  obtains bm' where "bitmap_clear bm (of_nat i) = Some bm'" "length bm' = 2048"
    "free_set bm' = insert i (free_set bm)"
proof -
  have "unat (of_nat i :: u64) div 8 < length bm" using assms by simp
  then obtain bm' where bm': "bitmap_clear bm (of_nat i) = Some bm'" "length bm' = length bm"
    "\<And>j. j div 8 < length bm \<Longrightarrow> used_at bm' j \<longleftrightarrow> j \<noteq> unat (of_nat i :: u64) \<and> used_at bm j"
    by (rule bitmap_clear_used) blast
  have "free_set bm' = insert i (free_set bm)"
    using bm'(3) assms by (auto simp: free_set_def)
  with bm' assms that show ?thesis by simp
qed

lemma bitmap_eq_free_set:
  assumes "length bm = 2048" "length bm' = 2048" "free_set bm = free_set bm'"
  shows "bm = bm'"
proof (rule bitmap_eqI)
  fix i assume "i div 8 < length bm"
  then have "i < 16384" using assms by simp
  then show "used_at bm i = used_at bm' i" using assms(3) by (auto simp: free_set_def)
qed (simp add: assms)

section \<open>Page addresses\<close>

lemma unat_page_addr: "i < 16384 \<Longrightarrow> unat (of_nat i * PAGE_SIZE :: u64) = 4096 * i"
  by (simp add: unat_word_ariths c_const)

lemma page_addr_in_range: "i < 16384 \<Longrightarrow> phys_to_virt (of_nat i * PAGE_SIZE) = PhysMem (of_nat i * PAGE_SIZE)"
  using unat_page_addr [of i] by (simp add: phys_to_virt_def word_le_nat_alt c_const)

lemma memset_pages:
  assumes "i + n \<le> 16384" "0 < n"
  shows "memset_phys m (phys_to_virt (of_nat i * PAGE_SIZE)) 0 (of_nat n * PAGE_SIZE) =
    Some (\<lambda>x. if x \<in> region (of_nat i * PAGE_SIZE) (4096 * n) then 0 else m x)"
proof -
  have "unat (of_nat n * PAGE_SIZE :: u64) = 4096 * n"
    using assms by (simp add: unat_word_ariths c_const)
  moreover have "unat (of_nat i * PAGE_SIZE :: u64) = 4096 * i"
    using assms by (simp add: unat_page_addr)
  moreover have "unat PHYS_MEM_SIZE = 4096 * 16384" by (simp add: c_const)
  ultimately show ?thesis
    using assms page_addr_in_range [of i] by (simp add: memset_phys_def region_def fun_eq_iff)
qed

section \<open>Single-page allocation\<close>

lemma pmm_scan_Min:
  assumes "length bm = 2048" "i + n = 16384"
  shows "pmm_scan bm n (of_nat i) =
    Some (if free_set bm \<inter> {i..} = {} then None else Some (of_nat (Min (free_set bm \<inter> {i..}))))"
  using assms(2)
proof (induction n arbitrary: i)
  case 0
  then have "free_set bm \<inter> {i..} = {}" by (auto dest: free_set_bound)
  then show ?case by simp
next
  case (Suc n)
  have i: "i < 16384" using Suc.prems by simp
  show ?case
  proof (cases "used_at bm i")
    case True
    then have "free_set bm \<inter> {i..} = free_set bm \<inter> {Suc i..}"
      by (auto simp: free_set_def le_eq_less_or_eq Suc_le_eq)
    with True i assms(1) Suc.IH [of "Suc i"] Suc.prems show ?thesis
      by (simp add: test_page add.commute)
  next
    case False
    then have "i \<in> free_set bm \<inter> {i..}" using i by (simp add: free_set_def)
    moreover from this have "Min (free_set bm \<inter> {i..}) = i" by (intro Min_eqI) auto
    ultimately show ?thesis using False i assms(1) by (auto simp: test_page)
  qed
qed

text \<open>Marking one free page used keeps the invariant and moves one page between the counters.\<close>

definition take_one :: "pmm_t \<Rightarrow> u8 list \<Rightarrow> pmm_t" where
  "take_one p bm = p\<lparr>bitmap := bm, free_pages := free_pages p - 1, used_pages := used_pages p + 1\<rparr>"

lemma take_page:
  assumes "pmm_wf p" "i \<in> free_set (bitmap p)"
  obtains bm where "bitmap_set (bitmap p) (of_nat i) = Some bm" "pmm_wf (take_one p bm)"
    "free_set bm = free_set (bitmap p) - {i}"
    "unat (free_pages p - 1) = unat (free_pages p) - 1"
    "unat (used_pages p + 1) = Suc (unat (used_pages p))"
proof -
  have len: "length (bitmap p) = 2048" and i: "i < 16384"
    using assms by (auto simp: pmm_wf_def dest: free_set_bound)
  from len i obtain bm where bm: "bitmap_set (bitmap p) (of_nat i) = Some bm" "length bm = 2048"
    "free_set bm = free_set (bitmap p) - {i}" by (rule set_page)
  have card: "card (free_set (bitmap p)) = Suc (card (free_set bm))"
    using card.remove [OF finite_free_set assms(2)] bm(3) by simp
  then have "unat (free_pages p) \<noteq> 0" using assms(1) by (simp add: pmm_wf_def)
  then have f: "unat (free_pages p - 1) = unat (free_pages p) - 1"
    by (intro unat_minus_one) auto
  have "unat (total_pages p) = unat (free_pages p) + unat (used_pages p)"
    using assms(1) by (simp add: pmm_wf_def)
  then have "unat (used_pages p) + 1 < 2 ^ 64"
    using \<open>unat (free_pages p) \<noteq> 0\<close> unat_less_64 [of "total_pages p"] by linarith
  then have u: "unat (used_pages p + 1) = Suc (unat (used_pages p))"
    using unat_add_no_wrap [of "used_pages p" 1] by simp
  have "pmm_wf (take_one p bm)"
    using assms(1) bm(2) card f u by (simp add: pmm_wf_def take_one_def)
  with bm f u that show ?thesis by blast
qed

lemma pmm_alloc_none:
  assumes "pmm_wf (pmm ph)" "free_set (bitmap (pmm ph)) = {}"
  shows "pmm_alloc ph = Some (- 1, ph)"
  using assms by (simp add: pmm_alloc_def pmm_wf_def unat_eq_0)

lemma pmm_alloc_some:
  assumes "pmm_wf (pmm ph)" "free_set (bitmap (pmm ph)) \<noteq> {}"
  obtains ph' where "pmm_alloc ph = Some (of_nat (Min (free_set (bitmap (pmm ph)))) * PAGE_SIZE, ph')"
    "pmm_wf (pmm ph')"
    "free_set (bitmap (pmm ph')) = free_set (bitmap (pmm ph)) - {Min (free_set (bitmap (pmm ph)))}"
    "total_pages (pmm ph') = total_pages (pmm ph)"
    "free_pages (pmm ph') = free_pages (pmm ph) - 1"
    "used_pages (pmm ph') = used_pages (pmm ph) + 1"
    "phys_mem ph' = (\<lambda>x. if x \<in> region (of_nat (Min (free_set (bitmap (pmm ph)))) * PAGE_SIZE) 4096
                         then 0 else phys_mem ph x)"
proof -
  let ?p = "pmm ph" let ?F = "free_set (bitmap ?p)" let ?i = "Min ?F"
  have i: "?i \<in> ?F" using assms(2) by simp
  from assms(1) i obtain bm where bm: "bitmap_set (bitmap ?p) (of_nat ?i) = Some bm"
    "pmm_wf (take_one ?p bm)" "free_set bm = ?F - {?i}" by (rule take_page)
  have nz: "free_pages ?p \<noteq> 0" using assms by (auto simp: pmm_wf_def)
  have "?F \<inter> {0..} = ?F" by auto
  then have scan: "pmm_scan (bitmap ?p) (unat PMM_MAX_PAGES) 0 = Some (Some (of_nat ?i))"
    using pmm_scan_Min [of "bitmap ?p" 0 16384] assms by (simp add: pmm_wf_def c_const)
  have "phys_to_virt (of_nat ?i * PAGE_SIZE) = PhysMem (of_nat ?i * PAGE_SIZE)"
    using i by (intro page_addr_in_range free_set_bound)
  have set0: "memset_phys (phys_mem ph) (phys_to_virt (of_nat ?i * PAGE_SIZE)) 0 PAGE_SIZE =
      Some (\<lambda>x. if x \<in> region (of_nat ?i * PAGE_SIZE) 4096 then 0 else phys_mem ph x)"
    using memset_pages [of ?i 1] free_set_bound [OF i] by simp
  show ?thesis
  proof (rule that)
    show "pmm_alloc ph = Some (of_nat ?i * PAGE_SIZE, ph\<lparr>pmm := take_one ?p bm,
        phys_mem := (\<lambda>x. if x \<in> region (of_nat ?i * PAGE_SIZE) 4096 then 0 else phys_mem ph x)\<rparr>)"
      using nz scan bm(1) set0 by (simp add: pmm_alloc_def Let_def take_one_def)
  qed (use bm in \<open>simp_all add: take_one_def\<close>)
qed

section \<open>Contiguous allocation\<close>

text \<open>\<open>n\<close> pages from \<open>s\<close> on are all free.\<close>

definition free_run :: "u8 list \<Rightarrow> nat \<Rightarrow> nat \<Rightarrow> bool" where
  "free_run bm n s \<longleftrightarrow> {s..<s + n} \<subseteq> free_set bm"

text \<open>
  The scan keeps the length \<open>r\<close> of the run of free pages that ends just before page \<open>i\<close>; no
  earlier start works. It finds the least start, or none exactly when there is none.
\<close>

lemma pmm_run_scan_least:
  assumes len: "length bm = 2048" and n: "0 < n" "n \<le> 16384"
  shows "i + k = 16384 \<Longrightarrow> r < n \<Longrightarrow> r \<le> i \<Longrightarrow> {i - r..<i} \<subseteq> free_set bm \<Longrightarrow>
    (\<And>s. s < i - r \<Longrightarrow> \<not> free_run bm n s) \<Longrightarrow> (0 < r \<Longrightarrow> start = of_nat (i - r)) \<Longrightarrow>
    pmm_run_scan bm (of_nat n) k (of_nat i) (of_nat r) start =
      Some (if \<exists>s. free_run bm n s then Some (of_nat (LEAST s. free_run bm n s)) else None)"
proof (induction k arbitrary: i r start)
  case 0
  have "\<not> free_run bm n s" for s
  proof
    assume "free_run bm n s"
    then have "s + n - 1 \<in> free_set bm" using n by (auto simp: free_run_def)
    then have "s + n - 1 < 16384" by (rule free_set_bound)
    then have "s < i - r" using "0.prems"(1,2) by linarith
    with "0.prems"(5) \<open>free_run bm n s\<close> show False by blast
  qed
  then show ?case by simp
next
  case (Suc k)
  have i: "i < 16384" using Suc.prems(1) by simp
  have next_i: "(of_nat i + 1 :: u64) = of_nat (Suc i)" and next_r: "(of_nat r + 1 :: u64) = of_nat (Suc r)"
    by simp_all
  show ?case
  proof (cases "used_at bm i")
    case True
    have "pmm_run_scan bm (of_nat n) k (of_nat (Suc i)) (of_nat 0) start =
      Some (if \<exists>s. free_run bm n s then Some (of_nat (LEAST s. free_run bm n s)) else None)"
    proof (rule Suc.IH)
      fix s assume "s < Suc i - 0"
      show "\<not> free_run bm n s"
      proof (cases "s < i - r")
        case False
        then have "i \<in> {s..<s + n}" using \<open>s < Suc i - 0\<close> Suc.prems(2,3) by auto
        then show ?thesis using True by (auto simp: free_run_def free_set_def)
      qed (rule Suc.prems(5))
    qed (use Suc.prems n in auto)
    then show ?thesis using True i len by (simp add: test_page add.commute)
  next
    case False
    let ?st = "if of_nat r = (0::u64) then of_nat i else start"
    have "(of_nat r :: u64) = 0 \<longleftrightarrow> r = 0"
      using Suc.prems(2) n by (simp add: word_unat_eq_iff)
    then have st: "?st = of_nat (i - r)" using Suc.prems(6) by simp
    have run: "{i - r..<Suc i} \<subseteq> free_set bm"
      using Suc.prems(3,4) False i by (auto simp: free_set_def less_Suc_eq)
    have eq: "(of_nat (Suc r) = (of_nat n :: u64)) \<longleftrightarrow> Suc r = n"
      using Suc.prems(2) n by (simp add: word_unat_eq_iff del: of_nat_Suc)
    show ?thesis
    proof (cases "Suc r = n")
      case True
      then have here: "free_run bm n (i - r)"
        using run Suc.prems(3) by (auto simp: free_run_def)
      have "(LEAST s. free_run bm n s) = i - r"
        using here Suc.prems(5) by (intro Least_equality) (auto simp: not_less [symmetric])
      with here True False i len st eq show ?thesis
        by (auto simp: test_page Let_def next_r simp del: of_nat_Suc)
    next
      case False
      have "pmm_run_scan bm (of_nat n) k (of_nat (Suc i)) (of_nat (Suc r)) ?st =
        Some (if \<exists>s. free_run bm n s then Some (of_nat (LEAST s. free_run bm n s)) else None)"
        using Suc.prems run False st by (intro Suc.IH) auto
      with \<open>\<not> used_at bm i\<close> False i len eq show ?thesis
        by (simp add: test_page Let_def next_i next_r del: of_nat_Suc)
    qed
  qed
qed

lemma free_run_bound: "free_run bm n s \<Longrightarrow> 0 < n \<Longrightarrow> s + n \<le> 16384"
proof -
  assume "free_run bm n s" "0 < n"
  then have "s + n - 1 \<in> free_set bm" by (auto simp: free_run_def)
  then show ?thesis using free_set_bound [of "s + n - 1" bm] \<open>0 < n\<close> by linarith
qed

lemma free_run_card: "free_run bm n s \<Longrightarrow> n \<le> card (free_set bm)"
  using card_mono [OF finite_free_set, of "{s..<s + n}" bm] by (simp add: free_run_def)

lemma pmm_take_pages_run:
  "pmm_wf p \<Longrightarrow> free_run (bitmap p) k j \<Longrightarrow> j + k \<le> 16384 \<Longrightarrow>
     \<exists>p'. pmm_take_pages k (of_nat j) p = Some p' \<and> pmm_wf p' \<and>
          free_set (bitmap p') = free_set (bitmap p) - {j..<j + k} \<and>
          total_pages p' = total_pages p \<and> unat (free_pages p') + k = unat (free_pages p) \<and>
          unat (used_pages p') = unat (used_pages p) + k"
proof (induction k arbitrary: j p)
  case 0
  then show ?case by simp
next
  case (Suc k)
  have j: "j \<in> free_set (bitmap p)" using Suc.prems(2) by (auto simp: free_run_def)
  with Suc.prems(1) obtain bm where bm: "bitmap_set (bitmap p) (of_nat j) = Some bm"
    "pmm_wf (take_one p bm)" "free_set bm = free_set (bitmap p) - {j}"
    "unat (free_pages p - 1) = unat (free_pages p) - 1"
    "unat (used_pages p + 1) = Suc (unat (used_pages p))" by (rule take_page)
  have pos: "0 < unat (free_pages p)"
    using Suc.prems(1) j card_gt_0_iff [of "free_set (bitmap p)"] by (auto simp: pmm_wf_def)
  have "free_run (bitmap (take_one p bm)) k (Suc j)"
    using Suc.prems(2) bm(3) by (auto simp: free_run_def take_one_def)
  then obtain p' where p': "pmm_take_pages k (of_nat (Suc j)) (take_one p bm) = Some p'" "pmm_wf p'"
    "free_set (bitmap p') = free_set bm - {Suc j..<Suc j + k}"
    "total_pages p' = total_pages p" "unat (free_pages p') + k = unat (free_pages p) - 1"
    "unat (used_pages p') = Suc (unat (used_pages p)) + k"
    using Suc.IH [OF bm(2), of "Suc j"] Suc.prems(3) bm(4,5) by (auto simp: take_one_def)
  have "{j..<j + Suc k} = insert j {Suc j..<Suc j + k}" by auto
  then show ?case
    using p' bm(1,3) pos by (auto simp: take_one_def add.commute)
qed

lemma pmm_alloc_n_none:
  assumes "pmm_wf (pmm ph)" "n = 0 \<or> (\<nexists>s. free_run (bitmap (pmm ph)) (unat n) s)"
  shows "pmm_alloc_n ph n = Some (- 1, ph)"
proof (cases "n = 0 \<or> free_pages (pmm ph) < n")
  case True
  then show ?thesis by (simp add: pmm_alloc_n_def)
next
  case False
  have "unat n \<le> 16384"
    using False assms(1) card_free_set [of "bitmap (pmm ph)"] by (simp add: pmm_wf_def word_less_nat_alt)
  moreover have "0 < unat n" using False by (simp add: unat_gt_0)
  ultimately have "pmm_run_scan (bitmap (pmm ph)) (of_nat (unat n)) 16384 (of_nat 0) (of_nat 0) 0 = Some None"
    using False assms pmm_run_scan_least [of "bitmap (pmm ph)" "unat n" 0 16384 0 0]
    by (simp add: pmm_wf_def)
  then show ?thesis using False by (simp add: pmm_alloc_n_def c_const)
qed

lemma pmm_alloc_n_some:
  assumes "pmm_wf (pmm ph)" "n \<noteq> 0" "free_run (bitmap (pmm ph)) (unat n) s0"
  defines "s \<equiv> LEAST s. free_run (bitmap (pmm ph)) (unat n) s"
  shows "\<exists>ph'. pmm_alloc_n ph n = Some (of_nat s * PAGE_SIZE, ph') \<and> pmm_wf (pmm ph') \<and>
    free_set (bitmap (pmm ph')) = free_set (bitmap (pmm ph)) - {s..<s + unat n} \<and>
    total_pages (pmm ph') = total_pages (pmm ph) \<and>
    phys_mem ph' = (\<lambda>x. if x \<in> region (of_nat s * PAGE_SIZE) (4096 * unat n) then 0 else phys_mem ph x)"
proof -
  let ?p = "pmm ph" and ?n = "unat n"
  have n: "0 < ?n" using assms(2) by (simp add: unat_gt_0)
  have s: "free_run (bitmap ?p) ?n s" unfolding s_def using assms(3) by (rule LeastI)
  have bound: "s + ?n \<le> 16384" using s n by (rule free_run_bound)
  have guard: "\<not> free_pages ?p < n"
    using free_run_card [OF s] assms(1) by (simp add: pmm_wf_def word_less_nat_alt)
  have "pmm_run_scan (bitmap ?p) (of_nat ?n) 16384 (of_nat 0) (of_nat 0) 0 =
      Some (if \<exists>s. free_run (bitmap ?p) ?n s then Some (of_nat (LEAST s. free_run (bitmap ?p) ?n s)) else None)"
    using assms(1) n bound by (intro pmm_run_scan_least) (auto simp: pmm_wf_def)
  then have scan: "pmm_run_scan (bitmap ?p) n 16384 0 0 0 = Some (Some (of_nat s))"
    using s by (auto simp: s_def)
  have rounds: "unat (of_nat s + n) - unat (of_nat s :: u64) = ?n"
    using bound unat_add_no_wrap [of "of_nat s :: u64" n] by simp
  obtain p' where p': "pmm_take_pages ?n (of_nat s) ?p = Some p'" "pmm_wf p'"
    "free_set (bitmap p') = free_set (bitmap ?p) - {s..<s + ?n}" "total_pages p' = total_pages ?p"
    using pmm_take_pages_run [OF assms(1) s bound] by blast
  have "memset_phys (phys_mem ph) (phys_to_virt (of_nat s * PAGE_SIZE)) 0 (n * PAGE_SIZE) =
      Some (\<lambda>x. if x \<in> region (of_nat s * PAGE_SIZE) (4096 * ?n) then 0 else phys_mem ph x)"
    using memset_pages [OF bound n, of "phys_mem ph"] by simp
  with scan rounds p' guard assms(2) show ?thesis
    by (simp add: pmm_alloc_n_def Let_def c_const(3))
qed

section \<open>Freeing\<close>

lemma page_of_addr: "i < 16384 \<Longrightarrow> (of_nat i * PAGE_SIZE :: u64) div PAGE_SIZE = of_nat i"
  and addr_aligned: "i < 16384 \<Longrightarrow> (of_nat i * PAGE_SIZE :: u64) mod PAGE_SIZE = 0"
  using unat_page_addr [of i] by (simp_all add: word_unat_eq_iff unat_div unat_mod c_const)

lemma page_addr_less: "i < 16384 \<Longrightarrow> \<not> PHYS_MEM_SIZE \<le> of_nat i * PAGE_SIZE"
  using unat_page_addr [of i] by (simp add: word_le_nat_alt c_const)

lemma aligned_addr_cases:
  assumes "addr mod PAGE_SIZE = 0" "\<not> addr \<ge> PHYS_MEM_SIZE"
  shows "\<exists>i<16384. addr = of_nat i * PAGE_SIZE"
proof (intro exI conjI)
  show "unat addr div 4096 < 16384" using assms(2) by (simp add: word_le_nat_alt c_const)
  then show "addr = of_nat (unat addr div 4096) * PAGE_SIZE"
    using assms(1) unat_page_addr [of "unat addr div 4096"]
    by (auto simp: word_unat_eq_iff unat_mod c_const)
qed

text \<open>The calls that change nothing: misaligned, outside memory, or a page that is free already.\<close>

lemma pmm_free_ignored:
  assumes "pmm_wf p"
    and "addr mod PAGE_SIZE \<noteq> 0 \<or> addr \<ge> PHYS_MEM_SIZE \<or> unat addr div 4096 \<in> free_set (bitmap p)"
  shows "pmm_free p addr = Some p"
proof (cases "addr mod PAGE_SIZE = 0 \<and> \<not> addr \<ge> PHYS_MEM_SIZE")
  case True
  then obtain i where i: "i < 16384" "addr = of_nat i * PAGE_SIZE"
    using aligned_addr_cases [of addr] by auto
  then have "i \<in> free_set (bitmap p)" using True assms(2) by (simp add: unat_page_addr)
  then show ?thesis
    using i assms(1)
    by (simp add: pmm_free_def Let_def page_of_addr addr_aligned page_addr_less test_page pmm_wf_def free_set_def)
qed (auto simp: pmm_free_def)

lemma pmm_free_page:
  assumes "pmm_wf p" "i < 16384" "i \<notin> free_set (bitmap p)"
  obtains bm where "pmm_free p (of_nat i * PAGE_SIZE) =
      Some (p\<lparr>bitmap := bm, free_pages := free_pages p + 1, used_pages := used_pages p - 1\<rparr>)"
    "length bm = 2048" "free_set bm = insert i (free_set (bitmap p))"
    "unat (free_pages p + 1) = Suc (unat (free_pages p))" "card (free_set bm) = Suc (unat (free_pages p))"
proof -
  have len: "length (bitmap p) = 2048" using assms(1) by (simp add: pmm_wf_def)
  from len assms(2) obtain bm where bm: "bitmap_clear (bitmap p) (of_nat i) = Some bm" "length bm = 2048"
    "free_set bm = insert i (free_set (bitmap p))" by (rule clear_page)
  have card: "card (free_set bm) = Suc (unat (free_pages p))"
    using assms(1,3) bm(3) by (simp add: pmm_wf_def)
  then have "unat (free_pages p + 1) = Suc (unat (free_pages p))"
    using card_free_set [of bm] unat_add_no_wrap [of "free_pages p" 1] by simp
  moreover have "used_at (bitmap p) i" using assms(2,3) by (simp add: free_set_def)
  ultimately show ?thesis
    using that [OF _ bm(2,3)] card bm(1) len assms(2)
    by (simp add: pmm_free_def Let_def page_of_addr addr_aligned page_addr_less test_page)
qed

lemma pmm_free_wf:
  assumes "pmm_wf p" "used_pages p \<noteq> 0"
  obtains p' where "pmm_free p addr = Some p'" "pmm_wf p'"
proof (cases "addr mod PAGE_SIZE \<noteq> 0 \<or> addr \<ge> PHYS_MEM_SIZE \<or> unat addr div 4096 \<in> free_set (bitmap p)")
  case True
  then show ?thesis using pmm_free_ignored [OF assms(1)] assms(1) that by blast
next
  case False
  then obtain i where i: "i < 16384" "addr = of_nat i * PAGE_SIZE"
    using aligned_addr_cases [of addr] by auto
  with False have "i \<notin> free_set (bitmap p)" by (simp add: unat_page_addr)
  with assms(1) i(1) obtain bm where bm: "pmm_free p (of_nat i * PAGE_SIZE) =
      Some (p\<lparr>bitmap := bm, free_pages := free_pages p + 1, used_pages := used_pages p - 1\<rparr>)"
    "length bm = 2048" "unat (free_pages p + 1) = Suc (unat (free_pages p))"
    "card (free_set bm) = Suc (unat (free_pages p))" by (rule pmm_free_page)
  have "unat (used_pages p - 1) = unat (used_pages p) - 1" "0 < unat (used_pages p)"
    using assms(2) by (simp_all add: unat_minus_one unat_gt_0)
  then show ?thesis using that bm i(2) assms(1) by (auto simp: pmm_wf_def)
qed

end
