(* ===== verification/Pmm_Init.thy ===== *)
theory Pmm_Init
  imports Pmm
begin

text \<open>
  What \<open>pmm_init\<close> builds from a memory map: on maps whose free regions below 64 MB contain at least
  the page boundary they are rounded to, the free pages are exactly the whole pages inside free
  regions below 64 MB; the counters are exact when no two regions overlap.
\<close>

section \<open>Freeing a run of pages\<close>

lemma pmm_init_pages_run:
  "length (bitmap p) = 2048 \<Longrightarrow> j + k \<le> 16384 \<Longrightarrow>
     \<exists>bm. pmm_init_pages k (of_nat j) p =
            Some (p\<lparr>bitmap := bm, free_pages := free_pages p + of_nat k,
                    total_pages := total_pages p + of_nat k\<rparr>) \<and>
          length bm = 2048 \<and> free_set bm = free_set (bitmap p) \<union> {j..<j + k}"
proof (induction k arbitrary: j p)
  case 0
  then show ?case by (intro exI [of _ "bitmap p"]) simp
next
  case (Suc k)
  have "j < 16384" using Suc.prems by simp
  with Suc.prems(1) obtain bm where bm: "bitmap_clear (bitmap p) (of_nat j) = Some bm"
    "length bm = 2048" "free_set bm = insert j (free_set (bitmap p))" by (rule clear_page)
  let ?p = "p\<lparr>bitmap := bm, free_pages := free_pages p + 1, total_pages := total_pages p + 1\<rparr>"
  obtain bm' where bm': "pmm_init_pages k (of_nat (Suc j)) ?p =
      Some (?p\<lparr>bitmap := bm', free_pages := free_pages ?p + of_nat k,
              total_pages := total_pages ?p + of_nat k\<rparr>)"
    "length bm' = 2048" "free_set bm' = free_set bm \<union> {Suc j..<Suc j + k}"
    using Suc.IH [of ?p "Suc j"] Suc.prems(2) bm(2) by auto
  have "{j..<j + Suc k} = insert j {Suc j..<Suc j + k}" by auto
  then show ?case
    using bm bm' by (intro exI [of _ bm']) (simp add: algebra_simps)
qed

text \<open>A run that leaves the bitmap is a fault.\<close>

lemma pmm_init_pages_overrun:
  "length (bitmap p) = 2048 \<Longrightarrow> j \<le> 16384 \<Longrightarrow> 16384 < j + k \<Longrightarrow> pmm_init_pages k (of_nat j) p = None"
proof (induction k arbitrary: j p)
  case 0
  then show ?case by simp
next
  case (Suc k)
  show ?case
  proof (cases "j = 16384")
    case True
    then show ?thesis using Suc.prems(1) bitmap_clear_outside [of "bitmap p" "of_nat j"] by simp
  next
    case False
    then have "j < 16384" using Suc.prems by simp
    with Suc.prems(1) obtain bm where "bitmap_clear (bitmap p) (of_nat j) = Some bm"
      "length bm = 2048" by (rule clear_page)
    then show ?thesis
      using Suc.IH [of "p\<lparr>bitmap := bm, free_pages := free_pages p + 1, total_pages := total_pages p + 1\<rparr>"
          "Suc j"] Suc.prems \<open>j < 16384\<close> by (simp add: add.commute)
  qed
qed

section \<open>One entry of the map\<close>

definition entry_pages :: "mmap_entry_t \<Rightarrow> nat set" where
  "entry_pages e =
     (if entry_type e = MMAP_FREE
      then {i. i < 16384 \<and> unat (entry_base e) \<le> 4096 * i \<and>
               4096 * i + 4096 \<le> unat (entry_base e) + unat (entry_length e)}
      else {})"

text \<open>
  The entries the initialisation is safe on: the end of a free region can be computed without
  wrap-around, and rounding the base up to a page does not pass the end rounded down, unless the
  rounded base is at or above 64 MB, where the region is skipped.
\<close>

definition entry_ok :: "mmap_entry_t \<Rightarrow> bool" where
  "entry_ok e \<longleftrightarrow>
     entry_type e = MMAP_FREE \<longrightarrow>
       unat (entry_base e) + unat (entry_length e) + 4095 < 2 ^ 64 \<and>
       ((unat (entry_base e) + 4095) div 4096 \<le> (unat (entry_base e) + unat (entry_length e)) div 4096 \<or>
        16384 \<le> (unat (entry_base e) + 4095) div 4096)"

lemma entry_pages_range:
  assumes "entry_type e = MMAP_FREE"
  shows "entry_pages e = {(unat (entry_base e) + 4095) div 4096 ..<
      min 16384 ((unat (entry_base e) + unat (entry_length e)) div 4096)}"
  using assms by (auto simp: entry_pages_def)

lemma finite_entry_pages [simp, intro]: "finite (entry_pages e)"
  by (rule finite_subset [of _ "{..<16384}"]) (auto simp: entry_pages_def)

lemma pmm_init_entry_pages:
  assumes "length (bitmap p) = 2048" "entry_ok e"
  shows "\<exists>bm. pmm_init_entry e p =
      Some (p\<lparr>bitmap := bm, free_pages := free_pages p + of_nat (card (entry_pages e)),
              total_pages := total_pages p + of_nat (card (entry_pages e))\<rparr>) \<and>
    length bm = 2048 \<and> free_set bm = free_set (bitmap p) \<union> entry_pages e"
proof (cases "entry_type e = MMAP_FREE")
  case False
  then show ?thesis
    using assms(1) by (intro exI [of _ "bitmap p"]) (simp add: pmm_init_entry_def entry_pages_def)
next
  case True
  let ?B = "unat (entry_base e)" and ?L = "unat (entry_length e)"
  let ?b = "(?B + 4095) div 4096" and ?t = "(?B + ?L) div 4096"
  let ?bs = "ALIGN_UP (entry_base e) PAGE_SIZE"
  let ?top = "ALIGN_DOWN (entry_base e + entry_length e) PAGE_SIZE"
  have ok: "?B + ?L + 4095 < 2 ^ 64" "?b \<le> ?t \<or> 16384 \<le> ?b" using assms(2) True by (auto simp: entry_ok_def)
  have bs: "unat ?bs = 4096 * ?b" using ok by (intro unat_ALIGN_UP) simp
  have top: "unat ?top = 4096 * ?t"
    using ok unat_add_no_wrap [of "entry_base e" "entry_length e"] by (simp add: unat_ALIGN_DOWN)
  show ?thesis
  proof (cases "?bs \<ge> PHYS_MEM_SIZE")
    case far: True
    then have "16384 \<le> ?b" using bs by (simp add: word_le_nat_alt c_const)
    then have "entry_pages e = {}" using True by (auto simp: entry_pages_range)
    then show ?thesis
      using assms(1) True far by (intro exI [of _ "bitmap p"]) (simp add: pmm_init_entry_def Let_def)
  next
    case near: False
    then have b: "?b < 16384" using bs by (simp add: word_le_nat_alt c_const)
    let ?top' = "if ?top > PHYS_MEM_SIZE then PHYS_MEM_SIZE else ?top"
    have top': "unat ?top' = 4096 * min 16384 ?t"
      using top by (auto simp: word_less_nat_alt c_const)
    have pages: "unat ((?top' - ?bs) div PAGE_SIZE) = min 16384 ?t - ?b"
      using bs top' b ok(2) unat_sub [of ?bs ?top']
      by (auto simp: word_le_nat_alt unat_div c_const simp flip: diff_mult_distrib2)
    have first: "?bs div PAGE_SIZE = of_nat ?b"
      using bs b by (simp add: word_unat_eq_iff unat_div c_const)
    have "entry_pages e = {?b..<?b + (min 16384 ?t - ?b)}" "card (entry_pages e) = min 16384 ?t - ?b"
      using True b ok(2) by (simp_all add: entry_pages_range)
    then show ?thesis
      using pmm_init_pages_run [of p ?b "min 16384 ?t - ?b"] assms(1) b ok(2) True near pages first
      by (simp add: pmm_init_entry_def Let_def)
  qed
qed

section \<open>The whole map\<close>

definition map_pages :: "mmap_entry_t list \<Rightarrow> nat set" where
  "map_pages es = (\<Union>e \<in> set es. entry_pages e)"

definition map_page_count :: "mmap_entry_t list \<Rightarrow> nat" where
  "map_page_count es = sum_list (map (\<lambda>e. card (entry_pages e)) es)"

lemma pmm_init_entries_pages:
  assumes "length (bitmap p) = 2048" "i + n \<le> length (entries mmap)"
    "\<And>e. e \<in> set (take n (drop i (entries mmap))) \<Longrightarrow> entry_ok e"
  shows "\<exists>bm. pmm_init_entries n i mmap p =
      Some (p\<lparr>bitmap := bm,
              free_pages := free_pages p + of_nat (map_page_count (take n (drop i (entries mmap)))),
              total_pages := total_pages p + of_nat (map_page_count (take n (drop i (entries mmap))))\<rparr>) \<and>
    length bm = 2048 \<and> free_set bm = free_set (bitmap p) \<union> map_pages (take n (drop i (entries mmap)))"
  using assms
proof (induction n arbitrary: i p)
  case 0
  then show ?case by (intro exI [of _ "bitmap p"]) (simp add: map_pages_def map_page_count_def)
next
  case (Suc n)
  let ?e = "entries mmap ! i"
  have es: "take (Suc n) (drop i (entries mmap)) = ?e # take n (drop (Suc i) (entries mmap))"
    using Suc.prems(2) by (simp add: take_Suc hd_drop_conv_nth drop_Suc tl_drop)
  obtain bm where bm: "pmm_init_entry ?e p =
      Some (p\<lparr>bitmap := bm, free_pages := free_pages p + of_nat (card (entry_pages ?e)),
              total_pages := total_pages p + of_nat (card (entry_pages ?e))\<rparr>)"
    "length bm = 2048" "free_set bm = free_set (bitmap p) \<union> entry_pages ?e"
    using pmm_init_entry_pages [of p ?e] Suc.prems(1,3) es by auto
  let ?p = "p\<lparr>bitmap := bm, free_pages := free_pages p + of_nat (card (entry_pages ?e)),
              total_pages := total_pages p + of_nat (card (entry_pages ?e))\<rparr>"
  obtain bm' where bm': "pmm_init_entries n (Suc i) mmap ?p =
      Some (?p\<lparr>bitmap := bm',
          free_pages := free_pages ?p + of_nat (map_page_count (take n (drop (Suc i) (entries mmap)))),
          total_pages := total_pages ?p + of_nat (map_page_count (take n (drop (Suc i) (entries mmap))))\<rparr>)"
    "length bm' = 2048"
    "free_set bm' = free_set bm \<union> map_pages (take n (drop (Suc i) (entries mmap)))"
    using Suc.IH [of ?p "Suc i"] Suc.prems(2,3) bm(2) es by auto
  show ?case
    using bm bm' es Suc.prems(2)
    by (intro exI [of _ bm']) (simp add: map_pages_def map_page_count_def Un_assoc add.assoc)
qed

lemma page_in_region: "i \<in> entry_pages e \<Longrightarrow> in_region e (4096 * i)"
  by (auto simp: entry_pages_def in_region_def split: if_splits)

lemma map_page_count_card: "no_overlap es \<Longrightarrow> map_page_count es = card (map_pages es)"
proof (induction es)
  case (Cons e es)
  have "entry_pages e \<inter> map_pages es = {}"
    using Cons.prems page_in_region by (fastforce simp: no_overlap_def map_pages_def)
  then have "card (map_pages (e # es)) = card (entry_pages e) + card (map_pages es)"
    by (simp add: map_pages_def card_Un_disjoint)
  then show ?case using Cons by (simp add: map_page_count_def no_overlap_def)
qed (simp add: map_page_count_def map_pages_def)

lemma map_pages_bound: "map_pages es \<subseteq> {..<16384}"
  by (auto simp: map_pages_def entry_pages_def split: if_splits)

lemma fresh_bitmap_full: "free_set (replicate 2048 0xFF) = {}"
proof -
  have "used_at (replicate 2048 0xFF) i" if "i < 16384" for i
  proof -
    have "(0xFF::u8) = mask 8" by (simp add: mask_eq_exp_minus_1)
    then have "bit (0xFF::u8) (i mod 8)" by (simp only: bit_mask_iff) simp
    then show ?thesis using that by (simp add: used_at_def)
  qed
  then show ?thesis by (auto simp: free_set_def)
qed

lemma map_page_count_bound: "map_page_count es \<le> length es * 16384"
proof (induction es)
  case (Cons e es)
  have "card (entry_pages e) \<le> card {..<16384::nat}" by (rule card_mono) (auto simp: entry_pages_def)
  then show ?case using Cons by (simp add: map_page_count_def)
qed (simp add: map_page_count_def)

text \<open>Without a condition on overlaps the counters are the sum over the regions.\<close>

lemma pmm_init_run:
  assumes "mmap_wf mmap" "\<And>e. e \<in> set (regions mmap) \<Longrightarrow> entry_ok e"
  shows "\<exists>p. pmm_init mmap = Some p \<and> length (bitmap p) = 2048 \<and> used_pages p = 0 \<and> total_pages p = free_pages p \<and>
    unat (free_pages p) = map_page_count (regions mmap) \<and> free_set (bitmap p) = map_pages (regions mmap)"
proof -
  let ?p0 = "\<lparr>bitmap = replicate 2048 0xFF, total_pages = 0, free_pages = 0, used_pages = 0\<rparr>"
  let ?n = "map_page_count (regions mmap)"
  have cnt: "unat (count mmap) \<le> length (entries mmap)" "length (entries mmap) = 64"
    using assms(1) by (simp_all add: mmap_wf_def MMAP_MAX_ENTRIES_def)
  obtain bm where bm: "pmm_init_entries (unat (count mmap)) 0 mmap ?p0 =
      Some (?p0\<lparr>bitmap := bm, free_pages := of_nat ?n, total_pages := of_nat ?n\<rparr>)"
    "length bm = 2048" "free_set bm = map_pages (regions mmap)"
    using pmm_init_entries_pages [of ?p0 0 "unat (count mmap)" mmap] cnt(1) assms(2) fresh_bitmap_full
    by (auto simp: regions_def)
  have "length (regions mmap) \<le> 64" using cnt by (simp add: regions_def)
  then have "?n \<le> 64 * 16384" using map_page_count_bound [of "regions mmap"] by simp
  then have "unat (of_nat ?n :: u64) = ?n" by (simp add: unat_of_nat)
  then show ?thesis using bm by (simp add: pmm_init_def c_const)
qed

lemma pmm_init_pages_of_map:
  assumes "mmap_wf mmap" "\<And>e. e \<in> set (regions mmap) \<Longrightarrow> entry_ok e" "no_overlap (regions mmap)"
  shows "\<exists>p. pmm_init mmap = Some p \<and> pmm_wf p \<and> used_pages p = 0 \<and>
             free_set (bitmap p) = map_pages (regions mmap)"
  using pmm_init_run [OF assms(1,2)] map_page_count_card [OF assms(3)] by (auto simp: pmm_wf_def)

lemma parse_entries_ok: "e \<in> set (regions mmap_parse) \<Longrightarrow> entry_ok e"
  by (auto simp: regions_parse entry_ok_def)

lemma parse_no_overlap: "no_overlap (regions mmap_parse)"
  by (rule tiling_no_overlap [of 0 _ "0x4000000"]) (simp add: regions_parse)

lemma parse_map_pages:
  "map_pages (regions mmap_parse) = {0..<160} \<union> {256..<3840} \<union> {4096..<10240} \<union> {10496..<15360}"
  by (simp add: regions_parse map_pages_def entry_pages_range Un_assoc) (simp add: entry_pages_def)

end
