(* ===== verification/Frame_Allocator.thy ===== *)
theory Frame_Allocator
  imports Byte_Memory
begin

text \<open>
  The contract between the physical allocator and its clients, of which the page-table code is
  one: a state that owns a finite set of free frames, an allocation that hands out one of them
  zeroed or reports failure with \<open>- 1\<close>, and a release that gives an unowned frame back. The
  facts that clients need are derived here from the contract.
\<close>

section \<open>Sequences of allocations\<close>

primrec alloc_many :: "('s \<Rightarrow> (u64 \<times> 's) option) \<Rightarrow> nat \<Rightarrow> 's \<Rightarrow> (u64 list \<times> 's) option" where
  "alloc_many alloc 0 s = Some ([], s)"
| "alloc_many alloc (Suc k) s = do {
     (a, s1) \<leftarrow> alloc s;
     (as, s2) \<leftarrow> alloc_many alloc k s1;
     Some (a # as, s2) }"

section \<open>The contract\<close>

locale frame_allocator =
  fixes alloc :: "'s \<Rightarrow> (u64 \<times> 's) option"
    and frames :: "'s \<Rightarrow> u64 set"
    and invar :: "'s \<Rightarrow> bool"
  assumes alloc_none: "invar s \<Longrightarrow> frames s = {} \<Longrightarrow> alloc s = Some (- 1, s)"
    and alloc_some: "invar s \<Longrightarrow> frames s \<noteq> {} \<Longrightarrow>
      \<exists>a s'. alloc s = Some (a, s') \<and> a \<in> frames s \<and> frames s' = frames s - {a} \<and> invar s'"
    and frames_finite: "finite (frames s)"
    and frames_valid: "- 1 \<notin> frames s"
begin

lemma alloc_cases:
  assumes "invar s"
  obtains (none) "frames s = {}" "alloc s = Some (- 1, s)"
    | (some) a s' where "alloc s = Some (a, s')" "a \<in> frames s" "a \<noteq> - 1"
        "frames s' = frames s - {a}" "invar s'"
  using assms alloc_none alloc_some frames_valid by (metis (full_types))

lemma alloc_many_fits:
  "invar s \<Longrightarrow> k \<le> card (frames s) \<Longrightarrow>
     \<exists>as s'. alloc_many alloc k s = Some (as, s') \<and> length as = k \<and> distinct as \<and>
             set as \<subseteq> frames s \<and> frames s' = frames s - set as \<and> invar s'"
proof (induction k arbitrary: s)
  case 0
  then show ?case by simp
next
  case (Suc k)
  then have "frames s \<noteq> {}" by auto
  with Suc.prems(1) obtain a s1 where a: "alloc s = Some (a, s1)" "a \<in> frames s"
    "frames s1 = frames s - {a}" "invar s1" using alloc_some by blast
  have "k \<le> card (frames s1)" using a(2,3) Suc.prems(2) frames_finite by simp
  from Suc.IH [OF a(4) this] obtain as s2 where "alloc_many alloc k s1 = Some (as, s2)"
    "length as = k" "distinct as" "set as \<subseteq> frames s1" "frames s2 = frames s1 - set as" "invar s2"
    by blast
  then show ?case using a by auto
qed

lemma alloc_many_exhausts:
  assumes "invar s"
  shows "\<exists>as s'. alloc_many alloc (card (frames s)) s = Some (as, s') \<and> distinct as \<and>
    set as = frames s \<and> alloc s' = Some (- 1, s')"
proof -
  from alloc_many_fits [OF assms order_refl] obtain as s' where as:
    "alloc_many alloc (card (frames s)) s = Some (as, s')" "length as = card (frames s)" "distinct as"
    "set as \<subseteq> frames s" "frames s' = frames s - set as" "invar s'" by blast
  have "set as = frames s"
    using as(2-4) frames_finite by (intro card_subset_eq) (auto simp: distinct_card)
  then show ?thesis using as alloc_none [of s'] by auto
qed

end

text \<open>An allocator that clears the frames it hands out and touches no other memory.\<close>

locale zeroing_allocator = frame_allocator alloc frames invar
  for alloc :: "'s \<Rightarrow> (u64 \<times> 's) option" and frames invar +
  fixes contents :: "'s \<Rightarrow> u64 \<Rightarrow> u8"
  assumes alloc_zeroed: "invar s \<Longrightarrow> alloc s = Some (a, s') \<Longrightarrow> a \<noteq> - 1 \<Longrightarrow>
      contents s' = (\<lambda>x. if x \<in> region a 4096 then 0 else contents s x)"
begin

lemma alloc_fail_unchanged: "invar s \<Longrightarrow> alloc s = Some (- 1, s') \<Longrightarrow> s' = s"
  using alloc_cases [of s] by (metis option.inject prod.inject)

lemma alloc_frame_contents:
  assumes "invar s" "alloc s = Some (a, s')" "region b n \<inter> region a 4096 = {}"
  shows "(load_le (contents s') b n :: 'b::len word) = load_le (contents s) b n"
proof (cases "a = - 1")
  case True
  with assms(1,2) have "s' = s" by (intro alloc_fail_unchanged) simp_all
  then show ?thesis by simp
next
  case False
  then show ?thesis
    using assms(3) by (intro load_le_cong) (auto simp: alloc_zeroed [OF assms(1,2)])
qed

end

end
