(* ===== verification/Pmm_Properties.thy ===== *)
theory Pmm_Properties
  imports Pmm_Init Frame_Allocator
begin

text \<open>
  The page allocator meets the frame-allocator contract, a client that only frees pages it was
  given can never corrupt it, and the properties of each of its operations.
\<close>

section \<open>The allocator as a frame allocator\<close>

definition page_addr :: "nat \<Rightarrow> u64" where
  "page_addr i = of_nat i * PAGE_SIZE"

definition free_frames :: "phys_t \<Rightarrow> u64 set" where
  "free_frames ph = page_addr ` free_set (bitmap (pmm ph))"

lemma unat_page_addr' [simp]: "i < 16384 \<Longrightarrow> unat (page_addr i) = 4096 * i"
  by (simp add: page_addr_def unat_page_addr)

lemma page_addr_eq [simp]: "i < 16384 \<Longrightarrow> j < 16384 \<Longrightarrow> page_addr i = page_addr j \<longleftrightarrow> i = j"
  using unat_page_addr' [of i] unat_page_addr' [of j] by (metis mult_cancel1 zero_neq_numeral)

lemma page_addr_not_error [simp]: "i < 16384 \<Longrightarrow> page_addr i \<noteq> - 1"
proof
  assume "i < 16384" "page_addr i = - 1"
  then have "4096 * i = unat (- 1 :: u64)" using unat_page_addr' [of i] by simp
  then show False using \<open>i < 16384\<close> by (simp add: unat_neg_one)
qed

lemma pmm_alloc_frames:
  assumes "pmm_wf (pmm ph)" "free_frames ph \<noteq> {}"
  shows "\<exists>ph'. pmm_alloc ph = Some (page_addr (Min (free_set (bitmap (pmm ph)))), ph') \<and>
    page_addr (Min (free_set (bitmap (pmm ph)))) \<in> free_frames ph \<and>
    free_frames ph' = free_frames ph - {page_addr (Min (free_set (bitmap (pmm ph))))} \<and>
    pmm_wf (pmm ph') \<and>
    phys_mem ph' = (\<lambda>x. if x \<in> region (page_addr (Min (free_set (bitmap (pmm ph))))) 4096
                         then 0 else phys_mem ph x)"
proof -
  let ?F = "free_set (bitmap (pmm ph))"
  have ne: "?F \<noteq> {}" using assms(2) by (auto simp: free_frames_def)
  from assms(1) ne obtain ph' where ph': "pmm_alloc ph = Some (of_nat (Min ?F) * PAGE_SIZE, ph')"
    "pmm_wf (pmm ph')" "free_set (bitmap (pmm ph')) = ?F - {Min ?F}"
    "phys_mem ph' = (\<lambda>x. if x \<in> region (of_nat (Min ?F) * PAGE_SIZE) 4096 then 0 else phys_mem ph x)"
    by (rule pmm_alloc_some)
  have min: "Min ?F \<in> ?F" using ne by simp
  have "inj_on page_addr ?F" by (auto simp: inj_on_def dest!: free_set_bound)
  then have "free_frames ph' = free_frames ph - {page_addr (Min ?F)}"
    using ph'(3) min by (simp add: free_frames_def inj_on_image_set_diff)
  then show ?thesis using ph' min by (auto simp: page_addr_def free_frames_def)
qed

interpretation pma: zeroing_allocator pmm_alloc free_frames "\<lambda>ph. pmm_wf (pmm ph)" phys_mem
proof
  fix s :: phys_t
  assume wf: "pmm_wf (pmm s)"
  show "pmm_alloc s = Some (- 1, s)" if "free_frames s = {}"
    using that wf by (intro pmm_alloc_none) (auto simp: free_frames_def)
  show "\<exists>a s'. pmm_alloc s = Some (a, s') \<and> a \<in> free_frames s \<and>
      free_frames s' = free_frames s - {a} \<and> pmm_wf (pmm s')" if "free_frames s \<noteq> {}"
    using pmm_alloc_frames [OF wf that] by blast
  show "phys_mem s' = (\<lambda>x. if x \<in> region a 4096 then 0 else phys_mem s x)"
    if "pmm_alloc s = Some (a, s')" "a \<noteq> - 1" for a s'
  proof (cases "free_frames s = {}")
    case True
    then show ?thesis
      using that wf pmm_alloc_none [of s] by (simp add: free_frames_def)
  next
    case False
    then show ?thesis using pmm_alloc_frames [OF wf False] that by auto
  qed
next
  fix s
  show "finite (free_frames s)" by (simp add: free_frames_def)
  show "- 1 \<notin> free_frames s" by (auto simp: free_frames_def dest!: free_set_bound dest: sym)
qed

section \<open>A client that frees only what it owns\<close>

text \<open>Freeing a used page, as a change of the set of free pages.\<close>

lemma pmm_free_used:
  assumes "pmm_wf p" "i < 16384" "i \<notin> free_set (bitmap p)" "used_pages p \<noteq> 0"
  shows "\<exists>p'. pmm_free p (page_addr i) = Some p' \<and> pmm_wf p' \<and>
    free_set (bitmap p') = insert i (free_set (bitmap p)) \<and> total_pages p' = total_pages p \<and>
    Suc (unat (used_pages p')) = unat (used_pages p)"
proof -
  from assms(1-3) obtain bm where bm: "pmm_free p (of_nat i * PAGE_SIZE) =
      Some (p\<lparr>bitmap := bm, free_pages := free_pages p + 1, used_pages := used_pages p - 1\<rparr>)"
    "length bm = 2048" "free_set bm = insert i (free_set (bitmap p))"
    by (rule pmm_free_page)
  have "Suc (unat (used_pages p - 1)) = unat (used_pages p)"
    using assms(4) by (simp add: unat_minus_one unat_gt_0)
  moreover from assms(1,4) obtain p' where p': "pmm_free p (page_addr i) = Some p'" "pmm_wf p'"
    by (rule pmm_free_wf)
  moreover have "p' = p\<lparr>bitmap := bm, free_pages := free_pages p + 1, used_pages := used_pages p - 1\<rparr>"
    using p'(1) bm(1) by (simp add: page_addr_def)
  ultimately show ?thesis using bm(3) by simp
qed

lemma pmm_free_loop_run:
  "pmm_wf p \<Longrightarrow> i + t + k \<le> 16384 \<Longrightarrow> {i + t..<i + t + k} \<inter> free_set (bitmap p) = {} \<Longrightarrow>
   k \<le> unat (used_pages p) \<Longrightarrow>
     \<exists>p'. pmm_free_loop k (of_nat t) p (page_addr i) = Some p' \<and> pmm_wf p' \<and>
          free_set (bitmap p') = free_set (bitmap p) \<union> {i + t..<i + t + k} \<and>
          total_pages p' = total_pages p"
proof (induction k arbitrary: t p)
  case 0
  then show ?case by simp
next
  case (Suc k)
  have addr: "page_addr i + of_nat t * PAGE_SIZE = page_addr (i + t)"
    by (simp add: page_addr_def algebra_simps)
  have "i + t \<in> {i + t..<i + t + Suc k}" by simp
  then have "i + t \<notin> free_set (bitmap p)" using Suc.prems(3) by blast
  moreover have "i + t < 16384" "used_pages p \<noteq> 0" using Suc.prems(2,4) by auto
  ultimately obtain p1 where p1: "pmm_free p (page_addr (i + t)) = Some p1" "pmm_wf p1"
    "free_set (bitmap p1) = insert (i + t) (free_set (bitmap p))" "total_pages p1 = total_pages p"
    "Suc (unat (used_pages p1)) = unat (used_pages p)"
    using pmm_free_used [OF Suc.prems(1), of "i + t"] by blast
  have "{i + Suc t..<i + Suc t + k} \<subseteq> {i + t..<i + t + Suc k} - {i + t}" by auto
  then have "{i + Suc t..<i + Suc t + k} \<inter> free_set (bitmap p1) = {}"
    using Suc.prems(3) p1(3) by blast
  then obtain p2 where p2: "pmm_free_loop k (of_nat (Suc t)) p1 (page_addr i) = Some p2" "pmm_wf p2"
    "free_set (bitmap p2) = free_set (bitmap p1) \<union> {i + Suc t..<i + Suc t + k}"
    "total_pages p2 = total_pages p1"
    using Suc.IH [of p1 "Suc t"] Suc.prems(2,4) p1(2,5) by auto
  have "{i + t..<i + t + Suc k} = insert (i + t) {i + Suc t..<i + Suc t + k}" by auto
  then show ?case
    using p1 p2 addr by (simp add: add.commute)
qed

text \<open>
  The steps of a client: it allocates, frees a page or a run of pages it owns, writes anything to
  memory, or calls \<open>pmm_free\<close> with an argument the allocator rejects. \<open>own\<close> is the set of page
  numbers the client was given and has not freed.
\<close>

inductive pmm_step :: "phys_t \<times> nat set \<Rightarrow> phys_t \<times> nat set \<Rightarrow> bool" where
  step_alloc: "pmm_alloc ph = Some (a, ph') \<Longrightarrow>
     pmm_step (ph, own) (ph', if a = - 1 then own else insert (unat a div 4096) own)"
| step_alloc_n: "pmm_alloc_n ph n = Some (a, ph') \<Longrightarrow>
     pmm_step (ph, own)
       (ph', if a = - 1 then own else own \<union> {unat a div 4096..<unat a div 4096 + unat n})"
| step_free: "i \<in> own \<Longrightarrow> pmm_free (pmm ph) (page_addr i) = Some p \<Longrightarrow>
     pmm_step (ph, own) (ph\<lparr>pmm := p\<rparr>, own - {i})"
| step_free_n: "{i..<i + unat n} \<subseteq> own \<Longrightarrow> n \<noteq> 0 \<Longrightarrow> pmm_free_n (pmm ph) (page_addr i) n = Some p \<Longrightarrow>
     pmm_step (ph, own) (ph\<lparr>pmm := p\<rparr>, own - {i..<i + unat n})"
| step_write: "pmm_step (ph, own) (ph\<lparr>phys_mem := m\<rparr>, own)"
| step_rejected:
    "addr mod PAGE_SIZE \<noteq> 0 \<or> addr \<ge> PHYS_MEM_SIZE \<or> unat addr div 4096 \<in> free_set (bitmap (pmm ph)) \<Longrightarrow>
     pmm_free (pmm ph) addr = Some p \<Longrightarrow> pmm_step (ph, own) (ph\<lparr>pmm := p\<rparr>, own)"

text \<open>
  Of the managed pages \<open>M\<close>, the free ones and the client's are a partition, and the counters say
  so.
\<close>

definition ownership :: "nat set \<Rightarrow> phys_t \<times> nat set \<Rightarrow> bool" where
  "ownership M s \<longleftrightarrow>
     (case s of (ph, own) \<Rightarrow>
        pmm_wf (pmm ph) \<and> M \<subseteq> {..<16384} \<and> free_set (bitmap (pmm ph)) \<subseteq> M \<and>
        own = M - free_set (bitmap (pmm ph)) \<and> unat (total_pages (pmm ph)) = card M)"

lemma ownership_used:
  assumes "ownership M (ph, own)"
  shows "unat (used_pages (pmm ph)) = card own"
proof -
  have "finite M" using assms finite_subset [of M "{..<16384}"] by (auto simp: ownership_def)
  then have "card own = card M - card (free_set (bitmap (pmm ph)))"
    using assms by (auto simp: ownership_def card_Diff_subset)
  then show ?thesis using assms by (auto simp: ownership_def pmm_wf_def)
qed

lemma ownership_finite: "ownership M (ph, own) \<Longrightarrow> finite own"
  using finite_subset [of M "{..<16384}"] by (auto simp: ownership_def)

lemma ownership_used_nonzero: "ownership M (ph, own) \<Longrightarrow> i \<in> own \<Longrightarrow> used_pages (pmm ph) \<noteq> 0"
  using ownership_used [of M ph own] ownership_finite [of M ph own] by (auto simp: card_gt_0_iff)

lemma ownership_alloc:
  assumes "ownership M (ph, own)" "pmm_alloc ph = Some (a, ph')"
  shows "ownership M (ph', if a = - 1 then own else insert (unat a div 4096) own)"
proof (cases "free_set (bitmap (pmm ph)) = {}")
  case True
  then show ?thesis using assms pmm_alloc_none [of ph] by (auto simp: ownership_def)
next
  case False
  let ?F = "free_set (bitmap (pmm ph))"
  have wf: "pmm_wf (pmm ph)" using assms(1) by (simp add: ownership_def)
  from wf False obtain ph'' where "pmm_alloc ph = Some (of_nat (Min ?F) * PAGE_SIZE, ph'')"
    "pmm_wf (pmm ph'')" "free_set (bitmap (pmm ph'')) = ?F - {Min ?F}"
    "total_pages (pmm ph'') = total_pages (pmm ph)" by (rule pmm_alloc_some)
  moreover have min: "Min ?F \<in> ?F" "Min ?F < 16384" using False Min_in free_set_bound by auto
  ultimately show ?thesis
    using assms page_addr_not_error [of "Min ?F"] unat_page_addr [of "Min ?F"]
    by (auto simp: ownership_def page_addr_def)
qed

lemma ownership_alloc_n:
  assumes "ownership M (ph, own)" "pmm_alloc_n ph n = Some (a, ph')"
  shows "ownership M (ph', if a = - 1 then own else own \<union> {unat a div 4096..<unat a div 4096 + unat n})"
proof (cases "n = 0 \<or> (\<nexists>s. free_run (bitmap (pmm ph)) (unat n) s)")
  case True
  then show ?thesis using assms pmm_alloc_n_none [of ph n] by (auto simp: ownership_def)
next
  case False
  let ?F = "free_set (bitmap (pmm ph))" and ?s = "LEAST s. free_run (bitmap (pmm ph)) (unat n) s"
  have wf: "pmm_wf (pmm ph)" using assms(1) by (simp add: ownership_def)
  from False obtain s0 where "n \<noteq> 0" "free_run (bitmap (pmm ph)) (unat n) s0" by blast
  then have run: "free_run (bitmap (pmm ph)) (unat n) ?s" by (blast intro: LeastI)
  have bound: "?s + unat n \<le> 16384" "0 < unat n"
    using free_run_bound [OF run] \<open>n \<noteq> 0\<close> by (simp_all add: unat_gt_0)
  obtain ph'' where "pmm_alloc_n ph n = Some (of_nat ?s * PAGE_SIZE, ph'')" "pmm_wf (pmm ph'')"
    "free_set (bitmap (pmm ph'')) = ?F - {?s..<?s + unat n}" "total_pages (pmm ph'') = total_pages (pmm ph)"
    using pmm_alloc_n_some [OF wf \<open>n \<noteq> 0\<close> \<open>free_run _ _ s0\<close>] by blast
  then show ?thesis
    using assms run bound page_addr_not_error [of ?s] unat_page_addr [of ?s]
    by (auto simp: ownership_def page_addr_def free_run_def)
qed

lemma ownership_free:
  assumes "ownership M (ph, own)" "i \<in> own" "pmm_free (pmm ph) (page_addr i) = Some p"
  shows "ownership M (ph\<lparr>pmm := p\<rparr>, own - {i})"
proof -
  have i: "i < 16384" "i \<notin> free_set (bitmap (pmm ph))" "i \<in> M" and wf: "pmm_wf (pmm ph)"
    using assms(1,2) by (auto simp: ownership_def)
  have "pmm_wf p" "free_set (bitmap p) = insert i (free_set (bitmap (pmm ph)))"
    "total_pages p = total_pages (pmm ph)"
    using pmm_free_used [OF wf i(1,2) ownership_used_nonzero [OF assms(1,2)]] assms(3) by auto
  then show ?thesis using assms(1) i(3) by (auto simp: ownership_def)
qed

lemma ownership_free_n:
  assumes "ownership M (ph, own)" "{i..<i + unat n} \<subseteq> own" "n \<noteq> 0"
    "pmm_free_n (pmm ph) (page_addr i) n = Some p"
  shows "ownership M (ph\<lparr>pmm := p\<rparr>, own - {i..<i + unat n})"
proof -
  have n: "0 < unat n" using assms(3) by (simp add: unat_gt_0)
  then have "i + unat n - 1 \<in> own" using assms(2) by auto
  then have "i + unat n - 1 < 16384" using assms(1) by (auto simp: ownership_def)
  then have "i + unat n \<le> 16384" using n by linarith
  moreover have "unat n \<le> unat (used_pages (pmm ph))"
    using card_mono [OF ownership_finite [OF assms(1)] assms(2)] ownership_used [OF assms(1)] by simp
  moreover have wf: "pmm_wf (pmm ph)" "{i..<i + unat n} \<inter> free_set (bitmap (pmm ph)) = {}"
    and M: "{i..<i + unat n} \<subseteq> M" using assms(1,2) by (auto simp: ownership_def)
  ultimately have "pmm_wf p" "free_set (bitmap p) = free_set (bitmap (pmm ph)) \<union> {i..<i + unat n}"
    "total_pages p = total_pages (pmm ph)"
    using pmm_free_loop_run [of "pmm ph" i 0 "unat n"] assms(4) by (auto simp: pmm_free_n_def)
  then show ?thesis using assms(1) M by (auto simp: ownership_def)
qed

lemma pmm_step_ownership: "pmm_step s t \<Longrightarrow> ownership M s \<Longrightarrow> ownership M t"
proof (induction rule: pmm_step.induct)
  case (step_rejected addr ph p own)
  then show ?case using pmm_free_ignored [of "pmm ph" addr] by (auto simp: ownership_def)
next
  case (step_write ph own m)
  then show ?case by (simp add: ownership_def)
qed (blast intro: ownership_alloc ownership_alloc_n ownership_free ownership_free_n)+

lemma pmm_run_ownership:
  assumes "pmm_step\<^sup>*\<^sup>* s t" "ownership M s"
  shows "ownership M t"
  using assms by (induction rule: rtranclp_induct) (auto intro: pmm_step_ownership)

lemma pmm_init_ownership:
  assumes "pmm_init mmap = Some p" "mmap_wf mmap" "\<And>e. e \<in> set (regions mmap) \<Longrightarrow> entry_ok e"
    "no_overlap (regions mmap)"
  shows "ownership (map_pages (regions mmap)) (\<lparr>pmm = p, phys_mem = m\<rparr>, {})"
  using pmm_init_pages_of_map [of mmap] assms map_pages_bound [of "regions mmap"]
  by (auto simp: ownership_def pmm_wf_def)

section \<open>The initial allocator of the simulated machine\<close>

definition boot_pmm :: pmm_t where
  "boot_pmm = the (pmm_init mmap_parse)"

lemma boot_pmm: "pmm_init mmap_parse = Some boot_pmm" "pmm_wf boot_pmm" "used_pages boot_pmm = 0"
  "free_set (bitmap boot_pmm) = {0..<160} \<union> {256..<3840} \<union> {4096..<10240} \<union> {10496..<15360}"
proof -
  obtain p where p: "pmm_init mmap_parse = Some p" "pmm_wf p" "used_pages p = 0"
    "free_set (bitmap p) = map_pages (regions mmap_parse)"
    using pmm_init_pages_of_map [OF mmap_wf_parse parse_entries_ok parse_no_overlap] by blast
  then have eq: "boot_pmm = p" by (simp add: boot_pmm_def)
  show "pmm_init mmap_parse = Some boot_pmm" "pmm_wf boot_pmm" "used_pages boot_pmm = 0"
    using p eq by simp_all
  show "free_set (bitmap boot_pmm) = {0..<160} \<union> {256..<3840} \<union> {4096..<10240} \<union> {10496..<15360}"
    using p(4) eq parse_map_pages by simp
qed

definition boot_phys :: phys_t where
  "boot_phys = \<lparr>pmm = boot_pmm, phys_mem = (\<lambda>_. 0)\<rparr>"

lemma boot_phys_wf: "pmm_wf (pmm boot_phys)" and boot_free: "0 \<in> free_set (bitmap (pmm boot_phys))"
  using boot_pmm by (simp_all add: boot_phys_def)

lemma boot_free_count: "card (free_set (bitmap boot_pmm)) = 14752"
proof -
  have "map_page_count (regions mmap_parse) = 14752"
    by (simp add: regions_parse map_page_count_def entry_pages_range) (simp add: entry_pages_def)
  then show ?thesis
    using map_page_count_card [OF parse_no_overlap] boot_pmm(4) parse_map_pages by simp
qed

lemma boot_bitmap: "length (bitmap boot_pmm) = 2048"
  using boot_pmm(2) by (simp add: pmm_wf_def)

lemma pmm_is_free_page:
  "length (bitmap p) = 2048 \<Longrightarrow> i < 16384 \<Longrightarrow> pmm_is_free p (page_addr i) = Some (i \<in> free_set (bitmap p))"
  using page_addr_less [of i] page_of_addr [of i]
  by (simp add: pmm_is_free_def page_addr_def test_page free_set_def)

text \<open>A run of free pages at the start of the booted memory, for concrete instances.\<close>

lemma boot_run: "free_run (bitmap (pmm boot_phys)) (unat (8::u64)) 0"
  by (auto simp: free_run_def boot_phys_def boot_pmm)

text \<open>
  A free region that contains no page boundary: rounding its base up passes its rounded end, and
  the unsigned page count becomes \<open>2 ^ 52 - 1\<close>.
\<close>

lemma sliver_page_count:
  assumes "unat (entry_base e) + unat (entry_length e) + 4095 < 2 ^ 64"
    "(unat (entry_base e) + unat (entry_length e)) div 4096 < (unat (entry_base e) + 4095) div 4096"
  shows "unat ((ALIGN_DOWN (entry_base e + entry_length e) PAGE_SIZE - ALIGN_UP (entry_base e) PAGE_SIZE)
    div PAGE_SIZE) = 2 ^ 52 - 1"
proof -
  let ?B = "unat (entry_base e)" and ?L = "unat (entry_length e)"
  let ?bs = "ALIGN_UP (entry_base e) PAGE_SIZE"
  let ?top = "ALIGN_DOWN (entry_base e + entry_length e) PAGE_SIZE"
  have bs: "unat ?bs = 4096 * ((?B + 4095) div 4096)" using assms(1) by (intro unat_ALIGN_UP) simp
  have top: "unat ?top = 4096 * ((?B + ?L) div 4096)"
    using assms(1) unat_add_no_wrap [of "entry_base e" "entry_length e"] by (simp add: unat_ALIGN_DOWN)
  have "(?B + 4095) div 4096 = Suc ((?B + ?L) div 4096)" using assms(2) by linarith
  then have "unat ?bs = unat ?top + 4096" using bs top by simp
  then have "unat (?top - ?bs) = 2 ^ 64 - 4096"
    using unat_sub_if' [of ?top ?bs] by simp
  then show ?thesis by (simp add: unat_div c_const)
qed

section \<open>Properties\<close>

text \<open>
  C12. \<open>pmm_init\<close> frees exactly the usable memory. Assume that the end of every free region of the map
  fits 64 bits with a page to spare, and that for every free region whose base, rounded up to a
  page, is below 64 MB the rounded base does not pass the end rounded down. Then \<open>pmm_init\<close> runs
  without fault; a page is free afterwards iff it lies wholly inside a free region and below
  64 MB; no page is in use, and the two counters of pages are the number of such pages summed over
  the regions. If moreover no two regions of the map overlap, the allocator is well-formed, the
  counters being the number of free pages; pages of overlapping free regions are counted twice.
\<close>

theorem pmm_init_correct:
  assumes "mmap_wf mmap" "\<And>e. e \<in> set (regions mmap) \<Longrightarrow> entry_ok e"
  shows "\<exists>p. pmm_init mmap = Some p \<and> used_pages p = 0 \<and> total_pages p = free_pages p \<and>
    unat (free_pages p) = (\<Sum>e \<leftarrow> regions mmap. card (entry_pages e)) \<and>
    (no_overlap (regions mmap) \<longrightarrow> pmm_wf p) \<and>
    (\<forall>i<16384. pmm_is_free p (page_addr i) = Some (\<exists>e \<in> set (regions mmap). i \<in> entry_pages e))"
  using pmm_init_run [OF assms] map_page_count_card [of "regions mmap"]
  by (auto simp: pmm_is_free_page map_pages_def map_page_count_def pmm_wf_def)

text \<open>The map of the simulated machine, and a map with the same page twice.\<close>

definition doubled_map :: memory_map_t where
  "doubled_map = mmap_add_entry (mmap_add_entry mmap_init 0x1000 0x1000 MMAP_FREE) 0x1000 0x1000 MMAP_FREE"

theorem pmm_init_correct_witness:
  "(\<exists>p. pmm_init mmap_parse = Some p \<and> pmm_wf p \<and> used_pages p = 0 \<and>
     (\<forall>i<16384. pmm_is_free p (page_addr i) = Some (\<exists>e \<in> set (regions mmap_parse). i \<in> entry_pages e))) \<and>
   (\<exists>p. pmm_init doubled_map = Some p \<and> unat (free_pages p) = 2)"
proof -
  let ?e = "\<lparr>entry_base = 0x1000, entry_length = 0x1000, entry_type = MMAP_FREE\<rparr>"
  have d: "regions doubled_map = [?e, ?e]" "mmap_wf doubled_map"
    by (simp_all add: doubled_map_def regions_add_entry mmap_wf_add_entry mmap_wf_init regions_init count_add_entry
        MMAP_MAX_ENTRIES_def count_init)
  have ok: "entry_ok ?e" by (simp add: entry_ok_def)
  have "entry_pages ?e = {1..<2}" by (simp add: entry_pages_range)
  then have "card (entry_pages ?e) = 1" by simp
  then have "\<exists>p. pmm_init doubled_map = Some p \<and> unat (free_pages p) = 2"
    using pmm_init_correct [OF d(2)] d(1) ok by auto
  then show ?thesis
    using pmm_init_correct [OF mmap_wf_parse parse_entries_ok] parse_no_overlap by blast
qed

text \<open>
  C13. \<open>pmm_alloc\<close> is first fit and total: on a well-formed allocator it never faults; with a free
  page it returns the address of the lowest one, takes it out of the free pages, zeroes it and
  touches no other byte; with none it returns \<open>- 1\<close> and changes nothing.
\<close>

theorem pmm_alloc_first_fit:
  assumes "pmm_wf (pmm ph)"
  shows "if free_set (bitmap (pmm ph)) = {} then pmm_alloc ph = Some (- 1, ph)
    else \<exists>ph'. pmm_alloc ph = Some (page_addr (Min (free_set (bitmap (pmm ph)))), ph') \<and>
      pmm_wf (pmm ph') \<and>
      free_set (bitmap (pmm ph')) = free_set (bitmap (pmm ph)) - {Min (free_set (bitmap (pmm ph)))} \<and>
      phys_mem ph' = (\<lambda>x. if x \<in> region (page_addr (Min (free_set (bitmap (pmm ph))))) 4096
                           then 0 else phys_mem ph x)"
proof (cases "free_set (bitmap (pmm ph)) = {}")
  case True
  with assms show ?thesis by (simp add: pmm_alloc_none)
next
  case False
  with assms show ?thesis
    by (rule pmm_alloc_some) (use False in \<open>auto simp: page_addr_def\<close>)
qed

theorem pmm_alloc_first_fit_witness:
  "\<exists>ph'. pmm_alloc boot_phys = Some (page_addr (Min (free_set (bitmap (pmm boot_phys)))), ph')"
  using pmm_alloc_first_fit [OF boot_phys_wf] boot_free by (auto split: if_splits)

text \<open>
  C14. \<open>pmm_alloc_n\<close> finds the lowest run: on a well-formed allocator it returns \<open>- 1\<close>, unchanged,
  when \<open>n\<close> is zero or no \<open>n\<close> consecutive pages are free, and otherwise takes exactly the first
  such run, zeroes it and keeps the allocator well-formed.
\<close>

theorem pmm_alloc_n_first_fit:
  assumes "pmm_wf (pmm ph)"
  shows "if n = 0 \<or> (\<nexists>s. free_run (bitmap (pmm ph)) (unat n) s) then pmm_alloc_n ph n = Some (- 1, ph)
    else \<exists>ph' s. s = (LEAST s. free_run (bitmap (pmm ph)) (unat n) s) \<and>
      pmm_alloc_n ph n = Some (page_addr s, ph') \<and> pmm_wf (pmm ph') \<and>
      free_set (bitmap (pmm ph')) = free_set (bitmap (pmm ph)) - {s..<s + unat n} \<and>
      phys_mem ph' = (\<lambda>x. if x \<in> region (page_addr s) (4096 * unat n) then 0 else phys_mem ph x)"
  using pmm_alloc_n_none [OF assms, of n] pmm_alloc_n_some [OF assms, of n]
  by (auto simp: page_addr_def)

theorem pmm_alloc_n_first_fit_witness:
  "\<exists>ph'. pmm_alloc_n boot_phys 8 = Some (page_addr 0, ph') \<and>
     free_set (bitmap (pmm ph')) = free_set (bitmap (pmm boot_phys)) - {0..<8}"
proof -
  have "(LEAST s. free_run (bitmap (pmm boot_phys)) (unat (8::u64)) s) = 0"
    using boot_run by (rule Least_eq_0)
  then show ?thesis
    using pmm_alloc_n_first_fit [OF boot_phys_wf, of 8] boot_run by (auto split: if_splits)
qed

text \<open>
  Freeing undoes allocating: the page just allocated is accepted by \<open>pmm_free\<close>, and freeing it
  gives back the allocator as it was, bitmap and counters.
\<close>

theorem pmm_alloc_free_roundtrip:
  assumes "pmm_wf (pmm ph)" "pmm_alloc ph = Some (a, ph')" "a \<noteq> - 1"
  shows "pmm_free (pmm ph') a = Some (pmm ph)"
proof -
  let ?F = "free_set (bitmap (pmm ph))"
  have ne: "?F \<noteq> {}" using assms pmm_alloc_none [of ph] by auto
  with assms(1) obtain ph1 where ph1: "pmm_alloc ph = Some (of_nat (Min ?F) * PAGE_SIZE, ph1)"
    "pmm_wf (pmm ph1)" "free_set (bitmap (pmm ph1)) = ?F - {Min ?F}"
    "total_pages (pmm ph1) = total_pages (pmm ph)" "free_pages (pmm ph1) = free_pages (pmm ph) - 1"
    "used_pages (pmm ph1) = used_pages (pmm ph) + 1" by (rule pmm_alloc_some)
  have min: "Min ?F \<in> ?F" "Min ?F < 16384" using ne Min_in free_set_bound by auto
  have "Min ?F \<notin> free_set (bitmap (pmm ph1))" using ph1(3) by simp
  with ph1(2) min(2) obtain bm where bm: "pmm_free (pmm ph1) (of_nat (Min ?F) * PAGE_SIZE) =
      Some ((pmm ph1)\<lparr>bitmap := bm, free_pages := free_pages (pmm ph1) + 1, used_pages := used_pages (pmm ph1) - 1\<rparr>)"
    "length bm = 2048" "free_set bm = insert (Min ?F) (free_set (bitmap (pmm ph1)))"
    by (rule pmm_free_page)
  have "bm = bitmap (pmm ph)"
    using bm(2,3) ph1(3) min(1) assms(1) by (intro bitmap_eq_free_set) (auto simp: pmm_wf_def)
  then show ?thesis using bm(1) ph1 assms(2) by simp
qed

theorem pmm_alloc_free_roundtrip_witness:
  "\<exists>a ph'. pmm_alloc boot_phys = Some (a, ph') \<and> pmm_free (pmm ph') a = Some (pmm boot_phys)"
proof -
  have "free_frames boot_phys \<noteq> {}" using boot_free by (auto simp: free_frames_def)
  with boot_phys_wf obtain a ph' where a: "pmm_alloc boot_phys = Some (a, ph')" "a \<in> free_frames boot_phys"
    using pma.alloc_some by blast
  then have "a \<noteq> - 1" using pma.frames_valid by blast
  then show ?thesis using a pmm_alloc_free_roundtrip [OF boot_phys_wf a(1)] by blast
qed

text \<open>
  No page is handed out twice, and none is withheld: allocating as many times as there are free
  pages returns every free page exactly once, and the next call returns \<open>- 1\<close>.
\<close>

theorem pmm_alloc_exhausts:
  assumes "pmm_wf (pmm ph)"
  shows "\<exists>as ph'. alloc_many pmm_alloc (card (free_frames ph)) ph = Some (as, ph') \<and> distinct as \<and>
    set as = free_frames ph \<and> pmm_alloc ph' = Some (- 1, ph')"
  using assms by (rule pma.alloc_many_exhausts)

theorem pmm_alloc_exhausts_witness:
  "\<exists>as ph'. alloc_many pmm_alloc (card (free_frames boot_phys)) boot_phys = Some (as, ph') \<and> distinct as \<and>
    set as = free_frames boot_phys \<and> pmm_alloc ph' = Some (- 1, ph')"
  by (rule pmm_alloc_exhausts [OF boot_phys_wf])

text \<open>
  C4. A client that frees only pages it owns cannot break the allocator: in every state reachable from
  \<open>pmm_init\<close> by such a client the allocator is well-formed, each page of the usable memory is either
  free or owned and never both, and \<open>used_pages\<close> is the number of owned pages.
\<close>

theorem pmm_pages_conserved:
  assumes "pmm_init mmap = Some p" "mmap_wf mmap" "\<And>e. e \<in> set (regions mmap) \<Longrightarrow> entry_ok e"
    "no_overlap (regions mmap)" "pmm_step\<^sup>*\<^sup>* (\<lparr>pmm = p, phys_mem = m\<rparr>, {}) (ph, own)"
  shows "pmm_wf (pmm ph) \<and> own \<inter> free_set (bitmap (pmm ph)) = {} \<and>
    own \<union> free_set (bitmap (pmm ph)) = map_pages (regions mmap) \<and>
    unat (used_pages (pmm ph)) = card own"
proof -
  have "ownership (map_pages (regions mmap)) (ph, own)"
    using pmm_run_ownership [OF assms(5) pmm_init_ownership [OF assms(1-4)]] by blast
  then show ?thesis using ownership_used by (auto simp: ownership_def)
qed

theorem pmm_pages_conserved_witness:
  "\<exists>ph own. pmm_step\<^sup>*\<^sup>* (\<lparr>pmm = boot_pmm, phys_mem = (\<lambda>_. 0)\<rparr>, {}) (ph, own) \<and> own \<noteq> {} \<and>
     own \<union> free_set (bitmap (pmm ph)) = map_pages (regions mmap_parse)"
proof -
  have "free_frames boot_phys \<noteq> {}" using boot_free by (auto simp: free_frames_def)
  with boot_phys_wf obtain a ph where a: "pmm_alloc boot_phys = Some (a, ph)" "a \<in> free_frames boot_phys"
    using pma.alloc_some by blast
  then have "a \<noteq> - 1" using pma.frames_valid by blast
  with step_alloc [OF a(1), of "{}"]
  have run: "pmm_step\<^sup>*\<^sup>* (\<lparr>pmm = boot_pmm, phys_mem = (\<lambda>_. 0)\<rparr>, {}) (ph, {unat a div 4096})"
    by (auto simp: boot_phys_def)
  show ?thesis
    using pmm_pages_conserved [OF boot_pmm(1) mmap_wf_parse parse_entries_ok parse_no_overlap run] run
    by blast
qed

text \<open>
  A free region with no page boundary inside breaks \<open>pmm_init\<close>: rounding makes the end smaller
  than the base, the unsigned page count wraps to \<open>2 ^ 52 - 1\<close>, and the loop runs off the bitmap.
\<close>

theorem pmm_init_sliver_faults:
  assumes "entry_type e = MMAP_FREE" "length (bitmap p) = 2048"
    "unat (entry_base e) + unat (entry_length e) + 4095 < 2 ^ 64"
    "(unat (entry_base e) + unat (entry_length e)) div 4096 < (unat (entry_base e) + 4095) div 4096"
    "(unat (entry_base e) + 4095) div 4096 < 16384"
  shows "pmm_init_entry e p = None"
proof -
  let ?bs = "ALIGN_UP (entry_base e) PAGE_SIZE"
  let ?top = "ALIGN_DOWN (entry_base e + entry_length e) PAGE_SIZE"
  let ?b = "(unat (entry_base e) + 4095) div 4096"
  have bs: "unat ?bs = 4096 * ?b" using assms(3) by (intro unat_ALIGN_UP) simp
  have top: "unat ?top = 4096 * ((unat (entry_base e) + unat (entry_length e)) div 4096)"
    using assms(3) unat_add_no_wrap [of "entry_base e" "entry_length e"] by (simp add: unat_ALIGN_DOWN)
  have near: "\<not> PHYS_MEM_SIZE \<le> ?bs" "\<not> PHYS_MEM_SIZE < ?top"
    using bs top assms(4,5) by (auto simp: word_le_nat_alt word_less_nat_alt c_const)
  have first: "?bs div PAGE_SIZE = of_nat ?b"
    using bs assms(5) by (simp add: word_unat_eq_iff unat_div c_const)
  have "pmm_init_pages (2 ^ 52 - 1) (of_nat ?b) p = None"
    using assms(2,5) by (intro pmm_init_pages_overrun) simp_all
  then show ?thesis
    using sliver_page_count [OF assms(3,4)] near first assms(1) by (simp add: pmm_init_entry_def Let_def)
qed

theorem pmm_init_sliver_faults_witness:
  "pmm_init_entry \<lparr>entry_base = 0x1800, entry_length = 0x100, entry_type = MMAP_FREE\<rparr> boot_pmm = None"
  using boot_pmm(2) by (intro pmm_init_sliver_faults) (simp_all add: pmm_wf_def)

text \<open>
  \<open>pmm_free\<close> accepts memory that was never allocatable: on the booted machine, freeing the VGA
  frame at \<open>0xB8000\<close> makes it allocatable and wraps \<open>used_pages\<close> from 0 to \<open>2 ^ 64 - 1\<close>.
\<close>

theorem pmm_free_reserved_accepted:
  "\<exists>p'. pmm_is_free boot_pmm 0xB8000 = Some False \<and> pmm_free boot_pmm 0xB8000 = Some p' \<and>
        pmm_is_free p' 0xB8000 = Some True \<and> used_pages p' = - 1 \<and> \<not> pmm_wf p'"
proof -
  have addr: "page_addr 0xB8 = 0xB8000" by (simp add: page_addr_def c_const)
  have res: "0xB8 \<notin> free_set (bitmap boot_pmm)" by (simp add: boot_pmm)
  have "0xB8 < (16384::nat)" by simp
  from boot_pmm(2) this res obtain bm where bm: "pmm_free boot_pmm (of_nat 0xB8 * PAGE_SIZE) =
      Some (boot_pmm\<lparr>bitmap := bm, free_pages := free_pages boot_pmm + 1, used_pages := used_pages boot_pmm - 1\<rparr>)"
    "length bm = 2048" "free_set bm = insert 0xB8 (free_set (bitmap boot_pmm))"
    by (rule pmm_free_page)
  let ?p = "boot_pmm\<lparr>bitmap := bm, free_pages := free_pages boot_pmm + 1, used_pages := used_pages boot_pmm - 1\<rparr>"
  have "0xB8 \<in> free_set (bitmap ?p)" "length (bitmap ?p) = 2048" using bm by simp_all
  then have "pmm_is_free ?p (page_addr 0xB8) = Some True"
    using page_addr_less [of "0xB8"] page_of_addr [of "0xB8"] test_page [of bm "0xB8"]
    by (simp add: pmm_is_free_def page_addr_def free_set_def)
  moreover have "\<not> pmm_wf ?p"
    using boot_pmm(2,3) boot_free_count by (auto simp: pmm_wf_def unat_neg_one)
  ultimately show ?thesis
    using bm(1) boot_pmm(3) pmm_is_free_page [OF boot_bitmap, of "0xB8"] res addr
    by (auto simp: page_addr_def)
qed

end
