(* ===== verification/Page_Table.thy ===== *)
theory Page_Table
  imports Prelude
begin

text \<open>
  Page-table trees, independent of how they lie in memory: a family of tables maps a frame and an
  index to an entry, and a path of indices is walked from the root through present entries. The
  facts here say what installing a table or setting a leaf entry does to every walk, given that
  distinct paths lead to distinct frames.
\<close>

section \<open>Entries\<close>

definition PTE_PRESENT :: u64 where
  "PTE_PRESENT = push_bit 0 1"

definition PTE_WRITABLE :: u64 where
  "PTE_WRITABLE = push_bit 1 1"

definition PTE_USER :: u64 where
  "PTE_USER = push_bit 2 1"

definition PTE_NX :: u64 where
  "PTE_NX = push_bit 63 1"

definition PTE_ADDR_MASK :: u64 where
  "PTE_ADDR_MASK = 0x000FFFFFFFFFF000"

definition present :: "u64 \<Rightarrow> bool" where
  "present e \<longleftrightarrow> e AND PTE_PRESENT \<noteq> 0"

lemma bit_PTE_ADDR_MASK: "bit PTE_ADDR_MASK k \<longleftrightarrow> 12 \<le> k \<and> k < 52"
proof -
  have "PTE_ADDR_MASK = push_bit 12 (mask 40)"
    by (simp add: PTE_ADDR_MASK_def mask_eq_exp_minus_1 push_bit_eq_mult)
  then have "bit PTE_ADDR_MASK k \<longleftrightarrow> bit (push_bit 12 (mask 40 :: u64)) k" by (rule arg_cong)
  then show ?thesis by (auto simp: bit_simps)
qed

lemma present_bit: "present e \<longleftrightarrow> bit e 0"
  by (simp add: present_def PTE_PRESENT_def and_one_eq bit_0 odd_iff_mod_2_eq_one)

lemma not_present_0 [simp]: "\<not> present 0"
  by (simp add: present_bit)

lemma present_or [simp]: "present (e OR PTE_PRESENT)"
  by (simp add: present_bit PTE_PRESENT_def bit_or_iff)

section \<open>Walks\<close>

type_synonym tables = "u64 \<Rightarrow> nat \<Rightarrow> u64"

primrec walk :: "tables \<Rightarrow> u64 \<Rightarrow> nat list \<Rightarrow> u64 option" where
  "walk T t [] = Some t"
| "walk T t (i # is) = (if present (T t i) then walk T (T t i AND PTE_ADDR_MASK) is else None)"

lemma walk_append: "walk T t (p @ q) = (case walk T t p of None \<Rightarrow> None | Some u \<Rightarrow> walk T u q)"
  by (induction p arbitrary: t) simp_all

lemma walk_snoc:
  "walk T t (p @ [i]) =
     (case walk T t p of None \<Rightarrow> None
      | Some u \<Rightarrow> if present (T u i) then Some (T u i AND PTE_ADDR_MASK) else None)"
  by (simp add: walk_append split: option.split)

text \<open>The present leaf entry at the end of a path.\<close>

definition leaf :: "tables \<Rightarrow> u64 \<Rightarrow> nat list \<Rightarrow> nat \<Rightarrow> u64 option" where
  "leaf T t p i =
     (case walk T t p of None \<Rightarrow> None | Some u \<Rightarrow> if present (T u i) then Some (T u i) else None)"

text \<open>
  A tree of depth three: the frames reached by paths of at most three indices lie in \<open>U\<close>, and
  distinct paths reach distinct frames.
\<close>

definition pt_tree :: "tables \<Rightarrow> u64 \<Rightarrow> u64 set \<Rightarrow> bool" where
  "pt_tree T r U \<longleftrightarrow>
     (\<forall>p t. length p \<le> 3 \<longrightarrow> walk T r p = Some t \<longrightarrow> t \<in> U) \<and>
     (\<forall>p q t. length p \<le> 3 \<longrightarrow> length q \<le> 3 \<longrightarrow> walk T r p = Some t \<longrightarrow> walk T r q = Some t \<longrightarrow> p = q)"

lemma pt_tree_frame: "pt_tree T r U \<Longrightarrow> length p \<le> 3 \<Longrightarrow> walk T r p = Some t \<Longrightarrow> t \<in> U"
  and pt_tree_inj: "pt_tree T r U \<Longrightarrow> length p \<le> 3 \<Longrightarrow> length q \<le> 3 \<Longrightarrow>
    walk T r p = Some t \<Longrightarrow> walk T r q = Some t \<Longrightarrow> p = q"
  by (auto simp: pt_tree_def)

lemma pt_tree_mono: "pt_tree T r U \<Longrightarrow> U \<subseteq> V \<Longrightarrow> pt_tree T r V"
  by (auto simp: pt_tree_def)

section \<open>A fresh root\<close>

lemma walk_zero_table: "T r = (\<lambda>_. 0) \<Longrightarrow> walk T r p = (if p = [] then Some r else None)"
  by (cases p) simp_all

lemma pt_tree_fresh: "T r = (\<lambda>_. 0) \<Longrightarrow> r \<in> U \<Longrightarrow> pt_tree T r U"
  by (auto simp: pt_tree_def walk_zero_table split: if_splits)

lemma leaf_fresh: "T r = (\<lambda>_. 0) \<Longrightarrow> leaf T r p i = None"
  by (simp add: leaf_def walk_zero_table)

section \<open>Clearing a frame outside the tree\<close>

lemma walk_zero_outside:
  assumes "pt_tree T r U" "f \<notin> U"
  shows "length p \<le> 4 \<Longrightarrow> walk (T(f := \<lambda>_. 0)) r p = walk T r p"
proof (induction p rule: rev_induct)
  case (snoc i p)
  then have "walk T r p = Some u \<Longrightarrow> u \<noteq> f" for u
    using pt_tree_frame [OF assms(1), of p u] assms(2) by auto
  then show ?case using snoc by (auto simp: walk_snoc split: option.split)
qed simp

lemma pt_tree_zero_outside: "pt_tree T r U \<Longrightarrow> f \<notin> U \<Longrightarrow> pt_tree (T(f := \<lambda>_. 0)) r U"
  by (auto simp: pt_tree_def walk_zero_outside [unfolded pt_tree_def])

lemma leaf_zero_outside:
  assumes "pt_tree T r U" "f \<notin> U" "length p \<le> 3"
  shows "leaf (T(f := \<lambda>_. 0)) r p i = leaf T r p i"
  using assms walk_zero_outside [OF assms(1,2), of p] pt_tree_frame [OF assms(1,3)]
  by (auto simp: leaf_def split: option.split)

section \<open>Writing one entry\<close>

definition set_entry :: "tables \<Rightarrow> u64 \<Rightarrow> nat \<Rightarrow> u64 \<Rightarrow> tables" where
  "set_entry T t i v = T(t := (T t)(i := v))"

lemma set_entry_apply: "set_entry T t i v u j = (if u = t \<and> j = i then v else T u j)"
  by (simp add: set_entry_def)

text \<open>Only the paths through the written entry can change.\<close>

lemma walk_set_entry_other:
  assumes "pt_tree T r U" "walk T r p = Some t" "length p \<le> 3"
  shows "length q \<le> 4 \<Longrightarrow> \<not> (\<exists>s. q = (p @ [i]) @ s) \<Longrightarrow> walk (set_entry T t i v) r q = walk T r q"
proof (induction q rule: rev_induct)
  case (snoc j q)
  have "\<not> (\<exists>s. q = (p @ [i]) @ s)" using snoc.prems(2) by auto
  then have IH: "walk (set_entry T t i v) r q = walk T r q" using snoc by simp
  have "\<not> (u = t \<and> j = i)" if "walk T r q = Some u" for u
    using pt_tree_inj [OF assms(1) _ assms(3), of q u] that assms(2) snoc.prems by auto
  then have "set_entry T t i v u j = T u j" if "walk T r q = Some u" for u
    using that by (auto simp: set_entry_apply)
  then show ?case unfolding walk_snoc IH by (simp split: option.split)
qed simp

lemma walk_set_leaf:
  assumes "pt_tree T r U" "walk T r p = Some t" "length p = 3" "length q \<le> 3"
  shows "walk (set_entry T t i v) r q = walk T r q"
proof (rule walk_set_entry_other [OF assms(1,2)])
  show "\<not> (\<exists>s. q = (p @ [i]) @ s)" using assms(3,4) by auto
qed (use assms in auto)

lemma pt_tree_set_leaf:
  assumes "pt_tree T r U" "walk T r p = Some t" "length p = 3"
  shows "pt_tree (set_entry T t i v) r U"
  using assms(1) walk_set_leaf [OF assms] by (auto simp: pt_tree_def)

lemma leaf_set_leaf:
  assumes "pt_tree T r U" "walk T r p = Some t" "length p = 3" "length q = 3"
  shows "leaf (set_entry T t i v) r q j =
    (if q = p \<and> j = i then if present v then Some v else None else leaf T r q j)"
proof -
  have "u = t \<longleftrightarrow> q = p" if "walk T r q = Some u" for u
    using pt_tree_inj [OF assms(1), of q p] that assms by auto
  then show ?thesis
    using walk_set_leaf [OF assms(1-3), of q] assms
    by (auto simp: leaf_def set_entry_apply split: option.split)
qed

section \<open>Installing an empty table\<close>

lemma walk_install:
  assumes tree: "pt_tree T r U" and p: "walk T r p = Some t" "length p < 3" and free: "\<not> present (T t i)"
    and f: "f \<notin> U" and v: "present v" "v AND PTE_ADDR_MASK = f" and q: "length q \<le> 4"
  shows "walk (set_entry (T(f := \<lambda>_. 0)) t i v) r q = (if q = p @ [i] then Some f else walk T r q)"
proof -
  let ?Z = "T(f := \<lambda>_. 0)" and ?T = "set_entry (T(f := \<lambda>_. 0)) t i v"
  have treeZ: "pt_tree ?Z r U" using tree f by (rule pt_tree_zero_outside)
  have pZ: "walk ?Z r p = Some t" using walk_zero_outside [OF tree f, of p] p by simp
  have tf: "t \<noteq> f" using pt_tree_frame [OF tree _ p(1)] p(2) f by auto
  have p': "walk ?T r p = Some t"
    using walk_set_entry_other [OF treeZ pZ, of p i v] p(2) pZ by auto
  show ?thesis
  proof (cases "\<exists>s. q = (p @ [i]) @ s")
    case False
    then show ?thesis
      using walk_set_entry_other [OF treeZ pZ, of q i v] walk_zero_outside [OF tree f q] p(2) q by auto
  next
    case True
    then obtain s where s: "q = (p @ [i]) @ s" by blast
    have "walk ?T r (p @ [i]) = Some f" using p' v by (simp add: walk_snoc set_entry_apply)
    moreover have "?T f = (\<lambda>_. 0)" using tf by (auto simp: set_entry_def)
    ultimately have "walk ?T r q = (if s = [] then Some f else None)"
      using s by (simp only: walk_append [of _ _ "p @ [i]"]) (simp add: walk_zero_table)
    moreover have "walk T r q = None"
      using s p(1) free by (simp only: walk_append [of _ _ "p @ [i]"]) (simp add: walk_snoc)
    ultimately show ?thesis using s by simp
  qed
qed

lemma pt_tree_install:
  assumes "pt_tree T r U" "walk T r p = Some t" "length p < 3" "\<not> present (T t i)"
    "f \<notin> U" "present v" "v AND PTE_ADDR_MASK = f"
  shows "pt_tree (set_entry (T(f := \<lambda>_. 0)) t i v) r (insert f U)"
proof -
  have no_f: "walk T r q \<noteq> Some f" if "length q \<le> 3" for q
    using pt_tree_frame [OF assms(1) that] assms(5) by blast
  have w: "walk (set_entry (T(f := \<lambda>_. 0)) t i v) r q = (if q = p @ [i] then Some f else walk T r q)"
    if "length q \<le> 3" for q
    using walk_install [OF assms, of q] that by simp
  show ?thesis
    unfolding pt_tree_def using w no_f pt_tree_frame [OF assms(1)] pt_tree_inj [OF assms(1)]
    by (auto split: if_splits)
qed

lemma leaf_install:
  assumes "pt_tree T r U" "walk T r p = Some t" "length p < 3" "\<not> present (T t i)"
    "f \<notin> U" "present v" "v AND PTE_ADDR_MASK = f" "length q = 3"
  shows "leaf (set_entry (T(f := \<lambda>_. 0)) t i v) r q j = leaf T r q j"
proof -
  let ?T = "set_entry (T(f := \<lambda>_. 0)) t i v"
  have w: "walk ?T r q = (if q = p @ [i] then Some f else walk T r q)"
    using walk_install [OF assms(1-7), of q] assms(8) by simp
  have "t \<noteq> f" using pt_tree_frame [OF assms(1) _ assms(2)] assms(3,5) by auto
  then have zero: "?T f j = 0" by (simp add: set_entry_def)
  have "walk T r (p @ [i]) = None" using assms(2,4) by (simp add: walk_snoc)
  moreover have "?T u j = T u j" if "walk T r q = Some u" for u
    using that pt_tree_frame [OF assms(1) _ that] pt_tree_inj [OF assms(1), of q p u] assms(2,3,5,8)
    by (auto simp: set_entry_def)
  ultimately show ?thesis using w zero by (auto simp: leaf_def split: option.split)
qed

end
