(* ===== verification/Vmm.thy ===== *)
theory Vmm
  imports Pmm_Properties Page_Table
begin

text \<open>
  Virtual memory, \<^verbatim>\<open>vmm/vmm.c\<close>: four-level page tables whose tables are pages of the simulated
  physical memory, read and written through \<open>phys_to_virt\<close>. The state is the \<open>vmm_t\<close> and the
  physical memory its \<open>pmm\<close> field points to. Reading or writing an entry through a null pointer
  or outside \<open>phys_mem\<close> is a fault. This theory holds the operations and shows that the bytes of
  the tables behave as a tree of tables; messages to \<open>stderr\<close> are not modelled.
\<close>

section \<open>Indices\<close>

definition ENTRY_MASK :: u64 where
  "ENTRY_MASK = 0x1FF"

definition PML4_INDEX :: "u64 \<Rightarrow> u64" where
  "PML4_INDEX va = drop_bit 39 va AND ENTRY_MASK"

definition PDPT_INDEX :: "u64 \<Rightarrow> u64" where
  "PDPT_INDEX va = drop_bit 30 va AND ENTRY_MASK"

definition PD_INDEX :: "u64 \<Rightarrow> u64" where
  "PD_INDEX va = drop_bit 21 va AND ENTRY_MASK"

definition PT_INDEX :: "u64 \<Rightarrow> u64" where
  "PT_INDEX va = drop_bit 12 va AND ENTRY_MASK"

definition PAGE_OFFSET :: "u64 \<Rightarrow> u64" where
  "PAGE_OFFSET va = va AND (PAGE_SIZE - 1)"

section \<open>State\<close>

record vmm_t =
  pml4 :: cptr
  pml4_phys :: u64
  mapped :: u64

record vm_t =
  vmm :: vmm_t
  ram :: phys_t

definition read_pte :: "vm_t \<Rightarrow> cptr \<Rightarrow> u64 \<Rightarrow> u64 option" where
  "read_pte s table index =
     (case table of
        NULL \<Rightarrow> None
      | PhysMem off \<Rightarrow>
          if unat off + 8 * unat index + 8 \<le> unat PHYS_MEM_SIZE
          then Some (load_le (phys_mem (ram s)) (off + 8 * index) 8) else None)"

definition write_pte :: "vm_t \<Rightarrow> cptr \<Rightarrow> u64 \<Rightarrow> u64 \<Rightarrow> vm_t option" where
  "write_pte s table index e =
     (case table of
        NULL \<Rightarrow> None
      | PhysMem off \<Rightarrow>
          if unat off + 8 * unat index + 8 \<le> unat PHYS_MEM_SIZE
          then Some (s\<lparr>ram := (ram s)\<lparr>phys_mem := store_le (phys_mem (ram s)) (off + 8 * index) 8 e\<rparr>\<rparr>)
          else None)"

section \<open>Operations\<close>

definition get_or_create_table :: "vm_t \<Rightarrow> cptr \<Rightarrow> u64 \<Rightarrow> u64 \<Rightarrow> (cptr \<times> vm_t) option" where
  "get_or_create_table s table index flags = do {
     e \<leftarrow> read_pte s table index;
     (if e AND PTE_PRESENT = 0 then do {
        (page, ph) \<leftarrow> pmm_alloc (ram s);
        let s = s\<lparr>ram := ph\<rparr>;
        if page = - 1 then Some (NULL, s)
        else do {
          s \<leftarrow> write_pte s table index ((page AND PTE_ADDR_MASK) OR flags OR PTE_PRESENT);
          e \<leftarrow> read_pte s table index;
          Some (phys_to_virt (e AND PTE_ADDR_MASK), s) } }
      else Some (phys_to_virt (e AND PTE_ADDR_MASK), s)) }"

text \<open>
  \<open>walk_table\<close> with its three optional out-parameters null, as every caller passes them.
\<close>

definition walk_table :: "vm_t \<Rightarrow> u64 \<Rightarrow> cptr option" where
  "walk_table s virt = do {
     let l4 = PML4_INDEX virt;
     let l3 = PDPT_INDEX virt;
     let l2 = PD_INDEX virt;
     e4 \<leftarrow> read_pte s (pml4 (vmm s)) l4;
     if e4 AND PTE_PRESENT = 0 then Some NULL
     else do {
       let pdpt = phys_to_virt (e4 AND PTE_ADDR_MASK);
       e3 \<leftarrow> read_pte s pdpt l3;
       if e3 AND PTE_PRESENT = 0 then Some NULL
       else do {
         let pd = phys_to_virt (e3 AND PTE_ADDR_MASK);
         e2 \<leftarrow> read_pte s pd l2;
         if e2 AND PTE_PRESENT = 0 then Some NULL
         else Some (phys_to_virt (e2 AND PTE_ADDR_MASK)) } } }"

definition vmm_init :: "phys_t \<Rightarrow> vm_t option" where
  "vmm_init ph = do {
     (root, ph) \<leftarrow> pmm_alloc ph;
     if root = - 1
     then Some \<lparr>vmm = \<lparr>pml4 = NULL, pml4_phys = root, mapped = 0\<rparr>, ram = ph\<rparr>
     else Some \<lparr>vmm = \<lparr>pml4 = phys_to_virt root, pml4_phys = root, mapped = 0\<rparr>, ram = ph\<rparr> }"

definition vmm_map :: "vm_t \<Rightarrow> u64 \<Rightarrow> u64 \<Rightarrow> u64 \<Rightarrow> (int \<times> vm_t) option" where
  "vmm_map s virt phys flags =
     (if pml4 (vmm s) = NULL then Some (- 1, s)
      else do {
        let virt = ALIGN_DOWN virt PAGE_SIZE;
        let phys = ALIGN_DOWN phys PAGE_SIZE;
        let l4 = PML4_INDEX virt;
        let l3 = PDPT_INDEX virt;
        let l2 = PD_INDEX virt;
        let l1 = PT_INDEX virt;
        (pdpt, s) \<leftarrow> get_or_create_table s (pml4 (vmm s)) l4 (PTE_PRESENT OR PTE_WRITABLE OR PTE_USER);
        if pdpt = NULL then Some (- 1, s)
        else do {
          (pd, s) \<leftarrow> get_or_create_table s pdpt l3 (PTE_PRESENT OR PTE_WRITABLE OR PTE_USER);
          if pd = NULL then Some (- 1, s)
          else do {
            (pt, s) \<leftarrow> get_or_create_table s pd l2 (PTE_PRESENT OR PTE_WRITABLE OR PTE_USER);
            if pt = NULL then Some (- 1, s)
            else do {
              e \<leftarrow> read_pte s pt l1;
              if e AND PTE_PRESENT \<noteq> 0 then do {
                s \<leftarrow> write_pte s pt l1 ((phys AND PTE_ADDR_MASK) OR flags OR PTE_PRESENT);
                Some (0, s) }
              else do {
                s \<leftarrow> write_pte s pt l1 ((phys AND PTE_ADDR_MASK) OR flags OR PTE_PRESENT);
                Some (0, s\<lparr>vmm := (vmm s)\<lparr>mapped := mapped (vmm s) + 1\<rparr>\<rparr>) } } } } })"

primrec vmm_map_loop :: "nat \<Rightarrow> u64 \<Rightarrow> vm_t \<Rightarrow> u64 \<Rightarrow> u64 \<Rightarrow> u64 \<Rightarrow> (int \<times> vm_t) option" where
  "vmm_map_loop 0 i s virt phys flags = Some (0, s)"
| "vmm_map_loop (Suc k) i s virt phys flags = do {
     (r, s) \<leftarrow> vmm_map s (virt + i * PAGE_SIZE) (phys + i * PAGE_SIZE) flags;
     if r \<noteq> 0 then Some (- 1, s) else vmm_map_loop k (i + 1) s virt phys flags }"

definition vmm_map_range :: "vm_t \<Rightarrow> u64 \<Rightarrow> u64 \<Rightarrow> u64 \<Rightarrow> u64 \<Rightarrow> (int \<times> vm_t) option" where
  "vmm_map_range s virt phys pages flags = vmm_map_loop (unat pages) 0 s virt phys flags"

definition vmm_unmap :: "vm_t \<Rightarrow> u64 \<Rightarrow> (int \<times> vm_t) option" where
  "vmm_unmap s virt =
     (if pml4 (vmm s) = NULL then Some (- 1, s)
      else do {
        let virt = ALIGN_DOWN virt PAGE_SIZE;
        let l1 = PT_INDEX virt;
        pt \<leftarrow> walk_table s virt;
        if pt = NULL then Some (- 1, s)
        else do {
          e \<leftarrow> read_pte s pt l1;
          if e AND PTE_PRESENT = 0 then Some (- 1, s)
          else do {
            s \<leftarrow> write_pte s pt l1 0;
            Some (0, s\<lparr>vmm := (vmm s)\<lparr>mapped := mapped (vmm s) - 1\<rparr>\<rparr>) } } })"

primrec vmm_unmap_loop :: "nat \<Rightarrow> u64 \<Rightarrow> vm_t \<Rightarrow> u64 \<Rightarrow> vm_t option" where
  "vmm_unmap_loop 0 i s virt = Some s"
| "vmm_unmap_loop (Suc k) i s virt = do {
     (r, s) \<leftarrow> vmm_unmap s (virt + i * PAGE_SIZE);
     vmm_unmap_loop k (i + 1) s virt }"

definition vmm_unmap_range :: "vm_t \<Rightarrow> u64 \<Rightarrow> u64 \<Rightarrow> (int \<times> vm_t) option" where
  "vmm_unmap_range s virt pages = do { s \<leftarrow> vmm_unmap_loop (unat pages) 0 s virt; Some (0, s) }"

definition vmm_translate :: "vm_t \<Rightarrow> u64 \<Rightarrow> u64 option" where
  "vmm_translate s virt =
     (if pml4 (vmm s) = NULL then Some (- 1)
      else do {
        let l1 = PT_INDEX virt;
        let off = PAGE_OFFSET virt;
        pt \<leftarrow> walk_table s virt;
        if pt = NULL then Some (- 1)
        else do {
          e \<leftarrow> read_pte s pt l1;
          if e AND PTE_PRESENT = 0 then Some (- 1) else Some ((e AND PTE_ADDR_MASK) OR off) } })"

definition vmm_is_mapped :: "vm_t \<Rightarrow> u64 \<Rightarrow> bool option" where
  "vmm_is_mapped s virt = map_option (\<lambda>p. p \<noteq> - 1) (vmm_translate s virt)"

text \<open>
  The printing functions, as the arguments of their \<open>printf\<close> calls: \<open>None\<close> for the line
  "NOT MAPPED", otherwise the translation and the four flag letters.
\<close>

definition vmm_print_mapping :: "vm_t \<Rightarrow> u64 \<Rightarrow> (u64 \<times> string) option option" where
  "vmm_print_mapping s virt = do {
     p \<leftarrow> vmm_translate s virt;
     if p = - 1 then Some None
     else do {
       pt \<leftarrow> walk_table s virt;
       flags \<leftarrow> (if pt \<noteq> NULL then map_option (\<lambda>e. e AND NOT PTE_ADDR_MASK) (read_pte s pt (PT_INDEX virt))
                else Some 0);
       Some (Some (p,
         [if flags AND PTE_PRESENT \<noteq> 0 then CHR ''P'' else CHR ''-'',
          if flags AND PTE_WRITABLE \<noteq> 0 then CHR ''W'' else CHR ''R'',
          if flags AND PTE_USER \<noteq> 0 then CHR ''U'' else CHR ''K'',
          if flags AND PTE_NX \<noteq> 0 then CHR ''X'' else CHR ''-''])) } }"

definition vmm_print_stats :: "vm_t \<Rightarrow> u64 \<times> u64" where
  "vmm_print_stats s = (pml4_phys (vmm s), mapped (vmm s))"

primrec vmm_dump_loop :: "nat \<Rightarrow> nat \<Rightarrow> vm_t \<Rightarrow> (nat \<times> u64 \<times> u64 \<times> string) list option" where
  "vmm_dump_loop 0 i s = Some []"
| "vmm_dump_loop (Suc k) i s = do {
     e \<leftarrow> read_pte s (pml4 (vmm s)) (of_nat i);
     rest \<leftarrow> vmm_dump_loop k (Suc i) s;
     Some (if e AND PTE_PRESENT \<noteq> 0 then
       (i, e, e AND PTE_ADDR_MASK,
         [if e AND PTE_WRITABLE \<noteq> 0 then CHR ''W'' else CHR ''R'',
          if e AND PTE_USER \<noteq> 0 then CHR ''U'' else CHR ''K'',
          if e AND PTE_NX \<noteq> 0 then CHR ''X'' else CHR ''-'']) # rest else rest) }"

definition vmm_dump_pml4 :: "vm_t \<Rightarrow> (nat \<times> u64 \<times> u64 \<times> string) list option" where
  "vmm_dump_pml4 s = vmm_dump_loop 512 0 s"

section \<open>Facts on indices\<close>

lemma unat_index: "unat (drop_bit n (va::u64) AND ENTRY_MASK) = unat va div 2 ^ n mod 512"
proof -
  have "drop_bit n va AND ENTRY_MASK = take_bit 9 (drop_bit n va)"
    by (simp add: ENTRY_MASK_def take_bit_eq_mask mask_eq_exp_minus_1)
  then have "unat (drop_bit n va AND ENTRY_MASK) = take_bit 9 (drop_bit n (unat va))"
    by (simp only: unsigned_take_bit_eq unat_drop_bit_eq)
  then show ?thesis by (simp add: take_bit_eq_mod drop_bit_eq_div)
qed

definition table_path :: "nat \<Rightarrow> nat list" where
  "table_path n = [n div 2 ^ 27 mod 512, n div 2 ^ 18 mod 512, n div 2 ^ 9 mod 512]"

definition vpn :: "u64 \<Rightarrow> nat" where
  "vpn va = unat va div 4096 mod 2 ^ 36"

lemma index_vpn:
  "unat (PML4_INDEX va) = vpn va div 2 ^ 27 mod 512" "unat (PDPT_INDEX va) = vpn va div 2 ^ 18 mod 512"
  "unat (PD_INDEX va) = vpn va div 2 ^ 9 mod 512" "unat (PT_INDEX va) = vpn va mod 512"
proof -
  have "x div 4096 mod 2 ^ 36 div 2 ^ n mod 512 = x div 2 ^ (n + 12) mod 512" if "n \<le> 27" for n x :: nat
  proof -
    have "x div 4096 mod 2 ^ 36 div 2 ^ n = x div 4096 div 2 ^ n mod 2 ^ (36 - n)"
      using drop_bit_take_bit [of n 36 "x div 4096"] by (simp add: take_bit_eq_mod drop_bit_eq_div)
    moreover have "y mod 2 ^ (36 - n) mod 512 = y mod 512" for y :: nat
    proof -
      have "(2 ^ 9 :: nat) dvd 2 ^ (36 - n)" using that by (intro le_imp_power_dvd) simp
      then have "y mod 2 ^ (36 - n) mod 2 ^ 9 = y mod 2 ^ 9" by (rule mod_mod_cancel)
      then show ?thesis by simp
    qed
    moreover have "x div 4096 div 2 ^ n = x div 2 ^ (n + 12)"
      by (simp add: div_mult2_eq [symmetric] power_add mult.commute)
    ultimately show ?thesis by simp
  qed
  from this [of 27] this [of 18] this [of 9] this [of 0]
  show "unat (PML4_INDEX va) = vpn va div 2 ^ 27 mod 512" "unat (PDPT_INDEX va) = vpn va div 2 ^ 18 mod 512"
    "unat (PD_INDEX va) = vpn va div 2 ^ 9 mod 512" "unat (PT_INDEX va) = vpn va mod 512"
    by (simp_all add: PML4_INDEX_def PDPT_INDEX_def PD_INDEX_def PT_INDEX_def unat_index vpn_def)
qed

lemma table_path_vpn:
  "table_path (vpn va) = [unat (PML4_INDEX va), unat (PDPT_INDEX va), unat (PD_INDEX va)]"
  by (simp add: table_path_def index_vpn)

lemma index_bound:
  "unat (PML4_INDEX va) < 512" "unat (PDPT_INDEX va) < 512" "unat (PD_INDEX va) < 512"
  "unat (PT_INDEX va) < 512"
  by (simp_all add: index_vpn)

lemma vpn_less: "vpn va < 2 ^ 36"
  by (simp add: vpn_def)

lemma vpn_align [simp]: "vpn (ALIGN_DOWN va PAGE_SIZE) = vpn va"
  by (simp add: vpn_def unat_ALIGN_DOWN)

lemma length_table_path [simp]: "length (table_path n) = 3"
  by (simp add: table_path_def)

text \<open>The path and the last index determine the page number.\<close>

lemma table_path_inj:
  assumes "m < 2 ^ 36" "n < 2 ^ 36" "table_path m = table_path n" "m mod 512 = n mod 512"
  shows "m = n"
proof -
  have step: "x div 2 ^ k = x div 2 ^ (k + 9) * 512 + x div 2 ^ k mod 512" for x k :: nat
  proof -
    have "x div 2 ^ (k + 9) = x div 2 ^ k div 512" by (simp add: power_add div_mult2_eq)
    then show ?thesis using div_mult_mod_eq [of "x div 2 ^ k" 512] by simp
  qed
  have top: "x div 2 ^ 27 = x div 2 ^ 27 mod 512" if "x < 2 ^ 36" for x :: nat
    using that by (simp add: mod_less less_mult_imp_div_less)
  from assms(3) have p: "m div 2 ^ 27 mod 512 = n div 2 ^ 27 mod 512"
    "m div 2 ^ 18 mod 512 = n div 2 ^ 18 mod 512" "m div 2 ^ 9 mod 512 = n div 2 ^ 9 mod 512"
    by (simp_all add: table_path_def)
  have "m div 2 ^ 27 = n div 2 ^ 27" using top [OF assms(1)] top [OF assms(2)] p(1) by simp
  then have "m div 2 ^ 18 = n div 2 ^ 18" using step [of m 18] step [of n 18] p(2) by simp
  then have "m div 2 ^ 9 = n div 2 ^ 9" using step [of m 9] step [of n 9] p(3) by simp
  then show ?thesis using step [of m 0] step [of n 0] assms(4) by simp
qed

section \<open>Tables in memory\<close>

text \<open>
  The tables read from the bytes of memory: one table per page frame, 512 entries each; everything
  else is empty. An entry store is then an update of one entry and clearing a frame an update of
  one table, with no condition left on the rest.
\<close>

definition page_frames :: "u64 set" where
  "page_frames = page_addr ` {..<16384}"

definition tables_of :: "(u64 \<Rightarrow> u8) \<Rightarrow> tables" where
  "tables_of m t j = (if t \<in> page_frames \<and> j < 512 then load_le m (t + 8 * of_nat j) 8 else 0)"

lemma page_framesE:
  assumes "t \<in> page_frames"
  obtains a where "t = page_addr a" "a < 16384" "unat t = 4096 * a"
  using assms by (auto simp: page_frames_def)

lemma free_frames_page_frames: "free_frames ph \<subseteq> page_frames"
  by (auto simp: free_frames_def page_frames_def dest: free_set_bound)

lemma unat_entry_addr: "t \<in> page_frames \<Longrightarrow> j < 512 \<Longrightarrow> unat (t + 8 * of_nat j) = unat t + 8 * j"
  using unat_add_of_nat [of t "8 * j"] by (auto elim!: page_framesE)

lemma frames_apart:
  assumes "t \<in> page_frames" "u \<in> page_frames" "t \<noteq> u"
  shows "unat t + 4096 \<le> unat u \<or> unat u + 4096 \<le> unat t"
proof -
  obtain a b where a: "t = page_addr a" "unat t = 4096 * a" and b: "u = page_addr b" "unat u = 4096 * b"
    using assms(1,2) by (metis page_framesE)
  then have "a \<noteq> b" using assms(3) by blast
  then show ?thesis using a b by linarith
qed

lemma frame_end: "t \<in> page_frames \<Longrightarrow> unat t + 4096 \<le> 0x4000000"
  by (auto elim!: page_framesE)

lemma entry_region_subset: "t \<in> page_frames \<Longrightarrow> j < 512 \<Longrightarrow> region (t + 8 * of_nat j) 8 \<subseteq> region t 4096"
  using frame_end [of t] by (intro region_subset) (simp_all add: unat_entry_addr)

lemma frame_regions_disjoint:
  "t \<in> page_frames \<Longrightarrow> u \<in> page_frames \<Longrightarrow> t \<noteq> u \<Longrightarrow> region t 4096 \<inter> region u 4096 = {}"
  using frames_apart [of t u] frame_end [of t] frame_end [of u]
    region_disjoint [of t 4096 u 4096] region_disjoint' [of u 4096 t 4096] by auto

lemma entry_regions_disjoint:
  assumes "t \<in> page_frames" "u \<in> page_frames" "j < 512" "k < 512" "\<not> (t = u \<and> j = k)"
  shows "region (t + 8 * of_nat j) 8 \<inter> region (u + 8 * of_nat k) 8 = {}"
proof (cases "t = u")
  case False
  then show ?thesis
    using frame_regions_disjoint [of t u] entry_region_subset assms by blast
next
  case True
  then have "j < k \<or> k < j" using assms(5) by auto
  then show ?thesis
    using True assms(1,3,4) frame_end [of u]
      region_disjoint [of "u + 8 * of_nat j" 8 "u + 8 * of_nat k" 8]
      region_disjoint' [of "u + 8 * of_nat k" 8 "u + 8 * of_nat j" 8]
    by (auto simp: unat_entry_addr)
qed

lemma tables_of_store:
  assumes "t \<in> page_frames" "i < 512"
  shows "tables_of (store_le m (t + 8 * of_nat i) 8 (v::u64)) = set_entry (tables_of m) t i v"
proof (intro ext)
  fix u j
  show "tables_of (store_le m (t + 8 * of_nat i) 8 v) u j = set_entry (tables_of m) t i v u j"
    using assms entry_regions_disjoint [of u t j i]
    by (auto simp: tables_of_def set_entry_apply load_store_same load_store_other)
qed

lemma load_zero: "(\<And>x. x \<in> region a n \<Longrightarrow> m x = 0) \<Longrightarrow> (load_le m a n :: 'b::len word) = 0"
  by (rule bit_word_eqI) (simp add: bit_load_le region_member)

lemma tables_of_zero:
  assumes "f \<in> page_frames"
  shows "tables_of (\<lambda>x. if x \<in> region f 4096 then 0 else m x) = (tables_of m)(f := \<lambda>_. 0)"
proof (intro ext)
  fix u j
  let ?m = "\<lambda>x. if x \<in> region f 4096 then 0 else m x"
  show "tables_of ?m u j = ((tables_of m)(f := \<lambda>_. 0)) u j"
  proof (cases "u \<in> page_frames \<and> j < 512")
    case True
    then have sub: "region (u + 8 * of_nat j) 8 \<subseteq> region u 4096" using entry_region_subset by blast
    show ?thesis
    proof (cases "u = f")
      case True
      then show ?thesis using sub by (auto simp: tables_of_def intro!: load_zero)
    next
      case False
      then have "load_le ?m (u + 8 * of_nat j) 8 = (load_le m (u + 8 * of_nat j) 8 :: u64)"
        using sub True assms frame_regions_disjoint [of u f] by (intro load_le_cong) auto
      then show ?thesis using False by (simp add: tables_of_def)
    qed
  qed (auto simp: tables_of_def)
qed

lemma read_pte_table:
  "t \<in> page_frames \<Longrightarrow> unat i < 512 \<Longrightarrow>
     read_pte s (PhysMem t) i = Some (tables_of (phys_mem (ram s)) t (unat i))"
  using frame_end [of t] by (simp add: read_pte_def tables_of_def c_const)

lemma write_pte_table:
  assumes "t \<in> page_frames" "unat i < 512"
  obtains ph where "write_pte s (PhysMem t) i e = Some (s\<lparr>ram := ph\<rparr>)" "pmm ph = pmm (ram s)"
    "tables_of (phys_mem ph) = set_entry (tables_of (phys_mem (ram s))) t (unat i) e"
    "\<And>x. x \<notin> region t 4096 \<Longrightarrow> phys_mem ph x = phys_mem (ram s) x"
proof
  let ?ph = "(ram s)\<lparr>phys_mem := store_le (phys_mem (ram s)) (t + 8 * i) 8 e\<rparr>"
  have i: "i = of_nat (unat i)" by simp
  show "write_pte s (PhysMem t) i e = Some (s\<lparr>ram := ?ph\<rparr>)"
    using assms frame_end [of t] by (simp add: write_pte_def c_const)
  show "tables_of (phys_mem ?ph) = set_entry (tables_of (phys_mem (ram s))) t (unat i) e"
    using tables_of_store [OF assms, of "phys_mem (ram s)" e] by simp
  fix x assume "x \<notin> region t 4096"
  then have "x \<notin> region (t + 8 * i) 8" using entry_region_subset [OF assms] by auto
  then show "phys_mem ?ph x = phys_mem (ram s) x" by (simp add: store_le_outside)
qed simp

lemma phys_to_virt_frame: "t \<in> page_frames \<Longrightarrow> phys_to_virt t = PhysMem t"
  by (auto simp: phys_to_virt_def c_const word_le_nat_alt elim!: page_framesE)

lemma frame_and_mask:
  assumes "t \<in> page_frames" shows "t AND PTE_ADDR_MASK = t"
proof -
  obtain a where a: "t = page_addr a" "a < 16384" "unat t = 4096 * a" using assms by (rule page_framesE)
  have "t = push_bit 12 (of_nat a)" by (simp add: a(1) page_addr_def PAGE_SIZE_def push_bit_eq_mult)
  moreover have "push_bit 12 (of_nat a :: u64) AND PTE_ADDR_MASK = push_bit 12 (of_nat a AND mask 40)"
    by (auto intro!: bit_word_eqI simp: bit_simps bit_PTE_ADDR_MASK)
  moreover have "of_nat a AND mask 40 = (of_nat a :: u64)"
  proof -
    have "take_bit 40 a = a" using a(2) by (simp add: take_bit_nat_eq_self_iff)
    then have "take_bit 40 (of_nat a :: u64) = of_nat a" by (simp add: take_bit_of_nat)
    then show ?thesis by (simp add: take_bit_eq_mask)
  qed
  ultimately show ?thesis by simp
qed

end
