(* ===== verification/Address_Space.thy ===== *)
theory Address_Space
  imports Vmm
begin

text \<open>
  The contract of an address space towards its clients: an abstract partial function from virtual
  page numbers to entries, and what mapping, unmapping and translating do to it. Facts about
  sequences of calls, among them the range operations, follow from the contract alone.
\<close>

section \<open>Entries and addresses\<close>

definition mk_pte :: "u64 \<Rightarrow> u64 \<Rightarrow> u64" where
  "mk_pte phys flags = (ALIGN_DOWN phys PAGE_SIZE AND PTE_ADDR_MASK) OR flags OR PTE_PRESENT"

lemma present_mk_pte [simp]: "present (mk_pte phys flags)"
  by (simp add: mk_pte_def present_bit bit_or_iff PTE_PRESENT_def)

text \<open>The address a present entry translates \<open>virt\<close> to.\<close>

definition target :: "u64 \<Rightarrow> u64 \<Rightarrow> u64" where
  "target e virt = (e AND PTE_ADDR_MASK) OR PAGE_OFFSET virt"

lemma ALIGN_DOWN_bits: "bit (ALIGN_DOWN x PAGE_SIZE) k \<longleftrightarrow> bit x k \<and> 12 \<le> k"
proof -
  have "ALIGN_DOWN x PAGE_SIZE = push_bit 12 (drop_bit 12 x)"
    using and_not_low_mask [of x 12] by (simp add: ALIGN_DOWN_def PAGE_SIZE_def)
  then show ?thesis by (auto simp: bit_simps dest: bit_imp_le_length)
qed

lemma PAGE_OFFSET_bits: "bit (PAGE_OFFSET x) k \<longleftrightarrow> bit x k \<and> k < 12"
proof -
  have "PAGE_OFFSET x = x AND mask 12" by (simp add: PAGE_OFFSET_def PAGE_SIZE_def mask_eq_exp_minus_1)
  then show ?thesis by (auto simp: bit_simps)
qed

lemma small_word_bits: "unat (x::u64) < 2 ^ n \<Longrightarrow> bit x k \<Longrightarrow> k < n"
proof -
  assume "unat x < 2 ^ n" "bit x k"
  then have "take_bit n (unat x) = unat x" by (simp add: take_bit_nat_eq_self)
  moreover have "bit (unat x) k" using \<open>bit x k\<close> by (simp add: bit_unsigned_iff)
  ultimately show "k < n" by (metis bit_take_bit_iff)
qed

lemma target_mk_pte:
  assumes "flags AND PTE_ADDR_MASK = 0" "unat phys < 2 ^ 52"
  shows "target (mk_pte phys flags) virt = ALIGN_DOWN phys PAGE_SIZE + PAGE_OFFSET virt"
proof -
  have "\<not> (bit flags k \<and> bit PTE_ADDR_MASK k)" for k
    using assms(1) by (metis bit_and_iff bit_0_eq bot_apply bot_bool_def)
  then have "mk_pte phys flags AND PTE_ADDR_MASK = ALIGN_DOWN phys PAGE_SIZE"
    using small_word_bits [OF assms(2)]
    by (intro bit_word_eqI)
      (auto simp: mk_pte_def bit_simps bit_PTE_ADDR_MASK ALIGN_DOWN_bits PTE_PRESENT_def)
  then show ?thesis
    by (simp add: target_def) (subst disjunctive_add, auto simp: ALIGN_DOWN_bits PAGE_OFFSET_bits)
qed

lemma target_valid: "target e virt \<noteq> - 1"
proof
  assume "target e virt = - 1"
  then have "bit (target e virt) 63" by simp
  then show False by (simp add: target_def bit_or_iff bit_and_iff bit_PTE_ADDR_MASK PAGE_OFFSET_bits)
qed

lemma vpn_add: "vpn (v + of_nat i * PAGE_SIZE) = (vpn v + i) mod 2 ^ 36"
proof -
  have "unat (v + of_nat i * PAGE_SIZE) = (unat v + 4096 * i) mod 2 ^ 64"
    by (simp add: PAGE_SIZE_def unat_word_ariths unat_of_nat mod_simps mult.commute)
  moreover have "x mod 2 ^ 64 div 4096 mod 2 ^ 36 = x div 4096 mod 2 ^ 36" for x :: nat
  proof -
    have "x mod 2 ^ 64 div 4096 = x div 4096 mod 2 ^ 52"
      using drop_bit_take_bit [of 12 64 x] by (simp add: take_bit_eq_mod drop_bit_eq_div)
    then show ?thesis by (simp add: mod_mod_cancel)
  qed
  ultimately show ?thesis by (simp add: vpn_def mod_simps add.commute)
qed

lemma vpn_add_inj:
  assumes "i < j" "j < 2 ^ 36"
  shows "vpn (v + of_nat i * PAGE_SIZE) \<noteq> vpn (v + of_nat j * PAGE_SIZE)"
proof
  assume "vpn (v + of_nat i * PAGE_SIZE) = vpn (v + of_nat j * PAGE_SIZE)"
  then have "(vpn v + i) mod 2 ^ 36 = (vpn v + j) mod 2 ^ 36" by (simp only: vpn_add)
  then have "(j - i) mod 2 ^ 36 = 0"
    using assms mod_eq_dvd_iff_nat [of "vpn v + i" "vpn v + j" "2 ^ 36"] by simp
  then show False using assms by simp
qed

section \<open>Mapping a run of pages\<close>

primrec map_run :: "nat \<Rightarrow> u64 \<Rightarrow> u64 \<Rightarrow> u64 \<Rightarrow> (nat \<Rightarrow> u64 option) \<Rightarrow> nat \<Rightarrow> u64 option" where
  "map_run 0 v p f m = m"
| "map_run (Suc k) v p f m =
     (map_run k v p f m)(vpn (v + of_nat k * PAGE_SIZE) \<mapsto> mk_pte (p + of_nat k * PAGE_SIZE) f)"

lemma map_run_at:
  "i < k \<Longrightarrow> k \<le> 2 ^ 36 \<Longrightarrow>
     map_run k v p f m (vpn (v + of_nat i * PAGE_SIZE)) = Some (mk_pte (p + of_nat i * PAGE_SIZE) f)"
proof (induction k)
  case (Suc k)
  then show ?case using vpn_add_inj [of i k v] by (cases "i = k") auto
qed simp

lemma map_run_other: "\<forall>i<k. n \<noteq> vpn (v + of_nat i * PAGE_SIZE) \<Longrightarrow> map_run k v p f m n = m n"
  by (induction k) simp_all

section \<open>The contract\<close>

locale address_space =
  fixes map_page :: "'s \<Rightarrow> u64 \<Rightarrow> u64 \<Rightarrow> u64 \<Rightarrow> (int \<times> 's) option"
    and unmap_page :: "'s \<Rightarrow> u64 \<Rightarrow> (int \<times> 's) option"
    and translate :: "'s \<Rightarrow> u64 \<Rightarrow> u64 option"
    and space :: "'s \<Rightarrow> nat \<Rightarrow> u64 option"
    and invar :: "'s \<Rightarrow> bool"
    and exhausted :: "'s \<Rightarrow> bool"
  assumes map_law: "invar s \<Longrightarrow> \<exists>s'. invar s' \<and>
      (map_page s v p f = Some (0, s') \<and> space s' = (space s)(vpn v \<mapsto> mk_pte p f) \<or>
       map_page s v p f = Some (- 1, s') \<and> space s' = space s \<and> exhausted s' \<and> vpn v \<notin> dom (space s))"
    and unmap_law: "invar s \<Longrightarrow> \<exists>s'. invar s' \<and> space s' = (space s)(vpn v := None) \<and>
      unmap_page s v = Some (if vpn v \<in> dom (space s) then 0 else - 1, s')"
    and translate_law: "invar s \<Longrightarrow>
      translate s v = Some (case space s (vpn v) of None \<Rightarrow> - 1 | Some e \<Rightarrow> target e v)"
begin

lemma map_ok: "invar s \<Longrightarrow> map_page s v p f = Some (0, s') \<Longrightarrow>
    invar s' \<and> space s' = (space s)(vpn v \<mapsto> mk_pte p f)"
  using map_law [of s v p f] by auto

lemma map_translate:
  assumes "invar s" "map_page s v p f = Some (0, s')" "f AND PTE_ADDR_MASK = 0" "unat p < 2 ^ 52"
  shows "translate s' w =
    (if vpn w = vpn v then Some (ALIGN_DOWN p PAGE_SIZE + PAGE_OFFSET w) else translate s w)"
  using map_ok [OF assms(1,2)] assms by (auto simp: translate_law target_mk_pte)

lemma unmap_ok:
  assumes "invar s" "unmap_page s v = Some (r, s')"
  shows "invar s'" "space s' = (space s)(vpn v := None)" "r = (if vpn v \<in> dom (space s) then 0 else - 1)"
  using unmap_law [OF assms(1), of v] assms(2) by auto

lemma map_unmap:
  assumes "invar s" "vpn v \<notin> dom (space s)" "map_page s v p f = Some (0, s')"
  shows "\<exists>s''. unmap_page s' v = Some (0, s'') \<and> invar s'' \<and> space s'' = space s"
proof -
  have s': "invar s'" "space s' = (space s)(vpn v \<mapsto> mk_pte p f)"
    using map_ok [OF assms(1,3)] by auto
  obtain s'' where "invar s''" "space s'' = (space s')(vpn v := None)" "unmap_page s' v = Some (0, s'')"
    using unmap_law [OF s'(1), of v] s'(2) by auto
  moreover have "(space s)(vpn v := None) = space s" using assms(2) by (auto simp: fun_eq_iff)
  ultimately show ?thesis using s'(2) by auto
qed

end

text \<open>Range operations that repeat the page operations.\<close>

locale address_space_ranges = address_space map_page unmap_page translate space invar exhausted
  for map_page :: "'s \<Rightarrow> u64 \<Rightarrow> u64 \<Rightarrow> u64 \<Rightarrow> (int \<times> 's) option"
    and unmap_page translate space invar exhausted +
  fixes map_loop :: "nat \<Rightarrow> u64 \<Rightarrow> 's \<Rightarrow> u64 \<Rightarrow> u64 \<Rightarrow> u64 \<Rightarrow> (int \<times> 's) option"
    and unmap_loop :: "nat \<Rightarrow> u64 \<Rightarrow> 's \<Rightarrow> u64 \<Rightarrow> 's option"
  assumes map_loop_0: "map_loop 0 i s v p f = Some (0, s)"
    and map_loop_Suc: "map_loop (Suc k) i s v p f =
      (case map_page s (v + i * PAGE_SIZE) (p + i * PAGE_SIZE) f of None \<Rightarrow> None
       | Some (r, s') \<Rightarrow> if r \<noteq> 0 then Some (- 1, s') else map_loop k (i + 1) s' v p f)"
    and unmap_loop_0: "unmap_loop 0 i s v = Some s"
    and unmap_loop_Suc: "unmap_loop (Suc k) i s v =
      (case unmap_page s (v + i * PAGE_SIZE) of None \<Rightarrow> None
       | Some (r, s') \<Rightarrow> unmap_loop k (i + 1) s' v)"
begin

lemma map_loop_run:
  "invar s \<Longrightarrow> space s = map_run i v p f m \<Longrightarrow>
     \<exists>r s' j. map_loop k (of_nat i) s v p f = Some (r, s') \<and> invar s' \<and> j \<le> i + k \<and>
       space s' = map_run j v p f m \<and> (r = 0 \<and> j = i + k \<or> r = - 1 \<and> j < i + k \<and> exhausted s')"
proof (induction k arbitrary: i s)
  case 0
  then show ?case by (auto simp: map_loop_0)
next
  case (Suc k)
  let ?v = "v + of_nat i * PAGE_SIZE" and ?p = "p + of_nat i * PAGE_SIZE"
  obtain s' where s': "invar s'"
    "map_page s ?v ?p f = Some (0, s') \<and> space s' = (space s)(vpn ?v \<mapsto> mk_pte ?p f) \<or>
     map_page s ?v ?p f = Some (- 1, s') \<and> space s' = space s \<and> exhausted s'"
    using map_law [OF Suc.prems(1), of ?v ?p f] by blast
  from s'(2) show ?case
  proof
    assume ok: "map_page s ?v ?p f = Some (0, s') \<and> space s' = (space s)(vpn ?v \<mapsto> mk_pte ?p f)"
    then have "space s' = map_run (Suc i) v p f m" using Suc.prems(2) by simp
    from Suc.IH [OF s'(1) this] show ?case using ok by (simp add: map_loop_Suc add.commute)
  next
    assume "map_page s ?v ?p f = Some (- 1, s') \<and> space s' = space s \<and> exhausted s'"
    then show ?case
      using s'(1) Suc.prems(2) by (intro exI [of _ "- 1"] exI [of _ s'] exI [of _ i]) (simp add: map_loop_Suc)
  qed
qed

lemma unmap_loop_run:
  "invar s \<Longrightarrow> \<exists>s'. unmap_loop k (of_nat i) s v = Some s' \<and> invar s' \<and>
     space s' = space s |` (- {vpn (v + of_nat j * PAGE_SIZE) | j. i \<le> j \<and> j < i + k})"
proof (induction k arbitrary: i s)
  case 0
  then show ?case by (simp add: unmap_loop_0)
next
  case (Suc k)
  let ?v = "v + of_nat i * PAGE_SIZE"
  let ?A = "\<lambda>i k. {vpn (v + of_nat j * PAGE_SIZE) | j. i \<le> j \<and> j < i + k}"
  obtain r s1 where s1: "invar s1" "space s1 = (space s)(vpn ?v := None)" "unmap_page s ?v = Some (r, s1)"
    using unmap_law [OF Suc.prems, of ?v] by blast
  from Suc.IH [OF s1(1), of "Suc i"] obtain s' where s':
    "unmap_loop k (of_nat (Suc i)) s1 v = Some s'" "invar s'" "space s' = space s1 |` (- ?A (Suc i) k)"
    by blast
  have "?A i (Suc k) = insert (vpn ?v) (?A (Suc i) k)"
    by (auto simp: Suc_le_eq le_less)
  then have "space s' = space s |` (- ?A i (Suc k))"
    using s1(2) s'(3) by (auto simp: fun_eq_iff restrict_map_def)
  then show ?case using s1(3) s'(1,2) by (simp add: unmap_loop_Suc add.commute)
qed

end

end
