(* ===== verification/Vmm_Space.thy ===== *)
theory Vmm_Space
  imports Address_Space
begin

text \<open>
  What the page tables mean: the state's address space is a partial function from virtual page
  numbers to present entries. The invariant says that the tables form a tree of used frames and
  that \<open>mapped\<close> counts the entries of the address space. Each operation is shown to be the
  corresponding change of the partial function, with no access outside memory.
\<close>

section \<open>Abstraction and invariant\<close>

definition vm_tables :: "vm_t \<Rightarrow> tables" where
  "vm_tables s = tables_of (phys_mem (ram s))"

definition used_frames :: "vm_t \<Rightarrow> u64 set" where
  "used_frames s = page_frames - free_frames (ram s)"

definition table_frames :: "u64 \<Rightarrow> vm_t \<Rightarrow> u64 set" where
  "table_frames r s = {t. \<exists>p. length p \<le> 3 \<and> walk (vm_tables s) r p = Some t}"

text \<open>The used frames that hold no table: they belong to clients.\<close>

definition data_frames :: "u64 \<Rightarrow> vm_t \<Rightarrow> u64 set" where
  "data_frames r s = used_frames s - table_frames r s"

definition vm_tree :: "u64 \<Rightarrow> vm_t \<Rightarrow> bool" where
  "vm_tree r s \<longleftrightarrow> pmm_wf (pmm (ram s)) \<and> pt_tree (vm_tables s) r (used_frames s)"

definition pages :: "vm_t \<Rightarrow> nat \<Rightarrow> u64 option" where
  "pages s n =
     (if n < 2 ^ 36 then
        case pml4 (vmm s) of
          NULL \<Rightarrow> None
        | PhysMem r \<Rightarrow> leaf (vm_tables s) r (table_path n) (n mod 512)
      else None)"

definition vm_wf :: "vm_t \<Rightarrow> bool" where
  "vm_wf s \<longleftrightarrow>
     pml4 (vmm s) = PhysMem (pml4_phys (vmm s)) \<and> vm_tree (pml4_phys (vmm s)) s \<and>
     unat (mapped (vmm s)) = card (dom (pages s))"

text \<open>A step that allocates tables but changes no mapping and no client memory.\<close>

definition vm_keeps :: "u64 \<Rightarrow> vm_t \<Rightarrow> vm_t \<Rightarrow> bool" where
  "vm_keeps r s s' \<longleftrightarrow>
     vm_tree r s' \<and> vmm s' = vmm s \<and>
     (\<forall>q j. length q = 3 \<longrightarrow> leaf (vm_tables s') r q j = leaf (vm_tables s) r q j) \<and>
     free_frames (ram s') \<subseteq> free_frames (ram s) \<and> data_frames r s' = data_frames r s \<and>
     (\<forall>f \<in> data_frames r s. \<forall>x \<in> region f 4096. phys_mem (ram s') x = phys_mem (ram s) x)"

lemma vm_keeps_refl [intro]: "vm_tree r s \<Longrightarrow> vm_keeps r s s"
  by (simp add: vm_keeps_def)

lemma vm_keeps_trans [trans]: "vm_keeps r s s' \<Longrightarrow> vm_keeps r s' s'' \<Longrightarrow> vm_keeps r s s''"
  unfolding vm_keeps_def by auto

lemma vm_keeps_tree: "vm_keeps r s s' \<Longrightarrow> vm_tree r s'"
  by (simp add: vm_keeps_def)

lemma vm_keeps_pages: "vm_keeps r s s' \<Longrightarrow> pml4 (vmm s) = PhysMem r \<Longrightarrow> pages s' = pages s"
  by (auto simp: vm_keeps_def pages_def)

lemma table_frame_used: "vm_tree r s \<Longrightarrow> t \<in> table_frames r s \<Longrightarrow> t \<in> used_frames s"
  by (auto simp: vm_tree_def table_frames_def dest: pt_tree_frame)

lemma walk_table_frame: "walk (vm_tables s) r p = Some t \<Longrightarrow> length p \<le> 3 \<Longrightarrow> t \<in> table_frames r s"
  by (auto simp: table_frames_def)

lemma walk_frame:
  "vm_tree r s \<Longrightarrow> walk (vm_tables s) r p = Some t \<Longrightarrow> length p \<le> 3 \<Longrightarrow> t \<in> page_frames"
  using table_frame_used [of r s t] by (auto simp: used_frames_def intro: walk_table_frame)

lemma read_entry:
  "vm_tree r s \<Longrightarrow> walk (vm_tables s) r p = Some t \<Longrightarrow> length p \<le> 3 \<Longrightarrow> unat i < 512 \<Longrightarrow>
     read_pte s (PhysMem t) i = Some (vm_tables s t (unat i))"
  by (simp add: read_pte_table walk_frame vm_tables_def)

lemma entry_test: "e AND PTE_PRESENT = 0 \<longleftrightarrow> \<not> present e"
  by (simp add: present_def)

text \<open>Client memory lies outside every table.\<close>

lemma data_outside_table:
  assumes "f \<in> data_frames r s" "t \<in> page_frames" "t \<notin> data_frames r s" "x \<in> region f 4096"
  shows "x \<notin> region t 4096"
proof -
  have "f \<in> page_frames" "f \<noteq> t" using assms(1,3) by (auto simp: data_frames_def used_frames_def)
  then show ?thesis using frame_regions_disjoint [of f t] assms(2,4) by blast
qed

section \<open>Finding or creating a table\<close>

abbreviation table_flags :: u64 where
  "table_flags \<equiv> PTE_PRESENT OR PTE_WRITABLE OR PTE_USER"

lemma table_entry:
  assumes "f \<in> page_frames"
  shows "present ((f AND PTE_ADDR_MASK) OR table_flags OR PTE_PRESENT)"
    "((f AND PTE_ADDR_MASK) OR table_flags OR PTE_PRESENT) AND PTE_ADDR_MASK = f"
proof -
  show "present ((f AND PTE_ADDR_MASK) OR table_flags OR PTE_PRESENT)"
    by (simp add: present_bit bit_or_iff PTE_PRESENT_def)
  have "(table_flags OR PTE_PRESENT) AND PTE_ADDR_MASK = 0"
    by (simp add: PTE_PRESENT_def PTE_WRITABLE_def PTE_USER_def PTE_ADDR_MASK_def)
  then show "((f AND PTE_ADDR_MASK) OR table_flags OR PTE_PRESENT) AND PTE_ADDR_MASK = f"
    using frame_and_mask [OF assms]
    by (simp add: bit.conj_disj_distrib2 and.assoc [symmetric] or.assoc)
qed

lemma install_keeps:
  assumes tree: "vm_tree r s" and p: "walk (vm_tables s) r p = Some t" "length p < 3"
    and free: "\<not> present (vm_tables s t i)" and f: "f \<in> free_frames (ram s)"
    and s1: "vm_tables s1 = set_entry ((vm_tables s)(f := \<lambda>_. 0)) t i e" "vmm s1 = vmm s"
      "free_frames (ram s1) = free_frames (ram s) - {f}" "pmm_wf (pmm (ram s1))"
      "\<And>x. x \<notin> region f 4096 \<Longrightarrow> x \<notin> region t 4096 \<Longrightarrow> phys_mem (ram s1) x = phys_mem (ram s) x"
    and e: "present e" "e AND PTE_ADDR_MASK = f"
  shows "vm_keeps r s s1" "walk (vm_tables s1) r (p @ [i]) = Some f"
proof -
  have fU: "f \<notin> used_frames s" and fp: "f \<in> page_frames"
    using f free_frames_page_frames by (auto simp: used_frames_def)
  have used: "used_frames s1 = insert f (used_frames s)"
    using s1(3) f fp by (auto simp: used_frames_def)
  note inst = p free fU e
  have pt: "pt_tree (vm_tables s) r (used_frames s)" using tree by (simp add: vm_tree_def)
  have w: "walk (vm_tables s1) r q = (if q = p @ [i] then Some f else walk (vm_tables s) r q)"
    if "length q \<le> 3" for q
    using walk_install [OF pt inst, of q] that by (simp add: s1(1))
  then show wf: "walk (vm_tables s1) r (p @ [i]) = Some f" using p(2) by simp
  have tree1: "vm_tree r s1"
    using pt_tree_install [OF pt inst] s1(4) by (simp add: vm_tree_def used s1(1))
  have no: "walk (vm_tables s) r (p @ [i]) = None" using p free by (simp add: walk_snoc)
  have "table_frames r s1 = insert f (table_frames r s)"
  proof (intro set_eqI iffI)
    fix u assume "u \<in> table_frames r s1"
    then show "u \<in> insert f (table_frames r s)" by (auto simp: table_frames_def w split: if_splits)
  next
    fix u assume "u \<in> insert f (table_frames r s)"
    then consider "u = f" | q where "length q \<le> 3" "walk (vm_tables s) r q = Some u"
      by (auto simp: table_frames_def)
    then show "u \<in> table_frames r s1"
    proof cases
      case 1
      then show ?thesis using walk_table_frame [OF wf] p(2) by simp
    next
      case 2
      then have "walk (vm_tables s1) r q = Some u" using w [OF 2(1)] no by auto
      then show ?thesis using 2(1) by (rule walk_table_frame)
    qed
  qed
  then have data: "data_frames r s1 = data_frames r s"
    using fU by (auto simp: data_frames_def used)
  have "t \<in> table_frames r s" using p by (auto intro: walk_table_frame)
  then have td: "t \<notin> data_frames r s" and fd: "f \<notin> data_frames r s"
    using fU by (auto simp: data_frames_def)
  have tp: "t \<in> page_frames" using walk_frame [OF tree p(1)] p(2) by simp
  show "vm_keeps r s s1"
    unfolding vm_keeps_def
    using tree1 s1(2,3,5) data leaf_install [OF pt inst]
      data_outside_table [OF _ tp td] data_outside_table [OF _ fp fd] by (auto simp: s1(1))
qed

lemma get_or_create:
  assumes tree: "vm_tree r s" and p: "walk (vm_tables s) r p = Some t" "length p < 3"
    and i: "unat i < 512"
  obtains (oom) "get_or_create_table s (PhysMem t) i table_flags = Some (NULL, s)"
      "free_frames (ram s) = {}" "walk (vm_tables s) r (p @ [unat i]) = None"
    | (ok) u s' where "get_or_create_table s (PhysMem t) i table_flags = Some (PhysMem u, s')"
        "walk (vm_tables s') r (p @ [unat i]) = Some u" "vm_keeps r s s'"
        "card (free_frames (ram s)) \<le> Suc (card (free_frames (ram s')))"
proof (cases "present (vm_tables s t (unat i))")
  case True
  let ?u = "vm_tables s t (unat i) AND PTE_ADDR_MASK"
  have w: "walk (vm_tables s) r (p @ [unat i]) = Some ?u" using True p by (simp add: walk_snoc)
  then have "?u \<in> page_frames" using walk_frame [OF tree w] p(2) by simp
  then have "get_or_create_table s (PhysMem t) i table_flags = Some (PhysMem ?u, s)"
    using True read_entry [OF tree p(1) _ i] p(2)
    by (simp add: get_or_create_table_def entry_test phys_to_virt_frame)
  then show ?thesis using w tree by (intro ok [of ?u s]) auto
next
  case False
  have rd: "read_pte s (PhysMem t) i = Some (vm_tables s t (unat i))"
    using read_entry [OF tree p(1) _ i] p(2) by simp
  have wf: "pmm_wf (pmm (ram s))" using tree by (simp add: vm_tree_def)
  from wf show ?thesis
  proof (cases rule: pma.alloc_cases)
    case none
    then show ?thesis
      using False rd p by (intro oom) (simp_all add: get_or_create_table_def entry_test walk_snoc)
  next
    case (some f ph)
    let ?s = "s\<lparr>ram := ph\<rparr>" and ?e = "(f AND PTE_ADDR_MASK) OR table_flags OR PTE_PRESENT"
    have fp: "f \<in> page_frames" using some(2) free_frames_page_frames by blast
    have tp: "t \<in> page_frames" using walk_frame [OF tree p(1)] p(2) by simp
    have mem: "phys_mem ph = (\<lambda>x. if x \<in> region f 4096 then 0 else phys_mem (ram s) x)"
      using pma.alloc_zeroed [OF wf some(1,3)] .
    obtain ph' where wr: "write_pte ?s (PhysMem t) i ?e = Some (?s\<lparr>ram := ph'\<rparr>)" "pmm ph' = pmm ph"
      "tables_of (phys_mem ph') = set_entry (tables_of (phys_mem ph)) t (unat i) ?e"
      "\<And>x. x \<notin> region t 4096 \<Longrightarrow> phys_mem ph' x = phys_mem ph x"
      using write_pte_table [OF tp i, of ?s ?e] by auto
    let ?s' = "s\<lparr>ram := ph'\<rparr>"
    have T: "vm_tables ?s' = set_entry ((vm_tables s)(f := \<lambda>_. 0)) t (unat i) ?e"
      using wr(3) by (simp add: vm_tables_def mem tables_of_zero [OF fp])
    have fr: "free_frames (ram ?s') = free_frames (ram s) - {f}"
      using some(4) wr(2) by (simp add: free_frames_def)
    have keep: "vm_keeps r s ?s'" "walk (vm_tables ?s') r (p @ [unat i]) = Some f"
      using install_keeps [OF tree p False some(2) T _ fr _ _ table_entry [OF fp]] some(5) wr(2,4) mem
      by auto
    have "vm_tables ?s' t (unat i) = ?e" by (simp add: T set_entry_def)
    then have rd': "read_pte ?s' (PhysMem t) i = Some ?e"
      using read_pte_table [OF tp i, of ?s'] by (simp add: vm_tables_def)
    have "get_or_create_table s (PhysMem t) i table_flags = Some (PhysMem f, ?s')"
      using rd False some(1,3) wr(1) rd' table_entry(2) [OF fp]
      by (simp add: get_or_create_table_def entry_test phys_to_virt_frame [OF fp])
    moreover have "card (free_frames (ram s)) \<le> Suc (card (free_frames (ram ?s')))"
      unfolding fr using some(2) card_Suc_Diff1 [OF pma.frames_finite some(2)] by simp
    ultimately show ?thesis using keep by (intro ok [of f ?s'])
  qed
qed

section \<open>Writing a leaf entry\<close>

text \<open>What every operation keeps: the root and the memory of the clients.\<close>

definition data_kept :: "vm_t \<Rightarrow> vm_t \<Rightarrow> bool" where
  "data_kept s s' \<longleftrightarrow>
     pml4 (vmm s') = pml4 (vmm s) \<and> pml4_phys (vmm s') = pml4_phys (vmm s) \<and>
     data_frames (pml4_phys (vmm s)) s' = data_frames (pml4_phys (vmm s)) s \<and>
     (\<forall>f \<in> data_frames (pml4_phys (vmm s)) s. \<forall>x \<in> region f 4096.
        phys_mem (ram s') x = phys_mem (ram s) x)"

lemma data_kept_refl [simp]: "data_kept s s"
  by (simp add: data_kept_def)

lemma data_kept_trans: "data_kept s s' \<Longrightarrow> data_kept s' s'' \<Longrightarrow> data_kept s s''"
  by (auto simp: data_kept_def)

lemma vm_keeps_data: "vm_keeps r s s' \<Longrightarrow> pml4_phys (vmm s) = r \<Longrightarrow> data_kept s s'"
  by (auto simp: vm_keeps_def data_kept_def)

lemma counter_irrelevant [simp]:
  "pages (s\<lparr>vmm := (vmm s)\<lparr>mapped := k\<rparr>\<rparr>) = pages s"
  "vm_tree r (s\<lparr>vmm := (vmm s)\<lparr>mapped := k\<rparr>\<rparr>) = vm_tree r s"
  "data_kept s' (s\<lparr>vmm := (vmm s)\<lparr>mapped := k\<rparr>\<rparr>) = data_kept s' s"
  by (rule ext, simp add: pages_def vm_tables_def split: cptr.split)
    (simp_all add: vm_tree_def vm_tables_def used_frames_def data_kept_def data_frames_def table_frames_def)

lemma dom_pages: "dom (pages s) \<subseteq> {..<2 ^ 36}"
  by (auto simp: pages_def split: if_splits)

lemma finite_dom_pages [simp]: "finite (dom (pages s))"
  using dom_pages by (rule finite_subset) simp

lemma card_dom_pages: "card (dom (pages s)) \<le> 2 ^ 36"
  using card_mono [OF _ dom_pages] by simp

lemma leaf_write:
  assumes tree: "vm_tree r s" and w: "walk (vm_tables s) r (table_path n) = Some t"
    and n: "n < 2 ^ 36" "unat i = n mod 512" and root: "pml4 (vmm s) = PhysMem r" "pml4_phys (vmm s) = r"
  obtains ph where "write_pte s (PhysMem t) i e = Some (s\<lparr>ram := ph\<rparr>)" "vm_tree r (s\<lparr>ram := ph\<rparr>)"
    "pages (s\<lparr>ram := ph\<rparr>) = (pages s)(n := if present e then Some e else None)"
    "free_frames ph = free_frames (ram s)" "data_kept s (s\<lparr>ram := ph\<rparr>)"
proof -
  have i: "unat i < 512" using n by simp
  have tp: "t \<in> page_frames" using walk_frame [OF tree w] by simp
  obtain ph where wr: "write_pte s (PhysMem t) i e = Some (s\<lparr>ram := ph\<rparr>)" "pmm ph = pmm (ram s)"
      "tables_of (phys_mem ph) = set_entry (tables_of (phys_mem (ram s))) t (unat i) e"
      "\<And>x. x \<notin> region t 4096 \<Longrightarrow> phys_mem ph x = phys_mem (ram s) x"
    using write_pte_table [OF tp i, of s e] by auto
  let ?s = "s\<lparr>ram := ph\<rparr>"
  have T: "vm_tables ?s = set_entry (vm_tables s) t (n mod 512) e"
    using wr(3) n(2) by (simp add: vm_tables_def)
  have fr: "free_frames ph = free_frames (ram s)" by (simp add: free_frames_def wr(2))
  have used: "used_frames ?s = used_frames s" by (simp add: used_frames_def fr)
  have pt: "pt_tree (vm_tables s) r (used_frames s)" using tree by (simp add: vm_tree_def)
  have tree': "vm_tree r ?s"
    using pt_tree_set_leaf [OF pt w] tree by (simp add: vm_tree_def used T wr(2))
  have "table_frames r ?s = table_frames r s"
    using walk_set_leaf [OF pt w] by (auto simp: table_frames_def T)
  then have data: "data_frames r ?s = data_frames r s" by (simp add: data_frames_def used)
  have td: "t \<notin> data_frames r s"
    using w by (auto simp: data_frames_def intro: walk_table_frame)
  have "pages ?s m = ((pages s)(n := if present e then Some e else None)) m" for m
    using leaf_set_leaf [OF pt w, of "table_path m" "n mod 512" e "m mod 512"] n(1) table_path_inj [of m n]
    by (auto simp: pages_def T root)
  then have "pages ?s = (pages s)(n := if present e then Some e else None)" by (rule ext)
  moreover have "data_kept s ?s"
    using data wr(4) data_outside_table [OF _ tp td] by (auto simp: data_kept_def root(2))
  ultimately show ?thesis using wr(1) tree' fr by (intro that)
qed

section \<open>Map\<close>

lemma vm_wf_counter:
  assumes "unat (mapped (vmm s)) = card (dom (pages s))"
  shows "pages s n = None \<Longrightarrow> unat (mapped (vmm s) + 1) = card (insert n (dom (pages s)))"
    "pages s n \<noteq> None \<Longrightarrow> unat (mapped (vmm s) - 1) = card (dom (pages s) - {n})"
proof -
  assume "pages s n = None"
  moreover have "unat (mapped (vmm s) + 1) = unat (mapped (vmm s)) + 1"
    using card_dom_pages [of s] assms unat_add_no_wrap [of "mapped (vmm s)" 1] by simp
  ultimately show "unat (mapped (vmm s) + 1) = card (insert n (dom (pages s)))"
    using assms by (simp add: domIff)
next
  assume n: "pages s n \<noteq> None"
  then have "card (dom (pages s)) \<noteq> 0" by auto
  then have "mapped (vmm s) \<noteq> 0" using assms by auto
  then show "unat (mapped (vmm s) - 1) = card (dom (pages s) - {n})"
    using n assms by (simp add: unat_minus_one domIff)
qed

lemma pages_walk_None:
  "walk (vm_tables s) r p = None \<Longrightarrow> table_path n = p @ q \<Longrightarrow> pml4 (vmm s) = PhysMem r \<Longrightarrow> pages s n = None"
  by (simp add: pages_def leaf_def walk_append)

text \<open>The three calls of \<open>get_or_create_table\<close>, one per index.\<close>

primrec create_path :: "u64 list \<Rightarrow> vm_t \<Rightarrow> cptr \<Rightarrow> (cptr \<times> vm_t) option" where
  "create_path [] s t = Some (t, s)"
| "create_path (i # is) s t = do {
     (u, s) \<leftarrow> get_or_create_table s t i table_flags;
     if u = NULL then Some (NULL, s) else create_path is s u }"

lemma vmm_map_path:
  assumes "pml4 (vmm s) \<noteq> NULL"
  shows "vmm_map s virt phys flags = do {
     let v = ALIGN_DOWN virt PAGE_SIZE;
     (pt, s) \<leftarrow> create_path [PML4_INDEX v, PDPT_INDEX v, PD_INDEX v] s (pml4 (vmm s));
     if pt = NULL then Some (- 1, s)
     else do {
       e \<leftarrow> read_pte s pt (PT_INDEX v);
       s \<leftarrow> write_pte s pt (PT_INDEX v) (mk_pte phys flags);
       Some (0, if present e then s else s\<lparr>vmm := (vmm s)\<lparr>mapped := mapped (vmm s) + 1\<rparr>\<rparr>) } }"
  using assms
  by (auto simp: vmm_map_def Let_def mk_pte_def present_def split: prod.split intro!: bind_option_cong)

lemma create_path_cases:
  assumes "vm_tree r s" "walk (vm_tables s) r p = Some t" "length p + length is = 3"
    "\<forall>i \<in> set is. unat i < 512"
  shows "(\<exists>s'. create_path is s (PhysMem t) = Some (NULL, s') \<and> vm_keeps r s s' \<and>
        free_frames (ram s') = {} \<and> walk (vm_tables s') r (p @ map unat is) = None \<and>
        card (free_frames (ram s)) < length is) \<or>
     (\<exists>u s'. create_path is s (PhysMem t) = Some (PhysMem u, s') \<and> vm_keeps r s s' \<and>
        walk (vm_tables s') r (p @ map unat is) = Some u)"
  using assms
proof (induction "is" arbitrary: s p t)
  case Nil
  then show ?case by auto
next
  case (Cons i "is")
  have p: "length p < 3" and i: "unat i < 512" using Cons.prems(3,4) by simp_all
  show ?case
  proof (cases rule: get_or_create [OF Cons.prems(1,2) p i])
    case 1
    then have "walk (vm_tables s) r (p @ unat i # map unat is) = None"
      using walk_append [of "vm_tables s" r "p @ [unat i]" "map unat is"] by simp
    then show ?thesis using 1 vm_keeps_refl [OF Cons.prems(1)] by simp
  next
    case (2 u s1)
    have tree: "vm_tree r s1" using 2(3) by (rule vm_keeps_tree)
    have "length (p @ [unat i]) + length is = 3" "\<forall>i \<in> set is. unat i < 512"
      using Cons.prems(3,4) by simp_all
    from Cons.IH [OF tree 2(2) this] show ?thesis
    proof (elim disjE exE conjE)
      fix s' assume "create_path is s1 (PhysMem u) = Some (NULL, s')" "vm_keeps r s1 s'"
        "free_frames (ram s') = {}" "walk (vm_tables s') r ((p @ [unat i]) @ map unat is) = None"
        "card (free_frames (ram s1)) < length is"
      then show ?thesis using 2 vm_keeps_trans [OF 2(3), of s'] by (intro disjI1 exI [of _ s']) simp
    next
      fix v s' assume "create_path is s1 (PhysMem u) = Some (PhysMem v, s')" "vm_keeps r s1 s'"
        "walk (vm_tables s') r ((p @ [unat i]) @ map unat is) = Some v"
      then show ?thesis
        using 2 vm_keeps_trans [OF 2(3), of s'] by (intro disjI2 exI [of _ v] exI [of _ s']) simp
    qed
  qed
qed

lemma vm_wfE:
  assumes "vm_wf s"
  obtains r where "pml4 (vmm s) = PhysMem r" "pml4_phys (vmm s) = r" "vm_tree r s"
    "unat (mapped (vmm s)) = card (dom (pages s))"
  using assms by (auto simp: vm_wf_def)

lemma vm_keeps_wf:
  assumes "vm_keeps r s s'" "vm_wf s" "pml4_phys (vmm s) = r"
  shows "vm_wf s'" "pages s' = pages s" "data_kept s s'"
  using assms vm_keeps_pages [OF assms(1)] vm_keeps_data [OF assms(1)]
  by (auto simp: vm_wf_def vm_keeps_def)

lemma vpn_path:
  "table_path (vpn va) = map unat [PML4_INDEX va, PDPT_INDEX va, PD_INDEX va]"
  by (simp add: table_path_vpn)

lemma pages_walk:
  "pml4 (vmm s) = PhysMem r \<Longrightarrow> n < 2 ^ 36 \<Longrightarrow> walk (vm_tables s) r (table_path n) = Some t \<Longrightarrow>
     pages s n = (if present (vm_tables s t (n mod 512)) then Some (vm_tables s t (n mod 512)) else None)"
  by (simp add: pages_def leaf_def)

text \<open>Writing the leaf entry and counting it, with the table already in place.\<close>

lemma map_leaf:
  assumes "vm_wf s" "pml4_phys (vmm s) = r" "walk (vm_tables s) r (table_path (vpn v)) = Some t"
  obtains s' where "do {
       e \<leftarrow> read_pte s (PhysMem t) (PT_INDEX v);
       s \<leftarrow> write_pte s (PhysMem t) (PT_INDEX v) (mk_pte phys flags);
       Some (0::int, if present e then s else s\<lparr>vmm := (vmm s)\<lparr>mapped := mapped (vmm s) + 1\<rparr>\<rparr>) } =
         Some (0, s')"
    "vm_wf s'" "pages s' = (pages s)(vpn v \<mapsto> mk_pte phys flags)" "data_kept s s'"
proof -
  from assms(1,2) have root: "pml4 (vmm s) = PhysMem r" and tree: "vm_tree r s"
    and cnt: "unat (mapped (vmm s)) = card (dom (pages s))" by (auto simp: vm_wf_def)
  have l1: "unat (PT_INDEX v) = vpn v mod 512" by (simp add: index_vpn)
  from tree assms(3) vpn_less l1 root assms(2) obtain ph where wr:
    "write_pte s (PhysMem t) (PT_INDEX v) (mk_pte phys flags) = Some (s\<lparr>ram := ph\<rparr>)" "vm_tree r (s\<lparr>ram := ph\<rparr>)"
    "pages (s\<lparr>ram := ph\<rparr>) = (pages s)(vpn v := if present (mk_pte phys flags) then Some (mk_pte phys flags) else None)"
    "free_frames ph = free_frames (ram s)" "data_kept s (s\<lparr>ram := ph\<rparr>)"
    by (rule leaf_write)
  let ?e = "vm_tables s t (vpn v mod 512)" and ?s = "s\<lparr>ram := ph\<rparr>"
  have rd: "read_pte s (PhysMem t) (PT_INDEX v) = Some ?e"
    using read_entry [OF tree assms(3) _ index_bound(4) [of v]] l1 by simp
  have pg: "pages s (vpn v) = (if present ?e then Some ?e else None)"
    using root vpn_less assms(3) by (rule pages_walk)
  have dom: "dom (pages ?s) = insert (vpn v) (dom (pages s))" by (simp add: wr(3))
  show ?thesis
  proof (cases "present ?e")
    case True
    then have "vm_wf ?s" using pg cnt wr(2) root assms(2) dom by (simp add: vm_wf_def insert_absorb domI)
    then show ?thesis using True rd wr by (intro that [of ?s]) simp_all
  next
    case False
    let ?s' = "?s\<lparr>vmm := (vmm ?s)\<lparr>mapped := mapped (vmm ?s) + 1\<rparr>\<rparr>"
    have "vm_wf ?s'"
      using False pg wr(2) root assms(2) vm_wf_counter(1) [OF cnt, of "vpn v"]
      unfolding vm_wf_def counter_irrelevant dom by simp
    then show ?thesis
      using False rd wr by (intro that [of ?s']) (simp_all only: counter_irrelevant, simp_all)
  qed
qed

lemma vmm_map_cases:
  assumes wf: "vm_wf s"
  obtains (ok) s' where "vmm_map s virt phys flags = Some (0, s')" "vm_wf s'"
      "pages s' = (pages s)(vpn virt \<mapsto> mk_pte phys flags)" "data_kept s s'"
    | (oom) s' where "vmm_map s virt phys flags = Some (- 1, s')" "vm_wf s'" "pages s' = pages s"
      "data_kept s s'" "free_frames (ram s') = {}" "vpn virt \<notin> dom (pages s)"
      "card (free_frames (ram s)) < 3"
proof -
  from wf obtain r where r: "pml4 (vmm s) = PhysMem r" "pml4_phys (vmm s) = r" "vm_tree r s"
    by (rule vm_wfE)
  let ?v = "ALIGN_DOWN virt PAGE_SIZE"
  let ?is = "[PML4_INDEX ?v, PDPT_INDEX ?v, PD_INDEX ?v]"
  have path: "table_path (vpn ?v) = [] @ map unat ?is" by (simp only: append_Nil vpn_path)
  have "\<forall>i \<in> set ?is. unat i < 512" using index_bound [of ?v] by simp
  with r(3) consider
      (none) s' where "create_path ?is s (PhysMem r) = Some (NULL, s')" "vm_keeps r s s'"
        "free_frames (ram s') = {}" "walk (vm_tables s') r (table_path (vpn ?v)) = None"
        "card (free_frames (ram s)) < length ?is"
    | (some) u s' where "create_path ?is s (PhysMem r) = Some (PhysMem u, s')" "vm_keeps r s s'"
        "walk (vm_tables s') r (table_path (vpn ?v)) = Some u"
    unfolding path using create_path_cases [of r s "[]" r ?is] by auto
  then show ?thesis
  proof cases
    case none
    note keep = vm_keeps_wf [OF none(2) wf r(2)]
    have "pml4 (vmm s') = PhysMem r" using r(1) keep(3) by (simp add: data_kept_def)
    then have "pages s' (vpn ?v) = None" using none(4) by (simp add: pages_def leaf_def)
    then have "vpn virt \<notin> dom (pages s)" using keep(2) by (simp add: domIff)
    moreover have "vmm_map s virt phys flags = Some (- 1, s')"
      using none(1) r(1) by (simp add: vmm_map_path Let_def del: create_path.simps)
    ultimately show ?thesis using keep none by (intro oom [of s']) simp_all
  next
    case some
    note keep = vm_keeps_wf [OF some(2) wf r(2)]
    have "pml4_phys (vmm s') = r" using r(2) keep(3) by (simp add: data_kept_def)
    from keep(1) this some(3) obtain s2 where s2: "do {
       e \<leftarrow> read_pte s' (PhysMem u) (PT_INDEX ?v);
       s \<leftarrow> write_pte s' (PhysMem u) (PT_INDEX ?v) (mk_pte phys flags);
       Some (0::int, if present e then s else s\<lparr>vmm := (vmm s)\<lparr>mapped := mapped (vmm s) + 1\<rparr>\<rparr>) } =
         Some (0, s2)"
    "vm_wf s2" "pages s2 = (pages s')(vpn ?v \<mapsto> mk_pte phys flags)" "data_kept s' s2"
      by (rule map_leaf)
    have "vmm_map s virt phys flags = Some (0, s2)"
      using some(1) r(1) s2(1) by (simp add: vmm_map_path Let_def del: create_path.simps)
    then show ?thesis using s2 keep data_kept_trans [OF keep(3)] by (intro ok [of s2]) simp_all
  qed
qed

section \<open>Walk, unmap and translate\<close>

lemma walk_table_walk:
  assumes "vm_tree r s" "pml4 (vmm s) = PhysMem r"
  shows "walk_table s v =
    Some (case walk (vm_tables s) r (table_path (vpn v)) of None \<Rightarrow> NULL | Some t \<Rightarrow> PhysMem t)"
proof -
  let ?T = "vm_tables s" and ?l4 = "unat (PML4_INDEX v)" and ?l3 = "unat (PDPT_INDEX v)"
    and ?l2 = "unat (PD_INDEX v)"
  note [simp] = assms(2) walk_table_def Let_def entry_test table_path_vpn
  note rd = read_entry [OF assms(1)] and fr = phys_to_virt_frame [OF walk_frame [OF assms(1)]]
  note i = index_bound [of v]
  have 1: "read_pte s (PhysMem r) (PML4_INDEX v) = Some (?T r ?l4)" using rd [of "[]" r] i by simp
  show ?thesis
  proof (cases "present (?T r ?l4)")
    case p4: True
    let ?t3 = "?T r ?l4 AND PTE_ADDR_MASK"
    have w3: "walk ?T r [?l4] = Some ?t3" using p4 by simp
    have 2: "read_pte s (PhysMem ?t3) (PDPT_INDEX v) = Some (?T ?t3 ?l3)" using rd [OF w3] i by simp
    show ?thesis
    proof (cases "present (?T ?t3 ?l3)")
      case p3: True
      let ?t2 = "?T ?t3 ?l3 AND PTE_ADDR_MASK"
      have w2: "walk ?T r [?l4, ?l3] = Some ?t2" using p4 p3 by simp
      have 3: "read_pte s (PhysMem ?t2) (PD_INDEX v) = Some (?T ?t2 ?l2)" using rd [OF w2] i by simp
      show ?thesis using 1 2 3 p4 p3 fr [OF w3] fr [OF w2] fr [of "[?l4, ?l3, ?l2]"] by simp
    qed (use 1 2 p4 fr [OF w3] in simp)
  qed (use 1 in simp)
qed

lemma vmm_translate_pages:
  assumes "vm_wf s"
  shows "vmm_translate s v =
    Some (case pages s (vpn v) of None \<Rightarrow> - 1 | Some e \<Rightarrow> (e AND PTE_ADDR_MASK) OR PAGE_OFFSET v)"
proof -
  from assms obtain r where r: "pml4 (vmm s) = PhysMem r" "vm_tree r s" by (rule vm_wfE) blast
  have l1: "unat (PT_INDEX v) = vpn v mod 512" by (simp add: index_vpn)
  show ?thesis
  proof (cases "walk (vm_tables s) r (table_path (vpn v))")
    case None
    then show ?thesis
      using r by (simp add: vmm_translate_def walk_table_walk pages_def leaf_def)
  next
    case (Some t)
    then show ?thesis
      using r read_entry [OF r(2) Some _ index_bound(4) [of v]] pages_walk [OF r(1) vpn_less Some] l1
      by (simp add: vmm_translate_def walk_table_walk entry_test)
  qed
qed

lemma vmm_unmap_cases:
  assumes wf: "vm_wf s"
  obtains (ok) s' where "vmm_unmap s v = Some (0, s')" "vm_wf s'" "vpn v \<in> dom (pages s)"
      "pages s' = (pages s)(vpn v := None)" "data_kept s s'" "free_frames (ram s') = free_frames (ram s)"
    | (unmapped) "vmm_unmap s v = Some (- 1, s)" "vpn v \<notin> dom (pages s)"
proof -
  from wf obtain r where r: "pml4 (vmm s) = PhysMem r" "pml4_phys (vmm s) = r" "vm_tree r s"
    and cnt: "unat (mapped (vmm s)) = card (dom (pages s))" by (rule vm_wfE)
  let ?v = "ALIGN_DOWN v PAGE_SIZE"
  have l1: "unat (PT_INDEX ?v) = vpn v mod 512" by (simp add: index_vpn)
  show ?thesis
  proof (cases "pages s (vpn v)")
    case None
    have "vmm_unmap s v = Some (- 1, s)"
      using None r pages_walk [OF r(1) vpn_less, of v] read_entry [OF r(3), of "table_path (vpn v)" _ "PT_INDEX ?v"]
        index_bound(4) [of ?v] l1
      by (auto simp: vmm_unmap_def walk_table_walk entry_test split: option.split if_splits)
    then show ?thesis using None by (intro unmapped) (simp_all add: domIff)
  next
    case (Some e)
    then obtain t where t: "walk (vm_tables s) r (table_path (vpn v)) = Some t"
      using r(1) by (auto simp: pages_def leaf_def split: if_splits option.splits)
    from r(3) t vpn_less l1 r(1,2) obtain ph where wr:
      "write_pte s (PhysMem t) (PT_INDEX ?v) 0 = Some (s\<lparr>ram := ph\<rparr>)" "vm_tree r (s\<lparr>ram := ph\<rparr>)"
      "pages (s\<lparr>ram := ph\<rparr>) = (pages s)(vpn v := if present 0 then Some 0 else None)"
      "free_frames ph = free_frames (ram s)" "data_kept s (s\<lparr>ram := ph\<rparr>)"
      by (rule leaf_write)
    let ?s = "s\<lparr>ram := ph\<rparr>" let ?s' = "?s\<lparr>vmm := (vmm ?s)\<lparr>mapped := mapped (vmm ?s) - 1\<rparr>\<rparr>"
    have "present (vm_tables s t (vpn v mod 512))"
      using Some pages_walk [OF r(1) vpn_less t] by (auto split: if_splits)
    then have run: "vmm_unmap s v = Some (0, ?s')"
      using r wr(1) t read_entry [OF r(3) t _ index_bound(4) [of ?v]] l1
      by (simp add: vmm_unmap_def walk_table_walk entry_test)
    have "vm_wf ?s'"
      using Some wr(2,3) r vm_wf_counter(2) [OF cnt, of "vpn v"]
      unfolding vm_wf_def counter_irrelevant by simp
    moreover have "pages ?s' = (pages s)(vpn v := None)" "data_kept s ?s'"
      unfolding counter_irrelevant using wr(3,5) by simp_all
    ultimately show ?thesis using run Some wr(4) by (intro ok [of ?s']) (simp_all add: domI)
  qed
qed

section \<open>Initialisation\<close>

lemma vmm_init_cases:
  assumes "pmm_wf (pmm ph)"
  obtains (ok) s where "vmm_init ph = Some s" "vm_wf s" "pages s = Map.empty"
      "pml4_phys (vmm s) \<in> free_frames ph" "free_frames (ram s) = free_frames ph - {pml4_phys (vmm s)}"
    | (oom) s where "vmm_init ph = Some s" "pml4 (vmm s) = NULL" "ram s = ph" "free_frames ph = {}"
  using assms
proof (cases rule: pma.alloc_cases)
  case none
  then show ?thesis
    by (intro oom [of "\<lparr>vmm = \<lparr>pml4 = NULL, pml4_phys = - 1, mapped = 0\<rparr>, ram = ph\<rparr>"])
      (simp_all add: vmm_init_def)
next
  case (some f ph')
  let ?s = "\<lparr>vmm = \<lparr>pml4 = PhysMem f, pml4_phys = f, mapped = 0\<rparr>, ram = ph'\<rparr>"
  have fp: "f \<in> page_frames" using some(2) free_frames_page_frames by blast
  have "phys_mem ph' = (\<lambda>x. if x \<in> region f 4096 then 0 else phys_mem ph x)"
    using pma.alloc_zeroed [OF assms some(1,3)] .
  then have T: "vm_tables ?s f = (\<lambda>_. 0)" by (simp add: vm_tables_def tables_of_zero [OF fp])
  then have "pages ?s = Map.empty" by (simp add: pages_def fun_eq_iff leaf_fresh)
  moreover have "f \<in> used_frames ?s" using fp some(4) by (simp add: used_frames_def)
  ultimately have "vm_wf ?s"
    using pt_tree_fresh [of "vm_tables ?s" f, OF T] some(5) by (simp add: vm_wf_def vm_tree_def)
  moreover have "vmm_init ph = Some ?s"
    using some by (simp add: vmm_init_def phys_to_virt_frame [OF fp])
  ultimately show ?thesis
    using \<open>pages ?s = Map.empty\<close> some by (intro ok [of ?s]) simp_all
qed

end
