(* ===== verification/Vmm_Properties.thy ===== *)
theory Vmm_Properties
  imports Vmm_Space
begin

text \<open>
  The page tables of \<^verbatim>\<open>vmm/vmm.c\<close> meet the address-space contract, and the properties of the
  operations. The concrete inputs are the kernel's own memory map: the state after
  \<open>pmm_init\<close> on it and \<open>vmm_init\<close>.
\<close>

section \<open>The contract\<close>

interpretation vms: address_space_ranges vmm_map vmm_unmap vmm_translate pages vm_wf
  "\<lambda>s. free_frames (ram s) = {}" vmm_map_loop vmm_unmap_loop
proof
  fix s v p f
  assume wf: "vm_wf s"
  show "\<exists>s'. vm_wf s' \<and>
      (vmm_map s v p f = Some (0, s') \<and> pages s' = (pages s)(vpn v \<mapsto> mk_pte p f) \<or>
       vmm_map s v p f = Some (- 1, s') \<and> pages s' = pages s \<and> free_frames (ram s') = {} \<and>
       vpn v \<notin> dom (pages s))"
    by (cases rule: vmm_map_cases [OF wf, of v p f]) blast+
  show "\<exists>s'. vm_wf s' \<and> pages s' = (pages s)(vpn v := None) \<and>
      vmm_unmap s v = Some (if vpn v \<in> dom (pages s) then 0 else - 1, s')"
    using wf by (cases rule: vmm_unmap_cases [OF wf, of v]) (auto simp: fun_eq_iff intro!: exI [of _ s])
  show "vmm_translate s v = Some (case pages s (vpn v) of None \<Rightarrow> - 1 | Some e \<Rightarrow> target e v)"
    by (simp add: vmm_translate_pages [OF wf] target_def split: option.split)
qed (simp_all add: Option.bind_def split: option.split)

section \<open>The booted system\<close>

definition boot_vm :: vm_t where
  "boot_vm = the (vmm_init boot_phys)"

lemma boot_vm:
  "vmm_init boot_phys = Some boot_vm" "vm_wf boot_vm" "pages boot_vm = Map.empty"
  "card (free_frames (ram boot_vm)) = 14751"
proof -
  have free: "0 \<in> free_set (bitmap (pmm boot_phys))" by (rule boot_free)
  have "free_frames boot_phys \<noteq> {}" using free by (auto simp: free_frames_def)
  then obtain s where s: "vmm_init boot_phys = Some s" "vm_wf s" "pages s = Map.empty"
    "pml4_phys (vmm s) \<in> free_frames boot_phys"
    "free_frames (ram s) = free_frames boot_phys - {pml4_phys (vmm s)}"
    by (cases rule: vmm_init_cases [OF boot_phys_wf]) blast+
  have "inj_on page_addr (free_set (bitmap (pmm boot_phys)))"
    by (auto simp: inj_on_def dest!: free_set_bound)
  then have "card (free_frames boot_phys) = 14752"
    using boot_free_count by (simp add: free_frames_def card_image boot_phys_def)
  with s show "vmm_init boot_phys = Some boot_vm" "vm_wf boot_vm" "pages boot_vm = Map.empty"
    "card (free_frames (ram boot_vm)) = 14751"
    by (simp_all add: boot_vm_def)
qed

text \<open>With frames to spare, mapping succeeds.\<close>

lemma vmm_map_success:
  assumes "vm_wf s" "3 \<le> card (free_frames (ram s))"
  obtains s' where "vmm_map s v p f = Some (0, s')" "vm_wf s'" "pages s' = (pages s)(vpn v \<mapsto> mk_pte p f)"
  using assms by (cases rule: vmm_map_cases [OF assms(1), of v p f]) auto

definition boot_mapped :: vm_t where
  "boot_mapped = snd (the (vmm_map boot_vm 0x400000 0x200000 7))"

lemma boot_mapped:
  "vmm_map boot_vm 0x400000 0x200000 7 = Some (0, boot_mapped)" "vm_wf boot_mapped"
  "pages boot_mapped = [0x400 \<mapsto> mk_pte 0x200000 7]"
proof -
  have v: "vpn 0x400000 = 0x400" by (simp add: vpn_def)
  obtain s where "vmm_map boot_vm 0x400000 0x200000 7 = Some (0, s)" "vm_wf s"
    "pages s = (pages boot_vm)(vpn 0x400000 \<mapsto> mk_pte 0x200000 7)"
    by (rule vmm_map_success [OF boot_vm(2), of "0x400000" "0x200000" 7]) (simp add: boot_vm(4))
  then show "vmm_map boot_vm 0x400000 0x200000 7 = Some (0, boot_mapped)" "vm_wf boot_mapped"
    "pages boot_mapped = [0x400 \<mapsto> mk_pte 0x200000 7]"
    by (simp_all add: boot_mapped_def boot_vm(3) v)
qed

section \<open>Properties\<close>

text \<open>
  Initialisation. On a well-formed allocator \<open>vmm_init\<close> never faults. If a frame is free it
  takes one for the root table and gives a well-formed state with an empty address space;
  otherwise it leaves the allocator alone and the root pointer null.
\<close>

theorem vmm_init_correct:
  assumes "pmm_wf (pmm ph)"
  shows "\<exists>s. vmm_init ph = Some s \<and>
    (if free_frames ph = {} then pml4 (vmm s) = NULL \<and> ram s = ph
     else vm_wf s \<and> pages s = Map.empty \<and> pml4_phys (vmm s) \<in> free_frames ph \<and>
          free_frames (ram s) = free_frames ph - {pml4_phys (vmm s)})"
  by (cases rule: vmm_init_cases [OF assms]) auto

theorem vmm_init_correct_witness:
  "pmm_wf (pmm boot_phys) \<and> (\<exists>s. vmm_init boot_phys = Some s \<and> vm_wf s \<and> pages s = Map.empty)"
proof -
  have "free_frames boot_phys \<noteq> {}" using boot_free by (auto simp: free_frames_def)
  then show ?thesis using vmm_init_correct [OF boot_phys_wf] boot_phys_wf by auto
qed

text \<open>
  C3. Mapping refines an update of the address space. On a well-formed state \<open>vmm_map\<close> never
  faults and returns either 0, with the page of \<open>virt\<close> now mapped to the new entry and no other
  page changed, or \<open>-1\<close>, with no mapping changed; it fails only when the page was unmapped,
  fewer than three frames were free and all of them are now tables. Either way the invariant
  holds again (so \<open>mapped\<close> still counts the mapped pages) and the memory of every frame that is
  in use and is not a page table is untouched.
\<close>

theorem vmm_map_refines:
  assumes "vm_wf s"
  shows "\<exists>s'. vm_wf s' \<and> data_kept s s' \<and>
    (vmm_map s virt phys flags = Some (0, s') \<and> pages s' = (pages s)(vpn virt \<mapsto> mk_pte phys flags) \<or>
     vmm_map s virt phys flags = Some (- 1, s') \<and> pages s' = pages s \<and> free_frames (ram s') = {} \<and>
     vpn virt \<notin> dom (pages s) \<and> card (free_frames (ram s)) < 3)"
  by (cases rule: vmm_map_cases [OF assms, of virt phys flags]) blast+

theorem vmm_map_refines_witness:
  "vm_wf boot_vm \<and> (\<exists>s'. vm_wf s' \<and> data_kept boot_vm s' \<and>
     vmm_map boot_vm 0x400000 0x200000 7 = Some (0, s') \<and> pages s' = [0x400 \<mapsto> mk_pte 0x200000 7])"
  using vmm_map_refines [OF boot_vm(2), of "0x400000" "0x200000" 7] boot_vm
  by (auto simp: vpn_def)

text \<open>
  Translation after mapping. When \<open>vmm_map\<close> returns 0 and the flags stay clear of the
  address bits, every address of the mapped page translates to the physical page plus its offset
  in the page, and every other address translates as before.
\<close>

theorem vmm_map_translate:
  assumes "vm_wf s" "vmm_map s virt phys flags = Some (0, s')"
    "flags AND PTE_ADDR_MASK = 0" "unat phys < 2 ^ 52"
  shows "vmm_translate s' w =
    (if vpn w = vpn virt then Some (ALIGN_DOWN phys PAGE_SIZE + PAGE_OFFSET w) else vmm_translate s w)"
  using assms by (rule vms.map_translate)

theorem vmm_map_translate_witness:
  "vmm_map boot_vm 0x400000 0x200000 7 = Some (0, boot_mapped) \<and>
   vmm_translate boot_mapped 0x400123 = Some 0x200123"
proof -
  have "vmm_translate boot_mapped 0x400123 =
      (if vpn 0x400123 = vpn 0x400000 then Some (ALIGN_DOWN 0x200000 PAGE_SIZE + PAGE_OFFSET 0x400123)
       else vmm_translate boot_vm 0x400123)"
    by (rule vmm_map_translate [OF boot_vm(2) boot_mapped(1)]) (simp_all add: PTE_ADDR_MASK_def)
  then show ?thesis
    using boot_mapped(1) by (simp add: vpn_def ALIGN_DOWN_def PAGE_OFFSET_def PAGE_SIZE_def)
qed

text \<open>
  Unmapping. \<open>vmm_unmap\<close> never faults; on a mapped page it returns 0 and removes exactly that
  page, on an unmapped one it returns \<open>-1\<close> and changes nothing. No table frame is given back, the
  invariant is kept, and the memory of the clients is untouched.
\<close>

theorem vmm_unmap_correct:
  assumes "vm_wf s"
  shows "\<exists>s'. vm_wf s' \<and> pages s' = (pages s)(vpn virt := None) \<and> data_kept s s' \<and>
    free_frames (ram s') = free_frames (ram s) \<and>
    (if vpn virt \<in> dom (pages s) then vmm_unmap s virt = Some (0, s')
     else vmm_unmap s virt = Some (- 1, s') \<and> s' = s)"
  using assms
  by (cases rule: vmm_unmap_cases [OF assms, of virt]) (auto simp: fun_eq_iff intro!: exI [of _ s])

theorem vmm_unmap_correct_witness:
  "vm_wf boot_mapped \<and>
   (\<exists>s'. vmm_unmap boot_mapped 0x400FFF = Some (0, s') \<and> vm_wf s' \<and> pages s' = Map.empty)"
  using vmm_unmap_correct [OF boot_mapped(2), of "0x400FFF"] boot_mapped by (auto simp: vpn_def)

text \<open>
  C15. Map and unmap are inverse. Mapping an unmapped page and unmapping it again returns 0 and
  restores the address space, so that every address translates as before and \<open>mapped\<close> has its
  old value.
\<close>

theorem vmm_map_unmap_roundtrip:
  assumes "vm_wf s" "vpn virt \<notin> dom (pages s)" "vmm_map s virt phys flags = Some (0, s1)"
  shows "\<exists>s2. vmm_unmap s1 virt = Some (0, s2) \<and> vm_wf s2 \<and> pages s2 = pages s \<and>
    mapped (vmm s2) = mapped (vmm s) \<and> (\<forall>w. vmm_translate s2 w = vmm_translate s w)"
proof -
  obtain s2 where s2: "vmm_unmap s1 virt = Some (0, s2)" "vm_wf s2" "pages s2 = pages s"
    using vms.map_unmap [OF assms] by blast
  have "unat (mapped (vmm s2)) = unat (mapped (vmm s))"
    using assms(1) s2(2,3) by (simp add: vm_wf_def)
  then have "mapped (vmm s2) = mapped (vmm s)" by (simp only: word_unat_eq_iff)
  then show ?thesis using s2 assms(1) by (simp add: vms.translate_law)
qed

theorem vmm_map_unmap_roundtrip_witness:
  "\<exists>s2. vmm_unmap boot_mapped 0x400000 = Some (0, s2) \<and> pages s2 = Map.empty"
  using vmm_map_unmap_roundtrip [OF boot_vm(2) _ boot_mapped(1)] boot_vm(3) by auto

text \<open>
  C16. Mapping a range. \<open>vmm_map_range\<close> never faults. It returns 0 with every page of the range
  mapped to the corresponding physical page, or \<open>-1\<close> when the frames ran out, with a prefix of
  the range mapped; pages outside the range are never touched.
\<close>

theorem vmm_map_range_correct:
  assumes "vm_wf s" "unat n \<le> 2 ^ 36"
  shows "\<exists>r s' j. vmm_map_range s virt phys n flags = Some (r, s') \<and> vm_wf s' \<and>
    (r = 0 \<and> j = unat n \<or> r = - 1 \<and> j < unat n \<and> free_frames (ram s') = {}) \<and>
    (\<forall>i<j. pages s' (vpn (virt + of_nat i * PAGE_SIZE)) = Some (mk_pte (phys + of_nat i * PAGE_SIZE) flags)) \<and>
    (\<forall>m. (\<forall>i<j. m \<noteq> vpn (virt + of_nat i * PAGE_SIZE)) \<longrightarrow> pages s' m = pages s m)"
proof -
  from vms.map_loop_run [OF assms(1), of 0 virt phys flags "pages s" "unat n"]
  obtain r s' j where run: "vmm_map_loop (unat n) 0 s virt phys flags = Some (r, s')" "vm_wf s'"
    "j \<le> unat n" "pages s' = map_run j virt phys flags (pages s)"
    "r = 0 \<and> j = unat n \<or> r = - 1 \<and> j < unat n \<and> free_frames (ram s') = {}" by auto
  moreover have "j \<le> 2 ^ 36" using run(3) assms(2) by simp
  ultimately show ?thesis
    by (intro exI [of _ r] exI [of _ s'] exI [of _ j])
      (simp add: vmm_map_range_def map_run_at map_run_other)
qed

theorem vmm_map_range_correct_witness:
  "\<exists>r s' j. vmm_map_range boot_vm 0x400000 0x200000 2 3 = Some (r, s') \<and> vm_wf s' \<and>
    (r = 0 \<and> j = unat (2::u64) \<or> r = - 1 \<and> j < unat (2::u64) \<and> free_frames (ram s') = {})"
  using vmm_map_range_correct [OF boot_vm(2), of 2 "0x400000" "0x200000" 3] by fastforce

text \<open>
  Unmapping a range. \<open>vmm_unmap_range\<close> always returns 0, removes exactly the pages of the
  range (those that are not mapped are skipped) and keeps the invariant.
\<close>

theorem vmm_unmap_range_correct:
  assumes "vm_wf s"
  shows "\<exists>s'. vmm_unmap_range s virt n = Some (0, s') \<and> vm_wf s' \<and>
    pages s' = pages s |` (- {vpn (virt + of_nat i * PAGE_SIZE) | i. i < unat n})"
  using vms.unmap_loop_run [OF assms, of "unat n" 0 virt] by (auto simp: vmm_unmap_range_def)

theorem vmm_unmap_range_correct_witness:
  "vm_wf boot_mapped \<and> (\<exists>s'. vmm_unmap_range boot_mapped 0x3FF000 4 = Some (0, s') \<and> pages s' 0x400 = None)"
proof -
  obtain s' where s': "vmm_unmap_range boot_mapped 0x3FF000 4 = Some (0, s')"
    "pages s' = pages boot_mapped |` (- {vpn (0x3FF000 + of_nat i * PAGE_SIZE) | i. i < unat (4::u64)})"
    using vmm_unmap_range_correct [OF boot_mapped(2), of "0x3FF000" 4] by blast
  have "vpn (0x3FF000 + of_nat 1 * PAGE_SIZE) = 0x400" by (simp add: vpn_def PAGE_SIZE_def)
  then have "0x400 \<in> {vpn (0x3FF000 + of_nat i * PAGE_SIZE) | i. i < unat (4::u64)}"
    by (intro CollectI exI [of _ 1]) simp
  then have "pages s' 0x400 = None" unfolding s'(2) by (intro restrict_out) blast
  then show ?thesis using s'(1) boot_mapped(2) by blast
qed

text \<open>
  Translation. \<open>vmm_translate\<close> never faults: it returns the frame of the page's entry with
  the offset of the address, and the error value exactly for unmapped pages, so that
  \<open>vmm_is_mapped\<close> decides whether the page is mapped.
\<close>

theorem vmm_is_mapped_correct:
  assumes "vm_wf s"
  shows "vmm_is_mapped s virt = Some (vpn virt \<in> dom (pages s)) \<and>
    vmm_translate s virt = Some (case pages s (vpn virt) of None \<Rightarrow> - 1 | Some e \<Rightarrow> target e virt)"
  using assms target_valid
  by (auto simp: vmm_is_mapped_def vms.translate_law split: option.split)

theorem vmm_is_mapped_correct_witness:
  "vm_wf boot_mapped \<and> vmm_is_mapped boot_mapped 0x400FFF = Some True \<and>
   vmm_is_mapped boot_mapped 0x401000 = Some False"
  using boot_mapped vmm_is_mapped_correct [OF boot_mapped(2), of "0x400FFF"]
    vmm_is_mapped_correct [OF boot_mapped(2), of "0x401000"]
  by (simp add: vpn_def)

text \<open>
  A failed initialisation is not noticed by \<open>vmm_dump_pml4\<close>: unlike the other operations it
  does not test the root pointer, so after \<open>vmm_init\<close> on an allocator without free frames it
  reads through a null pointer.
\<close>

theorem vmm_dump_after_failed_init:
  assumes "pmm_wf (pmm ph)" "free_frames ph = {}"
  shows "\<exists>s. vmm_init ph = Some s \<and> vmm_translate s virt = Some (- 1) \<and> vmm_dump_pml4 s = None"
proof -
  from assms obtain s where s: "vmm_init ph = Some s" "pml4 (vmm s) = NULL"
    by (cases rule: vmm_init_cases [OF assms(1)]) auto
  have "vmm_dump_loop (Suc k) i s = None" for k i using s(2) by (simp add: read_pte_def)
  moreover have "(512::nat) = Suc 511" by simp
  ultimately have "vmm_dump_pml4 s = None" by (simp only: vmm_dump_pml4_def)
  then show ?thesis using s by (simp add: vmm_translate_def)
qed

theorem vmm_dump_after_failed_init_witness:
  "\<exists>s. vmm_init \<lparr>pmm = \<lparr>bitmap = replicate 2048 0xFF, total_pages = 0, free_pages = 0, used_pages = 0\<rparr>,
                 phys_mem = \<lambda>_. 0\<rparr> = Some s \<and> vmm_dump_pml4 s = None"
proof -
  let ?ph = "\<lparr>pmm = \<lparr>bitmap = replicate 2048 0xFF, total_pages = 0, free_pages = 0, used_pages = 0\<rparr>,
              phys_mem = \<lambda>_. 0\<rparr>"
  have "pmm_wf (pmm ?ph)" "free_frames ?ph = {}"
    by (simp_all add: pmm_wf_def free_frames_def fresh_bitmap_full)
  from vmm_dump_after_failed_init [OF this, of 0] show ?thesis by blast
qed

end
