(* ===== verification/Kmalloc.thy ===== *)
theory Kmalloc
  imports Lib_Memory
begin

text \<open>
  The kernel heap, \<^verbatim>\<open>kmalloc.c\<close>: a linked list of block headers of 12 bytes (\<open>size\<close> at offset 0,
  \<open>is_free\<close> at 4, \<open>next\<close> at 8, on the 32-bit target) that lie in the memory they manage. The
  model works on the bytes of memory. The two loops follow pointers found in memory and are
  partial functions: \<open>None\<close> is a run that does not end. A second half relates the bytes to a list
  of blocks and the two operations to first fit and coalescing on that list.
\<close>

section \<open>Block headers\<close>

definition sizeof_block_header :: u32 where
  "sizeof_block_header = 12"

definition hdr_size :: "mem32 \<Rightarrow> u32 \<Rightarrow> u32" where
  "hdr_size m b = load_le m b 4"

definition hdr_is_free :: "mem32 \<Rightarrow> u32 \<Rightarrow> u8" where
  "hdr_is_free m b = m (b + 4)"

definition hdr_next :: "mem32 \<Rightarrow> u32 \<Rightarrow> u32" where
  "hdr_next m b = load_le m (b + 8) 4"

definition set_size :: "mem32 \<Rightarrow> u32 \<Rightarrow> u32 \<Rightarrow> mem32" where
  "set_size m b v = store_le m b 4 v"

definition set_is_free :: "mem32 \<Rightarrow> u32 \<Rightarrow> u8 \<Rightarrow> mem32" where
  "set_is_free m b v = m(b + 4 := v)"

definition set_next :: "mem32 \<Rightarrow> u32 \<Rightarrow> u32 \<Rightarrow> mem32" where
  "set_next m b v = store_le m (b + 8) 4 v"

section \<open>Operations\<close>

record heap_t =
  heap_start :: u32
  heap_mem :: mem32

definition kmalloc_init :: "heap_t \<Rightarrow> u32 \<Rightarrow> u32 \<Rightarrow> heap_t" where
  "kmalloc_init h start_addr sz =
     (let m = set_size (heap_mem h) start_addr (sz - sizeof_block_header);
          m = set_is_free m start_addr 1;
          m = set_next m start_addr 0
      in h\<lparr>heap_start := start_addr, heap_mem := m\<rparr>)"

text \<open>The split of a block that is larger than needed, lines 24 to 30.\<close>

definition split_block :: "mem32 \<Rightarrow> u32 \<Rightarrow> u32 \<Rightarrow> mem32" where
  "split_block m current sz =
     (let new_block = current + sizeof_block_header + sz;
          m = set_size m new_block (hdr_size m current - sz - sizeof_block_header);
          m = set_is_free m new_block 1;
          m = set_next m new_block (hdr_next m current);
          m = set_size m current sz
      in set_next m current new_block)"

partial_function (option) kmalloc_loop :: "mem32 \<Rightarrow> u32 \<Rightarrow> u32 \<Rightarrow> (u32 \<times> mem32) option" where
  "kmalloc_loop m sz current =
     (if current = 0 then Some (0, m)
      else if hdr_is_free m current \<noteq> 0 \<and> hdr_size m current \<ge> sz then
        let m = (if hdr_size m current > sz + sizeof_block_header then split_block m current sz else m)
        in Some (current + sizeof_block_header, set_is_free m current 0)
      else kmalloc_loop m sz (hdr_next m current))"

definition kmalloc :: "heap_t \<Rightarrow> u32 \<Rightarrow> (u32 \<times> heap_t) option" where
  "kmalloc h sz =
     map_option (\<lambda>(p, m). (p, h\<lparr>heap_mem := m\<rparr>)) (kmalloc_loop (heap_mem h) sz (heap_start h))"

partial_function (option) kfree_loop :: "mem32 \<Rightarrow> u32 \<Rightarrow> mem32 option" where
  "kfree_loop m current =
     (if current = 0 \<or> hdr_next m current = 0 then Some m
      else if hdr_is_free m current \<noteq> 0 \<and> hdr_is_free m (hdr_next m current) \<noteq> 0 then
        let m = set_size m current
                  (hdr_size m current + (sizeof_block_header + hdr_size m (hdr_next m current)));
            m = set_next m current (hdr_next m (hdr_next m current))
        in kfree_loop m current
      else kfree_loop m (hdr_next m current))"

definition kfree :: "heap_t \<Rightarrow> u32 \<Rightarrow> heap_t option" where
  "kfree h ptr =
     (if ptr = 0 then Some h
      else
        let block = ptr - sizeof_block_header;
            m = set_is_free (heap_mem h) block 1
        in map_option (\<lambda>m. h\<lparr>heap_mem := m\<rparr>) (kfree_loop m (heap_start h)))"

section \<open>Reading a header after a write\<close>

lemma small_offset_cases: "unat (y::u32) < 4 \<Longrightarrow> y = 0 \<or> y = 1 \<or> y = 2 \<or> y = 3"
proof -
  assume "unat y < 4"
  then have "unat y = 0 \<or> unat y = 1 \<or> unat y = 2 \<or> unat y = 3" by linarith
  then show ?thesis by (auto simp: word_unat_eq_iff)
qed

lemma hdr_fields_disjoint:
  "region (b::u32) 4 \<inter> region (b + 8) 4 = {}" "b + 4 \<notin> region b 4" "b + 4 \<notin> region (b + 8) 4"
proof -
  show "region b 4 \<inter> region (b + 8) 4 = {}"
  proof (intro equals0I)
    fix x assume "x \<in> region b 4 \<inter> region (b + 8) 4"
    then have x: "unat (x - b) < 4" "unat (x - b - 8) < 4" by (auto simp: region_def algebra_simps)
    then show False using small_offset_cases [of "x - b"] by auto
  qed
qed (simp_all add: region_def)

lemma hdr_read_write [mem_simps]:
  "hdr_size (set_size m b v) b = v" "hdr_size (set_is_free m b w) b = hdr_size m b"
  "hdr_size (set_next m b v) b = hdr_size m b"
  "hdr_is_free (set_size m b v) b = hdr_is_free m b" "hdr_is_free (set_is_free m b w) b = w"
  "hdr_is_free (set_next m b v) b = hdr_is_free m b"
  "hdr_next (set_size m b v) b = hdr_next m b" "hdr_next (set_is_free m b w) b = hdr_next m b"
  "hdr_next (set_next m b v) b = v"
proof -
  note d = hdr_fields_disjoint [of b]
  have d': "region (b + 8) 4 \<inter> region b 4 = {}" using d(1) by blast
  show "hdr_size (set_size m b v) b = v" "hdr_next (set_next m b v) b = v"
    by (simp_all add: hdr_size_def set_size_def hdr_next_def set_next_def load_store_same)
  show "hdr_size (set_next m b v) b = hdr_size m b" "hdr_next (set_size m b v) b = hdr_next m b"
    using d(1) d' by (simp_all add: hdr_size_def set_size_def hdr_next_def set_next_def load_store_other)
  show "hdr_is_free (set_size m b v) b = hdr_is_free m b" "hdr_is_free (set_next m b v) b = hdr_is_free m b"
    using d(2,3) by (simp_all add: hdr_is_free_def set_size_def set_next_def store_le_outside)
  show "hdr_size (set_is_free m b w) b = hdr_size m b" "hdr_next (set_is_free m b w) b = hdr_next m b"
    using d(2,3) unfolding hdr_size_def hdr_next_def set_is_free_def by (auto intro!: load_le_cong)
qed (simp add: hdr_is_free_def set_is_free_def)

lemma hdr_subregions:
  "region b 4 \<subseteq> region (b::u32) 12" "region (b + 8) 4 \<subseteq> region b 12" "b + 4 \<in> region b 12"
proof -
  have "x \<in> region b 12" if "x \<in> region (b + 8) 4" for x
  proof -
    have "unat (x - b - 8) < 4" using that by (simp add: region_def algebra_simps)
    then have "x - b - 8 = 0 \<or> x - b - 8 = 1 \<or> x - b - 8 = 2 \<or> x - b - 8 = 3" by (rule small_offset_cases)
    then have "x - b = 8 \<or> x - b = 9 \<or> x - b = 10 \<or> x - b = 11" by (auto simp: diff_eq_eq)
    then show ?thesis by (auto simp: region_def)
  qed
  then show "region (b + 8) 4 \<subseteq> region b 12" by blast
qed (auto simp: region_def)

text \<open>A header write changes only the twelve bytes of the header.\<close>

lemma hdr_write_outside:
  assumes "x \<notin> region b 12"
  shows "set_size m b v x = m x" "set_is_free m b w x = m x" "set_next m b v x = m x"
  using assms hdr_subregions [of b]
  by (auto simp: set_size_def set_is_free_def set_next_def intro!: store_le_outside)

lemma hdr_read_cong:
  assumes "\<And>x. x \<in> region b 12 \<Longrightarrow> m' x = m x"
  shows "hdr_size m' b = hdr_size m b" "hdr_is_free m' b = hdr_is_free m b" "hdr_next m' b = hdr_next m b"
  using assms hdr_subregions [of b]
  by (auto simp: hdr_size_def hdr_is_free_def hdr_next_def intro!: load_le_cong)

section \<open>The heap as a list of blocks\<close>

type_synonym block = "nat \<times> bool"

definition extent :: "block list \<Rightarrow> nat" where
  "extent bs = (\<Sum>(n, f) \<leftarrow> bs. 12 + n)"

lemma extent_simps [simp]: "extent [] = 0" "extent ((n, f) # bs) = 12 + n + extent bs"
  by (simp_all add: extent_def)

text \<open>Memory \<open>m\<close> holds the headers of the blocks \<open>bs\<close>, laid out one after the other from \<open>a\<close>.\<close>

fun heap_at :: "mem32 \<Rightarrow> nat \<Rightarrow> block list \<Rightarrow> bool" where
  "heap_at m a [] \<longleftrightarrow> True"
| "heap_at m a ((n, f) # bs) \<longleftrightarrow>
     hdr_size m (of_nat a) = of_nat n \<and> (hdr_is_free m (of_nat a) \<noteq> 0 \<longleftrightarrow> f) \<and>
     hdr_next m (of_nat a) = (if bs = [] then 0 else of_nat (a + 12 + n)) \<and> heap_at m (a + 12 + n) bs"

fun hdrs :: "nat \<Rightarrow> block list \<Rightarrow> u32 set" where
  "hdrs a [] = {}"
| "hdrs a ((n, f) # bs) = region (of_nat a) 12 \<union> hdrs (a + 12 + n) bs"

definition block_ptr :: "nat \<Rightarrow> block list \<Rightarrow> u32" where
  "block_ptr a bs = (if bs = [] then 0 else of_nat a)"

lemma heap_at_cong: "(\<And>x. x \<in> hdrs a bs \<Longrightarrow> m' x = m x) \<Longrightarrow> heap_at m' a bs \<longleftrightarrow> heap_at m a bs"
proof (induction bs arbitrary: a)
  case (Cons b bs)
  obtain n f where b: "b = (n, f)" by (cases b)
  have "heap_at m' (a + 12 + n) bs \<longleftrightarrow> heap_at m (a + 12 + n) bs" using Cons b by simp
  then show ?case using hdr_read_cong [of "of_nat a" m' m] Cons.prems by (simp add: b)
qed simp

lemma hdr_region: "a + 12 \<le> 2 ^ 32 \<Longrightarrow> region (of_nat a :: u32) 12 = {x. a \<le> unat x \<and> unat x < a + 12}"
  by (subst region_unat) (simp_all add: unat_of_nat)

lemma hdrs_bound: "x \<in> hdrs a bs \<Longrightarrow> a + extent bs \<le> 2 ^ 32 \<Longrightarrow> a \<le> unat x \<and> unat x < a + extent bs"
proof (induction bs arbitrary: a)
  case (Cons b bs)
  obtain n f where b: "b = (n, f)" by (cases b)
  from Cons.prems consider "x \<in> region (of_nat a) 12" | "x \<in> hdrs (a + 12 + n) bs" by (auto simp: b)
  then show ?case
  proof cases
    case 1
    then show ?thesis using hdr_region [of a] Cons.prems(2) by (auto simp: b)
  next
    case 2
    then show ?thesis using Cons.IH [of "a + 12 + n"] Cons.prems(2) by (simp add: b)
  qed
qed simp

lemma hdrs_above: "x \<in> hdrs b bs \<Longrightarrow> b + extent bs \<le> 2 ^ 32 \<Longrightarrow> a + 12 \<le> b \<Longrightarrow> x \<notin> region (of_nat a) 12"
  using hdrs_bound [of x b bs] hdr_region [of a] by auto

section \<open>First fit\<close>

fun first_fit :: "nat \<Rightarrow> nat \<Rightarrow> block list \<Rightarrow> (nat \<times> block list) option" where
  "first_fit k a [] = None"
| "first_fit k a ((n, f) # bs) =
     (if f \<and> k \<le> n then
        Some (a + 12, if k + 12 < n then (k, False) # (n - k - 12, True) # bs else (n, False) # bs)
      else map_option (\<lambda>(p, bs'). (p, (n, f) # bs')) (first_fit k (a + 12 + n) bs))"

lemma first_fit_extent: "first_fit k a bs = Some (p, bs') \<Longrightarrow> extent bs' = extent bs \<and> bs' \<noteq> [] \<and> bs \<noteq> []"
  by (induction k a bs arbitrary: p bs' rule: first_fit.induct) (auto split: if_splits)

lemma split_block_headers:
  assumes "region (c + 12 + sz) 12 \<inter> region c 12 = {}"
  shows "hdr_size (split_block m c sz) c = sz" "hdr_is_free (split_block m c sz) c = hdr_is_free m c"
    "hdr_next (split_block m c sz) c = c + 12 + sz"
    "hdr_size (split_block m c sz) (c + 12 + sz) = hdr_size m c - sz - 12"
    "hdr_is_free (split_block m c sz) (c + 12 + sz) = 1"
    "hdr_next (split_block m c sz) (c + 12 + sz) = hdr_next m c"
    "x \<notin> region c 12 \<Longrightarrow> x \<notin> region (c + 12 + sz) 12 \<Longrightarrow> split_block m c sz x = m x"
proof -
  define nb where "nb = c + 12 + sz"
  define m0 where "m0 = set_is_free (set_size m nb (hdr_size m c - sz - 12)) nb 1"
  define m1 where "m1 = set_next m0 nb (hdr_next m0 c)"
  have eq: "split_block m c sz = set_next (set_size m1 c sz) c nb"
    by (simp add: split_block_def Let_def sizeof_block_header_def m1_def m0_def nb_def)
  have sep: "x \<in> region c 12 \<Longrightarrow> x \<notin> region nb 12" for x using assms by (auto simp: nb_def)
  have m1: "m1 x = m x" "m0 x = m x" if "x \<notin> region nb 12" for x
    using that by (simp_all add: m1_def m0_def hdr_write_outside)
  have out: "split_block m c sz x = m1 x" if "x \<notin> region c 12" for x
    using that by (simp add: eq hdr_write_outside)
  note c = hdr_read_cong [of c m1 m, OF m1(1) [OF sep]] and c0 = hdr_read_cong [of c m0 m, OF m1(2) [OF sep]]
    and b = hdr_read_cong [of nb "split_block m c sz" m1, OF out]
  show "hdr_size (split_block m c sz) c = sz" "hdr_is_free (split_block m c sz) c = hdr_is_free m c"
    "hdr_next (split_block m c sz) c = c + 12 + sz"
    by (simp_all add: eq mem_simps c nb_def)
  show "hdr_size (split_block m c sz) (c + 12 + sz) = hdr_size m c - sz - 12"
    "hdr_is_free (split_block m c sz) (c + 12 + sz) = 1"
    "hdr_next (split_block m c sz) (c + 12 + sz) = hdr_next m c"
    using b sep by (auto simp: nb_def [symmetric] m1_def m0_def mem_simps c0 [unfolded m0_def])
  show "x \<notin> region c 12 \<Longrightarrow> x \<notin> region (c + 12 + sz) 12 \<Longrightarrow> split_block m c sz x = m x"
    using out m1(1) by (simp add: nb_def)
qed

lemma kmalloc_split:
  assumes h: "heap_at m a ((n, True) # bs)" and a: "0 < a" "a + extent ((n, True) # bs) \<le> 2 ^ 32"
    and fit: "unat sz + 12 < n"
  defines "m' \<equiv> set_is_free (split_block m (of_nat a) sz) (of_nat a) 0"
  shows "heap_at m' a ((unat sz, False) # (n - unat sz - 12, True) # bs)"
    "x \<notin> hdrs a ((unat sz, False) # (n - unat sz - 12, True) # bs) \<Longrightarrow> m' x = m x"
proof -
  let ?c = "of_nat a :: u32" and ?k = "unat sz"
  have nb: "?c + 12 + sz = of_nat (a + 12 + ?k)" by (simp add: algebra_simps)
  have sep: "region (?c + 12 + sz) 12 \<inter> region ?c 12 = {}"
    unfolding nb using hdr_region [of a] hdr_region [of "a + 12 + ?k"] fit a by auto
  note sp = split_block_headers [OF sep, where m = m]
  have out: "m' x = m x" if "x \<notin> region ?c 12" "x \<notin> region (?c + 12 + sz) 12" for x
    using that sp(7) by (simp add: m'_def hdr_write_outside)
  have new: "hdr_size m' (?c + 12 + sz) = hdr_size m ?c - sz - 12" "hdr_is_free m' (?c + 12 + sz) = 1"
    "hdr_next m' (?c + 12 + sz) = hdr_next m ?c"
  proof -
    have "m' x = split_block m ?c sz x" if "x \<in> region (?c + 12 + sz) 12" for x
      using that sep unfolding m'_def by (intro hdr_write_outside) blast
    note hdr_read_cong [OF this]
    then show "hdr_size m' (?c + 12 + sz) = hdr_size m ?c - sz - 12" "hdr_is_free m' (?c + 12 + sz) = 1"
      "hdr_next m' (?c + 12 + sz) = hdr_next m ?c"
      using sp(4-6) by simp_all
  qed
  have end_eq: "a + 12 + ?k + 12 + (n - ?k - 12) = a + 12 + n" using fit by simp
  have "x \<notin> region ?c 12 \<and> x \<notin> region (?c + 12 + sz) 12" if "x \<in> hdrs (a + 12 + n) bs" for x
    unfolding nb using hdrs_above [OF that, of a] hdrs_above [OF that, of "a + 12 + ?k"] a fit by simp
  then have "heap_at m' (a + 12 + n) bs"
    using h out heap_at_cong [of "a + 12 + n" bs m' m] by auto
  moreover have "hdr_size m ?c - sz - 12 = of_nat (n - ?k - 12)"
    using h fit by (simp add: of_nat_diff)
  moreover have "hdr_size m' ?c = sz" "hdr_is_free m' ?c = 0" "hdr_next m' ?c = of_nat (a + 12 + ?k)"
    using sp(1-3) by (simp_all add: m'_def mem_simps nb del: of_nat_add)
  ultimately show "heap_at m' a ((?k, False) # (n - ?k - 12, True) # bs)"
    using h new unfolding heap_at.simps end_eq nb by simp
  show "x \<notin> hdrs a ((?k, False) # (n - ?k - 12, True) # bs) \<Longrightarrow> m' x = m x"
    using out by (simp add: nb del: of_nat_add)
qed

lemma kmalloc_whole:
  assumes h: "heap_at m a ((n, True) # bs)" and a: "a + extent ((n, True) # bs) \<le> 2 ^ 32"
  shows "heap_at (set_is_free m (of_nat a) 0) a ((n, False) # bs)"
    "x \<notin> hdrs a ((n, False) # bs) \<Longrightarrow> set_is_free m (of_nat a) 0 x = m x"
proof -
  have "heap_at (set_is_free m (of_nat a) 0) (a + 12 + n) bs"
    using h a hdrs_above [of _ "a + 12 + n" bs a]
      heap_at_cong [of "a + 12 + n" bs "set_is_free m (of_nat a) 0" m]
    by (auto simp: hdr_write_outside)
  then show "heap_at (set_is_free m (of_nat a) 0) a ((n, False) # bs)" using h by (simp add: mem_simps)
qed (simp add: hdr_write_outside)

lemma kmalloc_loop_first_fit:
  "heap_at m a bs \<Longrightarrow> 0 < a \<Longrightarrow> a + extent bs \<le> 2 ^ 32 \<Longrightarrow>
     case first_fit (unat sz) a bs of
       None \<Rightarrow> kmalloc_loop m sz (block_ptr a bs) = Some (0, m)
     | Some (p, bs') \<Rightarrow> \<exists>m'. kmalloc_loop m sz (block_ptr a bs) = Some (of_nat p, m') \<and>
         heap_at m' a bs' \<and> (\<forall>x. x \<notin> hdrs a bs' \<longrightarrow> m' x = m x)"
proof (induction bs arbitrary: a)
  case Nil
  then show ?case by (simp add: block_ptr_def kmalloc_loop.simps)
next
  case (Cons b bs)
  obtain n f where b: "b = (n, f)" by (cases b)
  let ?c = "of_nat a :: u32"
  have c: "?c \<noteq> 0" and n: "unat (of_nat n :: u32) = n"
    using Cons.prems(2,3) b by (auto simp: word_unat_eq_iff unat_of_nat)
  have h: "hdr_size m ?c = of_nat n" "hdr_is_free m ?c \<noteq> 0 \<longleftrightarrow> f" "hdr_next m ?c = block_ptr (a + 12 + n) bs"
    "heap_at m (a + 12 + n) bs" using Cons.prems(1) by (simp_all add: b block_ptr_def)
  have le: "sz \<le> of_nat n \<longleftrightarrow> unat sz \<le> n" by (simp add: word_le_nat_alt n)
  show ?case
  proof (cases "f \<and> unat sz \<le> n")
    case True
    have "unat (sz + 12) = unat sz + 12"
      using True Cons.prems(2,3) b unat_add_no_wrap [of sz 12] by simp
    then have "sz + 12 < of_nat n \<longleftrightarrow> unat sz + 12 < n" by (simp add: word_less_nat_alt n)
    then have run: "kmalloc_loop m sz ?c =
        Some (?c + 12, set_is_free (if unat sz + 12 < n then split_block m ?c sz else m) ?c 0)"
      using c True h le by (subst kmalloc_loop.simps) (simp add: sizeof_block_header_def)
    have ht: "heap_at m a ((n, True) # bs)" and ext: "a + extent ((n, True) # bs) \<le> 2 ^ 32"
      using Cons.prems True by (simp_all add: b)
    have run': "kmalloc_loop m sz (block_ptr a (b # bs)) =
        Some (of_nat (a + 12), set_is_free (if unat sz + 12 < n then split_block m ?c sz else m) ?c 0)"
      using run by (simp add: block_ptr_def)
    show ?thesis
    proof (cases "unat sz + 12 < n")
      case split: True
      show ?thesis
        using run' True split kmalloc_split [OF ht Cons.prems(2) ext split] unfolding b by auto
    next
      case False
      then show ?thesis using run' True kmalloc_whole [OF ht ext] unfolding b by auto
    qed
  next
    case False
    then have step: "kmalloc_loop m sz ?c = kmalloc_loop m sz (block_ptr (a + 12 + n) bs)"
      using c h le by (subst kmalloc_loop.simps) auto
    have len: "a + 12 + n + extent bs \<le> 2 ^ 32" using Cons.prems(3) b by simp
    note IH = Cons.IH [OF h(4) _ len]
    show ?thesis
    proof (cases "first_fit (unat sz) (a + 12 + n) bs")
      case None
      then show ?thesis using False IH step by (auto simp: b block_ptr_def)
    next
      case (Some r)
      obtain p bs' where r: "r = (p, bs')" by (cases r)
      from IH Some r obtain m' where m': "kmalloc_loop m sz (block_ptr (a + 12 + n) bs) = Some (of_nat p, m')"
        "heap_at m' (a + 12 + n) bs'" "\<forall>x. x \<notin> hdrs (a + 12 + n) bs' \<longrightarrow> m' x = m x" by auto
      have ext: "extent bs' = extent bs" "bs' \<noteq> []" "bs \<noteq> []" using first_fit_extent Some r by auto
      have "m' x = m x" if "x \<in> region ?c 12" for x
        using that m'(3) hdrs_above [of x "a + 12 + n" bs' a] len ext(1) by auto
      then have "heap_at m' a ((n, f) # bs')"
        using hdr_read_cong [of ?c m' m] h m'(2) ext by (simp add: block_ptr_def)
      then show ?thesis using False Some r m' step by (auto simp: b block_ptr_def)
    qed
  qed
qed

section \<open>Freeing and coalescing\<close>

text \<open>The allocated payloads, as pairs of address and size.\<close>

fun live :: "nat \<Rightarrow> block list \<Rightarrow> (nat \<times> nat) set" where
  "live a [] = {}"
| "live a ((n, f) # bs) = (if f then {} else {(a + 12, n)}) \<union> live (a + 12 + n) bs"

fun mark_free :: "nat \<Rightarrow> nat \<Rightarrow> block list \<Rightarrow> block list" where
  "mark_free p a [] = []"
| "mark_free p a ((n, f) # bs) = (n, f \<or> p = a + 12) # mark_free p (a + 12 + n) bs"

fun coalesce :: "block list \<Rightarrow> block list" where
  "coalesce ((n, f) # (k, g) # bs) =
     (if f \<and> g then coalesce ((n + 12 + k, True) # bs) else (n, f) # coalesce ((k, g) # bs))"
| "coalesce bs = bs"

lemma live_bound: "(p, n) \<in> live a bs \<Longrightarrow> a + 12 \<le> p \<and> p + n \<le> a + extent bs"
  by (induction a bs rule: live.induct) (fastforce split: if_splits)+

lemma coalesce_eq_Nil [simp]: "coalesce bs = [] \<longleftrightarrow> bs = []"
  by (induction bs rule: coalesce.induct) auto

lemma mark_free_eq_Nil [simp]: "mark_free p a bs = [] \<longleftrightarrow> bs = []"
  by (cases "(p, a, bs)" rule: mark_free.cases) auto

lemma mark_free_layout [simp]: "extent (mark_free p a bs) = extent bs" "hdrs a (mark_free p a bs) = hdrs a bs"
  by (induction p a bs rule: mark_free.induct) simp_all

lemma mark_free_other: "p < a + 12 \<Longrightarrow> mark_free p a bs = bs"
  by (induction p a bs rule: mark_free.induct) simp_all

lemma coalesce_layout:
  "extent (coalesce bs) = extent bs" "live a (coalesce bs) = live a bs" "hdrs a (coalesce bs) \<subseteq> hdrs a bs"
proof (induction bs arbitrary: a rule: coalesce.induct)
  case (1 n f k g bs)
  have eq: "a + 12 + (n + 12 + k) = a + 12 + n + 12 + k" by simp
  { case 1 then show ?case using "1.IH"(1,4) by simp }
  { case 2
    show ?case
    proof (cases "f \<and> g")
      case True
      then show ?thesis using "1.IH"(2) [OF True, of a] by (simp add: ac_simps)
    next
      case False
      then show ?thesis using "1.IH"(5) [OF False, of "a + 12 + n"] by (cases g) auto
    qed }
  { case 3
    show ?case
    proof (cases "f \<and> g")
      case True
      then show ?thesis using "1.IH"(3) [OF True, of a] by (auto simp: ac_simps)
    next
      case False
      then show ?thesis using "1.IH"(6) [OF False, of "a + 12 + n"] by auto
    qed }
qed simp_all

lemma mark_live:
  "(p, n) \<in> live a bs \<Longrightarrow> live a (mark_free p a bs) = live a bs - {(p, n)}"
proof (induction p a bs rule: mark_free.induct)
  case (2 p a k f bs)
  show ?case
  proof (cases "p = a + 12")
    case True
    have "(p, x) \<notin> live (a + 12 + k) bs" for x using live_bound [of p x "a + 12 + k" bs] True by auto
    then show ?thesis using True 2(2) by (auto simp: mark_free_other split: if_splits)
  next
    case False
    then show ?thesis using 2 by (auto split: if_splits)
  qed
qed simp

lemma mark_heap:
  "heap_at m a bs \<Longrightarrow> (p, n) \<in> live a bs \<Longrightarrow> a + extent bs \<le> 2 ^ 32 \<Longrightarrow>
     heap_at (set_is_free m (of_nat (p - 12)) 1) a (mark_free p a bs) \<and> region (of_nat (p - 12)) 12 \<subseteq> hdrs a bs"
proof (induction p a bs rule: mark_free.induct)
  case (2 p a k f bs)
  let ?m = "set_is_free m (of_nat (p - 12)) 1"
  show ?case
  proof (cases "p = a + 12")
    case True
    have "heap_at ?m (a + 12 + k) bs"
      using 2(2,4) hdrs_above [of _ "a + 12 + k" bs a] True
        heap_at_cong [of "a + 12 + k" bs ?m m] by (auto simp: hdr_write_outside)
    then show ?thesis using 2(2) True by (simp add: mem_simps mark_free_other)
  next
    case False
    then have l: "(p, n) \<in> live (a + 12 + k) bs" using 2(3) by (auto split: if_splits)
    have IH: "heap_at ?m (a + 12 + k) (mark_free p (a + 12 + k) bs)"
      "region (of_nat (p - 12)) 12 \<subseteq> hdrs (a + 12 + k) bs"
      using 2(1) [OF _ l] 2(2,4) by simp_all
    have "?m x = m x" if "x \<in> region (of_nat a) 12" for x
      using that IH(2) hdrs_above [of x "a + 12 + k" bs a] 2(4) by (intro hdr_write_outside) auto
    then show ?thesis
      using IH 2(2) False hdr_read_cong [of "of_nat a" ?m m] by auto
  qed
qed simp

lemma merge_heap:
  assumes h: "heap_at m a ((n, True) # (k, True) # bs)" and a: "a + extent ((n, True) # (k, True) # bs) \<le> 2 ^ 32"
  defines "m1 \<equiv> set_size m (of_nat a) (hdr_size m (of_nat a) + (12 + hdr_size m (hdr_next m (of_nat a))))"
  defines "m2 \<equiv> set_next m1 (of_nat a) (hdr_next m1 (hdr_next m1 (of_nat a)))"
  shows "heap_at m2 a ((n + 12 + k, True) # bs)" "x \<notin> region (of_nat a) 12 \<Longrightarrow> m2 x = m x"
proof -
  let ?c = "of_nat a :: u32" and ?d = "of_nat (a + 12 + n) :: u32"
  have d: "hdr_next m ?c = ?d" "hdr_next m1 ?c = ?d" using h by (simp_all add: m1_def mem_simps)
  have "x \<notin> region ?c 12" if "x \<in> region ?d 12" for x
    using that hdr_region [of a] hdr_region [of "a + 12 + n"] a by auto
  then have "hdr_next m1 ?d = hdr_next m ?d"
    by (intro hdr_read_cong) (simp add: m1_def hdr_write_outside)
  then have nx: "m2 = set_next m1 ?c (if bs = [] then 0 else of_nat (a + 12 + (n + 12 + k)))"
    using h d(2) by (simp add: m2_def ac_simps)
  have sz: "hdr_size m ?c + (12 + hdr_size m (hdr_next m ?c)) = of_nat (n + 12 + k)"
    using h d(1) by simp
  show out: "x \<notin> region ?c 12 \<Longrightarrow> m2 x = m x" for x by (simp add: m2_def m1_def hdr_write_outside)
  have eq: "a + 12 + n + 12 + k = a + 12 + (n + 12 + k)" by simp
  have "heap_at m (a + 12 + (n + 12 + k)) bs" using h unfolding heap_at.simps eq by simp
  then have "heap_at m2 (a + 12 + (n + 12 + k)) bs"
    using out a hdrs_above [of _ "a + 12 + (n + 12 + k)" bs a]
      heap_at_cong [of "a + 12 + (n + 12 + k)" bs m2 m] by auto
  moreover have "hdr_size m2 ?c = of_nat (n + 12 + k)"
    unfolding nx m1_def mem_simps by (rule sz)
  moreover have "hdr_is_free m2 ?c = hdr_is_free m ?c" by (simp add: nx m1_def mem_simps)
  moreover have "hdr_next m2 ?c = (if bs = [] then 0 else of_nat (a + 12 + (n + 12 + k)))"
    unfolding nx mem_simps ..
  ultimately show "heap_at m2 a ((n + 12 + k, True) # bs)" using h by simp
qed

lemma kfree_loop_coalesce:
  "heap_at m a bs \<Longrightarrow> 0 < a \<Longrightarrow> a + extent bs \<le> 2 ^ 32 \<Longrightarrow>
     \<exists>m'. kfree_loop m (block_ptr a bs) = Some m' \<and> heap_at m' a (coalesce bs) \<and>
          (\<forall>x. x \<notin> hdrs a bs \<longrightarrow> m' x = m x)"
proof (induction bs arbitrary: a m rule: coalesce.induct)
  case (1 n f k g bs)
  let ?c = "of_nat a :: u32" and ?d = "of_nat (a + 12 + n) :: u32"
  have c: "?c \<noteq> 0" and d: "?d \<noteq> 0" using 1(4,5) by (auto simp: word_unat_eq_iff unat_of_nat simp del: of_nat_add)
  have h: "hdr_next m ?c = ?d" "hdr_is_free m ?c \<noteq> 0 \<longleftrightarrow> f" "hdr_is_free m ?d \<noteq> 0 \<longleftrightarrow> g"
    "heap_at m (a + 12 + n) ((k, g) # bs)" using 1(3) by simp_all
  show ?case
  proof (cases "f \<and> g")
    case True
    let ?m1 = "set_size m ?c (hdr_size m ?c + (12 + hdr_size m (hdr_next m ?c)))"
    let ?m2 = "set_next ?m1 ?c (hdr_next ?m1 (hdr_next ?m1 ?c))"
    have step: "kfree_loop m ?c = kfree_loop ?m2 ?c"
      using c d h True by (subst kfree_loop.simps) (simp add: Let_def sizeof_block_header_def)
    have ht: "heap_at m a ((n, True) # (k, True) # bs)" using 1(3) True by simp
    note mg = merge_heap [OF ht]
    obtain m' where "kfree_loop ?m2 ?c = Some m'" "heap_at m' a (coalesce ((n + 12 + k, True) # bs))"
      "\<forall>x. x \<notin> hdrs a ((n + 12 + k, True) # bs) \<longrightarrow> m' x = ?m2 x"
      using 1(1) [OF True mg(1) 1(4)] 1(5) by (auto simp: block_ptr_def)
    then show ?thesis using step True mg(2) 1(5) by (simp add: block_ptr_def ac_simps)
  next
    case False
    have step: "kfree_loop m ?c = kfree_loop m ?d"
      using c d h False by (subst kfree_loop.simps) auto
    obtain m' where m': "kfree_loop m ?d = Some m'" "heap_at m' (a + 12 + n) (coalesce ((k, g) # bs))"
      "\<forall>x. x \<notin> hdrs (a + 12 + n) ((k, g) # bs) \<longrightarrow> m' x = m x"
      using 1(2) [OF False h(4)] 1(4,5) by (auto simp: block_ptr_def)
    have "m' x = m x" if "x \<in> region ?c 12" for x
      using that m'(3) hdrs_above [of x "a + 12 + n" "(k, g) # bs" a] 1(5) by auto
    then have "heap_at m' a ((n, f) # coalesce ((k, g) # bs))"
      using hdr_read_cong [of ?c m' m] 1(3) m'(2) by simp
    then show ?thesis using step False m' by (auto simp: block_ptr_def)
  qed
qed (subst kfree_loop.simps, auto simp: block_ptr_def split: prod.splits)+

end
