(* ===== verification/Heap_Contract.thy ===== *)
theory Heap_Contract
  imports Lib_Memory
begin

text \<open>
  The contract between the kernel heap and its clients, of which process creation is one. The
  relation \<open>owns h L\<close> says that in state \<open>h\<close> the payloads in \<open>L\<close>, pairs of address and size,
  belong to clients. Consequences for a client that holds a block across other calls are derived
  from the contract alone.
\<close>

locale heap =
  fixes alloc :: "'s \<Rightarrow> u32 \<Rightarrow> (u32 \<times> 's) option"
    and free :: "'s \<Rightarrow> u32 \<Rightarrow> 's option"
    and contents :: "'s \<Rightarrow> mem32"
    and update :: "'s \<Rightarrow> mem32 \<Rightarrow> 's"
    and owns :: "'s \<Rightarrow> (u32 \<times> nat) set \<Rightarrow> bool"
  assumes owned_block: "owns h L \<Longrightarrow> (p, n) \<in> L \<Longrightarrow> p \<noteq> 0 \<and> unat p + n \<le> 2 ^ 32"
    and owned_disjoint: "owns h L \<Longrightarrow> (p, n) \<in> L \<Longrightarrow> (q, k) \<in> L \<Longrightarrow> (p, n) \<noteq> (q, k) \<Longrightarrow>
      p \<noteq> q \<and> region p n \<inter> region q k = {}"
    and alloc_law: "owns h L \<Longrightarrow> \<exists>p h'. alloc h sz = Some (p, h') \<and>
      (p = 0 \<and> h' = h \<or>
       (\<exists>n. unat sz \<le> n \<and> (p, n) \<notin> L \<and> owns h' (insert (p, n) L) \<and>
            (\<forall>(q, k) \<in> L. \<forall>x \<in> region q k. contents h' x = contents h x)))"
    and free_law: "owns h L \<Longrightarrow> (p, n) \<in> L \<Longrightarrow> \<exists>h'. free h p = Some h' \<and> owns h' (L - {(p, n)}) \<and>
      (\<forall>(q, k) \<in> L - {(p, n)}. \<forall>x \<in> region q k. contents h' x = contents h x)"
    and write_law: "owns h L \<Longrightarrow> (p, n) \<in> L \<Longrightarrow> (\<And>x. x \<notin> region p n \<Longrightarrow> m x = contents h x) \<Longrightarrow>
      owns (update h m) L"
    and contents_update: "contents (update h m) = m"
begin

lemma alloc_cases:
  assumes "owns h L"
  obtains (null) "alloc h sz = Some (0, h)"
    | (block) p n h' where "alloc h sz = Some (p, h')" "p \<noteq> 0" "unat sz \<le> n" "(p, n) \<notin> L"
        "owns h' (insert (p, n) L)" "unat p + n \<le> 2 ^ 32"
        "\<And>q k x. (q, k) \<in> L \<Longrightarrow> x \<in> region q k \<Longrightarrow> contents h' x = contents h x"
proof -
  from alloc_law [OF assms, of sz] obtain p h' where a: "alloc h sz = Some (p, h')"
    "p = 0 \<and> h' = h \<or>
       (\<exists>n. unat sz \<le> n \<and> (p, n) \<notin> L \<and> owns h' (insert (p, n) L) \<and>
            (\<forall>(q, k) \<in> L. \<forall>x \<in> region q k. contents h' x = contents h x))" by blast
  from a(2) show thesis
  proof (elim disjE conjE exE)
    fix n assume n: "unat sz \<le> n" "(p, n) \<notin> L" "owns h' (insert (p, n) L)"
      "\<forall>(q, k) \<in> L. \<forall>x \<in> region q k. contents h' x = contents h x"
    then have "p \<noteq> 0" "unat p + n \<le> 2 ^ 32" using owned_block [of h' "insert (p, n) L" p n] by auto
    then show thesis using block [of p h' n] a(1) n by auto
  qed (use a(1) null in simp)
qed

text \<open>A new block overlaps no block already owned.\<close>

lemma alloc_fresh:
  assumes "owns h L" "alloc h sz = Some (p, h')" "p \<noteq> 0" "(q, k) \<in> L"
  shows "region p (unat sz) \<inter> region q k = {}"
proof (cases rule: alloc_cases [OF assms(1), of sz])
  case (2 p' n h'')
  note block = 2
  then have eq: "p' = p" "h'' = h'" using assms(2) by auto
  have "region p n \<inter> region q k = {}"
    using owned_disjoint [of h' "insert (p, n) L" p n q k] block assms(4) eq by auto
  moreover have "region p (unat sz) \<subseteq> region p n" using block(3) by (auto simp: region_def)
  ultimately show ?thesis by blast
qed (use assms in simp)

text \<open>Writing one block leaves the others alone.\<close>

lemma write_frame:
  assumes "owns h L" "(p, n) \<in> L" "(q, k) \<in> L" "p \<noteq> q"
    "\<And>x. x \<notin> region p n \<Longrightarrow> m x = contents h x" "x \<in> region q k"
  shows "contents (update h m) x = contents h x"
proof -
  have "region p n \<inter> region q k = {}" using owned_disjoint [OF assms(1,2,3)] assms(4) by auto
  then show ?thesis using assms(5,6) by (auto simp: contents_update)
qed

end

end
