(* ===== verification/Kmalloc_Properties.thy ===== *)
theory Kmalloc_Properties
  imports Kmalloc Heap_Contract
begin

text \<open>
  The invariant of the kernel heap, the interpretation of the heap contract on \<open>kmalloc\<close> and
  \<open>kfree\<close>, and the properties of the two operations and of arbitrary sequences of them.
\<close>

section \<open>Facts on block lists\<close>

fun no_adjacent_free :: "block list \<Rightarrow> bool" where
  "no_adjacent_free ((n, f) # (k, g) # bs) \<longleftrightarrow> \<not> (f \<and> g) \<and> no_adjacent_free ((k, g) # bs)"
| "no_adjacent_free bs \<longleftrightarrow> True"

lemma no_adjacent_tl: "no_adjacent_free (b # bs) \<Longrightarrow> no_adjacent_free bs"
  by (cases "b # bs" rule: no_adjacent_free.cases) auto

lemma coalesce_hd: "\<exists>k' bs'. coalesce ((k, g) # bs) = (k', g) # bs'"
proof (induction bs arbitrary: k g)
  case (Cons b bs)
  then show ?case by (cases b) auto
qed simp

lemma coalesce_no_adjacent: "no_adjacent_free (coalesce bs)"
proof (induction bs rule: coalesce.induct)
  case (1 n f k g bs)
  then show ?case using coalesce_hd [of k g bs] by auto
qed simp_all

lemma coalesce_id: "no_adjacent_free bs \<Longrightarrow> coalesce bs = bs"
  by (induction bs rule: no_adjacent_free.induct) auto

lemma first_fit_no_adjacent:
  "first_fit k a bs = Some (p, bs') \<Longrightarrow> no_adjacent_free bs \<Longrightarrow> no_adjacent_free bs'"
proof (induction k a bs arbitrary: p bs' rule: first_fit.induct)
  case (2 k a n f bs)
  show ?case
  proof (cases "f \<and> k \<le> n")
    case True
    then show ?thesis using 2(2,3) by (cases bs) (auto split: if_splits)
  next
    case False
    then obtain bs1 where bs1: "first_fit k (a + 12 + n) bs = Some (p, bs1)" "bs' = (n, f) # bs1"
      using 2(2) by auto
    have IH: "no_adjacent_free bs1" using 2(1) [OF False bs1(1)] 2(3) no_adjacent_tl by blast
    obtain n1 f1 cs where bs: "bs = (n1, f1) # cs" using bs1(1) by (cases bs) auto
    have hd: "\<not> (f \<and> f1)" using 2(3) bs by auto
    have "\<exists>n2 f2 cs'. bs1 = (n2, f2) # cs' \<and> (f2 \<longrightarrow> f1)"
      using bs1(1) unfolding bs by (auto split: if_splits)
    then show ?thesis using IH hd bs1(2) by auto
  qed
qed simp

lemma first_fit_live:
  "first_fit k a bs = Some (p, bs') \<Longrightarrow>
     \<exists>n. k \<le> n \<and> n \<le> k + 12 \<and> live a bs' = insert (p, n) (live a bs) \<and> a + 12 \<le> p \<and> (\<forall>x. (p, x) \<notin> live a bs)"
proof (induction k a bs arbitrary: p bs' rule: first_fit.induct)
  case (2 k a n f bs)
  show ?case
  proof (cases "f \<and> k \<le> n")
    case True
    then have p: "p = a + 12" using 2(2) by simp
    have "(p, x) \<notin> live (a + 12 + n) bs" for x using live_bound [of p x "a + 12 + n" bs] p by auto
    moreover have "live (a + 12 + k) ((n - k - 12, True) # bs) = live (a + 12 + n) bs" if "k + 12 < n"
      using that by (simp add: algebra_simps)
    ultimately show ?thesis
      using 2(2) True p by (intro exI [of _ "if k + 12 < n then k else n"]) (auto simp del: live.simps(2) simp: live.simps(2) [of a])
  next
    case False
    then obtain bs1 where bs1: "first_fit k (a + 12 + n) bs = Some (p, bs1)" "bs' = (n, f) # bs1"
      using 2(2) by auto
    from 2(1) [OF False bs1(1)] show ?thesis using bs1(2) by (auto simp: insert_commute)
  qed
qed simp

lemma first_fit_None: "first_fit k a bs = None \<longleftrightarrow> (\<forall>(n, f) \<in> set bs. f \<longrightarrow> n < k)"
  by (induction k a bs rule: first_fit.induct) auto

text \<open>Freeing the block just taken restores the list.\<close>

lemma coalesce_mark_first_fit:
  "first_fit k a bs = Some (p, bs') \<Longrightarrow> no_adjacent_free bs \<Longrightarrow> coalesce (mark_free p a bs') = bs"
proof (induction k a bs arbitrary: p bs' rule: first_fit.induct)
  case (2 k a n f bs)
  show ?case
  proof (cases "f \<and> k \<le> n")
    case True
    have "mark_free p b bs = bs" if "a + 12 \<le> b" for b using 2(2) True that by (simp add: mark_free_other)
    then show ?thesis using 2(2,3) True coalesce_id [OF 2(3)] by (auto split: if_splits)
  next
    case False
    then obtain bs1 where bs1: "first_fit k (a + 12 + n) bs = Some (p, bs1)" "bs' = (n, f) # bs1"
      using 2(2) by auto
    have p: "p \<noteq> a + 12" using first_fit_live [OF bs1(1)] by auto
    have IH: "coalesce (mark_free p (a + 12 + n) bs1) = bs"
      using 2(1) [OF False bs1(1)] 2(3) no_adjacent_tl by blast
    obtain n2 f2 cs where m: "mark_free p (a + 12 + n) bs1 = (n2, f2) # cs"
      using IH bs1(1) by (cases "mark_free p (a + 12 + n) bs1") auto
    then have "\<not> (f \<and> f2)" using IH 2(3) coalesce_hd [of n2 f2 cs] by auto
    then show ?thesis using m IH p bs1(2) by auto
  qed
qed simp

section \<open>The invariant\<close>

text \<open>
  \<open>heap_ok h bs\<close>: the memory of \<open>h\<close> holds exactly the blocks \<open>bs\<close>, end to end from
  \<open>heap_start\<close> and within the address space, and no two neighbours are free.
\<close>

definition heap_ok :: "heap_t \<Rightarrow> block list \<Rightarrow> bool" where
  "heap_ok h bs \<longleftrightarrow>
     heap_start h \<noteq> 0 \<and> bs \<noteq> [] \<and> unat (heap_start h) + extent bs < 2 ^ 32 \<and>
     heap_at (heap_mem h) (unat (heap_start h)) bs \<and> no_adjacent_free bs"

definition live_blocks :: "heap_t \<Rightarrow> block list \<Rightarrow> (u32 \<times> nat) set" where
  "live_blocks h bs = (\<lambda>(p, n). (of_nat p, n)) ` live (unat (heap_start h)) bs"

definition owns :: "u32 \<Rightarrow> nat \<Rightarrow> heap_t \<Rightarrow> (u32 \<times> nat) set \<Rightarrow> bool" where
  "owns a E h L \<longleftrightarrow> heap_start h = a \<and> (\<exists>bs. heap_ok h bs \<and> extent bs = E \<and> L = live_blocks h bs)"

lemma live_block_range:
  assumes "heap_ok h bs" "(p, n) \<in> live (unat (heap_start h)) bs"
  shows "unat (of_nat p :: u32) = p" "12 < p" "p + n < 2 ^ 32" "(of_nat p :: u32) \<noteq> 0"
proof -
  have b: "12 < p" "p + n < 2 ^ 32"
    using live_bound [OF assms(2)] assms(1) unat_gt_0 [of "heap_start h"] by (auto simp: heap_ok_def)
  then show p: "unat (of_nat p :: u32) = p" by (simp add: unat_of_nat)
  show "12 < p" "p + n < 2 ^ 32" using b by simp_all
  then show "(of_nat p :: u32) \<noteq> 0" using p by auto
qed

lemma payload_region: "p + n \<le> 2 ^ 32 \<Longrightarrow> x \<in> region (of_nat p :: u32) n \<Longrightarrow> p \<le> unat x \<and> unat x < p + n"
proof (cases "n = 0")
  case False
  assume "p + n \<le> 2 ^ 32" "x \<in> region (of_nat p :: u32) n"
  then show ?thesis using False by (subst (asm) region_unat) (simp_all add: unat_of_nat)
qed simp

lemma live_disjoint:
  "(p, n) \<in> live a bs \<Longrightarrow> (q, k) \<in> live a bs \<Longrightarrow> (p, n) \<noteq> (q, k) \<Longrightarrow> p + n + 12 \<le> q \<or> q + k + 12 \<le> p"
proof (induction a bs rule: live.induct)
  case (2 a m f bs)
  then show ?case
    using live_bound [of p n "a + 12 + m" bs] live_bound [of q k "a + 12 + m" bs]
    by (auto split: if_splits)
qed simp

lemma live_outside_headers:
  "(p, n) \<in> live a bs \<Longrightarrow> a + extent bs \<le> 2 ^ 32 \<Longrightarrow> x \<in> region (of_nat p) n \<Longrightarrow> x \<notin> hdrs a bs"
proof (induction a bs rule: live.induct)
  case (2 a m f bs)
  have x: "p \<le> unat x" "unat x < p + n"
    using payload_region [of p n x] live_bound [OF 2(2)] 2(3,4) by auto
  have hd: "x \<notin> region (of_nat a) 12"
    using hdr_region [of a] live_bound [OF 2(2)] 2(3) x(1) by auto
  show ?case
  proof (cases "(p, n) \<in> live (a + 12 + m) bs")
    case True
    then show ?thesis using 2 hd by simp
  next
    case False
    then have "p + n = a + 12 + m" using 2(2) by (auto split: if_splits)
    then show ?thesis using hd x hdrs_bound [of x "a + 12 + m" bs] 2(3) by auto
  qed
qed simp

section \<open>The operations on a well-formed heap\<close>

lemma kmalloc_run:
  assumes "heap_ok h bs"
  shows "case first_fit (unat sz) (unat (heap_start h)) bs of
       None \<Rightarrow> kmalloc h sz = Some (0, h)
     | Some (p, bs') \<Rightarrow> \<exists>h'. kmalloc h sz = Some (of_nat p, h') \<and> heap_start h' = heap_start h \<and>
         heap_ok h' bs' \<and> extent bs' = extent bs \<and>
         (\<forall>x. x \<notin> hdrs (unat (heap_start h)) bs' \<longrightarrow> heap_mem h' x = heap_mem h x)"
proof -
  let ?a = "unat (heap_start h)"
  have ok: "heap_at (heap_mem h) ?a bs" "0 < ?a" "?a + extent bs \<le> 2 ^ 32" "block_ptr ?a bs = heap_start h"
    using assms by (auto simp: heap_ok_def block_ptr_def unat_gt_0)
  note run = kmalloc_loop_first_fit [OF ok(1-3), of sz, unfolded ok(4)]
  show ?thesis
  proof (cases "first_fit (unat sz) ?a bs")
    case None
    then show ?thesis using run by (simp add: kmalloc_def)
  next
    case (Some r)
    obtain p bs' where r: "r = (p, bs')" by (cases r)
    obtain m' where m': "kmalloc_loop (heap_mem h) sz (heap_start h) = Some (of_nat p, m')"
      "heap_at m' ?a bs'" "\<forall>x. x \<notin> hdrs ?a bs' \<longrightarrow> m' x = heap_mem h x"
      using run Some r by auto
    have "extent bs' = extent bs" "bs' \<noteq> []" using first_fit_extent Some r by auto
    then have "heap_ok (h\<lparr>heap_mem := m'\<rparr>) bs'"
      using assms m'(2) first_fit_no_adjacent Some r by (auto simp: heap_ok_def)
    then show ?thesis using Some r m' \<open>extent bs' = extent bs\<close> by (simp add: kmalloc_def)
  qed
qed

lemma kfree_run:
  assumes "heap_ok h bs" "(p, n) \<in> live (unat (heap_start h)) bs"
  shows "\<exists>h'. kfree h (of_nat p) = Some h' \<and> heap_start h' = heap_start h \<and>
    heap_ok h' (coalesce (mark_free p (unat (heap_start h)) bs)) \<and>
    (\<forall>x. x \<notin> hdrs (unat (heap_start h)) bs \<longrightarrow> heap_mem h' x = heap_mem h x)"
proof -
  let ?a = "unat (heap_start h)" let ?m = "set_is_free (heap_mem h) (of_nat (p - 12)) 1"
  let ?bs = "mark_free p ?a bs"
  have ok: "heap_at (heap_mem h) ?a bs" "0 < ?a" "?a + extent bs \<le> 2 ^ 32" "block_ptr ?a ?bs = heap_start h"
    using assms(1) by (auto simp: heap_ok_def block_ptr_def unat_gt_0)
  note range = live_block_range [OF assms]
  have block: "of_nat p - sizeof_block_header = (of_nat (p - 12) :: u32)"
    using range(2) by (simp add: sizeof_block_header_def of_nat_diff)
  have mk: "heap_at ?m ?a ?bs" "region (of_nat (p - 12)) 12 \<subseteq> hdrs ?a bs"
    using mark_heap [OF ok(1) assms(2) ok(3)] by simp_all
  obtain m' where m': "kfree_loop ?m (heap_start h) = Some m'" "heap_at m' ?a (coalesce ?bs)"
    "\<forall>x. x \<notin> hdrs ?a bs \<longrightarrow> m' x = ?m x"
    using kfree_loop_coalesce [OF mk(1) ok(2)] ok(3) unfolding ok(4) by auto
  have "?m x = heap_mem h x" if "x \<notin> hdrs ?a bs" for x
    using that mk(2) by (intro hdr_write_outside) blast
  moreover have "heap_ok (h\<lparr>heap_mem := m'\<rparr>) (coalesce ?bs)"
    using assms(1) m'(2) by (simp add: heap_ok_def coalesce_layout coalesce_no_adjacent)
  ultimately show ?thesis using m' range(4) by (simp add: kfree_def block)
qed

lemma payload_write:
  assumes "heap_ok h bs" "(p, n) \<in> live (unat (heap_start h)) bs"
    "\<And>x. x \<notin> region (of_nat p) n \<Longrightarrow> m x = heap_mem h x"
  shows "heap_ok (h\<lparr>heap_mem := m\<rparr>) bs"
proof -
  let ?a = "unat (heap_start h)"
  have "m x = heap_mem h x" if "x \<in> hdrs ?a bs" for x
    using that assms live_outside_headers [OF assms(2)] by (auto simp: heap_ok_def)
  then have "heap_at m ?a bs \<longleftrightarrow> heap_at (heap_mem h) ?a bs" by (rule heap_at_cong)
  then show ?thesis using assms(1) by (simp add: heap_ok_def)
qed

section \<open>The heap contract\<close>

lemma owns_live:
  assumes "heap_ok h bs" "(p, n) \<in> live_blocks h bs"
  obtains q where "p = of_nat q" "unat p = q" "(q, n) \<in> live (unat (heap_start h)) bs" "12 < q" "q + n < 2 ^ 32"
  using assms live_block_range [OF assms(1)] by (auto simp: live_blocks_def)

lemma live_blocks_regions:
  assumes ok: "heap_ok h bs" and "(p, n) \<in> live_blocks h bs" "(q, k) \<in> live_blocks h bs" "(p, n) \<noteq> (q, k)"
  shows "p \<noteq> q \<and> region p n \<inter> region q k = {}"
proof -
  obtain i where i: "p = of_nat i" "unat p = i" "(i, n) \<in> live (unat (heap_start h)) bs" "i + n < 2 ^ 32"
    using owns_live [OF ok assms(2)] by metis
  obtain j where j: "q = of_nat j" "unat q = j" "(j, k) \<in> live (unat (heap_start h)) bs" "j + k < 2 ^ 32"
    using owns_live [OF ok assms(3)] by metis
  have "i + n + 12 \<le> j \<or> j + k + 12 \<le> i"
    using live_disjoint [OF i(3) j(3)] assms(4) i(1) j(1) by auto
  then show ?thesis
    using i j region_disjoint [of p n q k] region_disjoint' [of q k p n] by auto
qed

lemma kmalloc_owns:
  assumes ok: "heap_ok h bs" and run: "first_fit (unat sz) (unat (heap_start h)) bs = Some (p, bs')"
  obtains h' n where "kmalloc h sz = Some (of_nat p, h')" "heap_start h' = heap_start h" "heap_ok h' bs'"
    "extent bs' = extent bs" "unat sz \<le> n" "(of_nat p, n) \<notin> live_blocks h bs"
    "live_blocks h' bs' = insert (of_nat p, n) (live_blocks h bs)"
    "\<And>q k x. (q, k) \<in> live_blocks h bs \<Longrightarrow> x \<in> region q k \<Longrightarrow> heap_mem h' x = heap_mem h x"
proof -
  let ?a = "unat (heap_start h)"
  obtain h' where h': "kmalloc h sz = Some (of_nat p, h')" "heap_start h' = heap_start h" "heap_ok h' bs'"
    "extent bs' = extent bs" "\<forall>x. x \<notin> hdrs ?a bs' \<longrightarrow> heap_mem h' x = heap_mem h x"
    using kmalloc_run [OF ok, of sz] run by auto
  obtain n where n: "unat sz \<le> n" "live ?a bs' = insert (p, n) (live ?a bs)" "\<forall>x. (p, x) \<notin> live ?a bs"
    using first_fit_live [OF run] by blast
  have p: "unat (of_nat p :: u32) = p"
    using live_block_range(1) [OF h'(3), of p n] n(2) h'(2) by simp
  have fresh: "(of_nat p, n) \<notin> live_blocks h bs"
  proof
    assume "(of_nat p, n) \<in> live_blocks h bs"
    then show False using owns_live [OF ok] n(3) p by metis
  qed
  have same: "heap_mem h' x = heap_mem h x" if qk: "(q, k) \<in> live_blocks h bs" "x \<in> region q k" for q k x
  proof -
    obtain i where "q = of_nat i" "(i, k) \<in> live ?a bs" using owns_live [OF ok qk(1)] by metis
    then show ?thesis
      using h'(3,5) n(2) qk(2) live_outside_headers [of i k ?a bs' x] by (auto simp: heap_ok_def h'(2))
  qed
  show thesis
    using that [of h' n] h'(1-4) n(1,2) fresh same by (simp add: live_blocks_def)
qed

lemma kfree_owns:
  assumes ok: "heap_ok h bs" and p: "(p, n) \<in> live_blocks h bs"
  obtains h' bs' where "kfree h p = Some h'" "heap_start h' = heap_start h" "heap_ok h' bs'"
    "extent bs' = extent bs" "live_blocks h' bs' = live_blocks h bs - {(p, n)}"
    "\<And>q k x. (q, k) \<in> live_blocks h bs \<Longrightarrow> x \<in> region q k \<Longrightarrow> heap_mem h' x = heap_mem h x"
proof -
  let ?a = "unat (heap_start h)" let ?L = "live ?a bs"
  obtain i where i: "p = of_nat i" "(i, n) \<in> ?L" using owns_live [OF ok p] by metis
  let ?bs = "coalesce (mark_free i ?a bs)"
  obtain h' where h': "kfree h p = Some h'" "heap_start h' = heap_start h" "heap_ok h' ?bs"
    "\<forall>x. x \<notin> hdrs ?a bs \<longrightarrow> heap_mem h' x = heap_mem h x"
    using kfree_run [OF ok i(2)] i(1) by auto
  have "live ?a ?bs = ?L - {(i, n)}" using mark_live [OF i(2)] by (simp add: coalesce_layout)
  moreover have "inj_on (\<lambda>(p, n). (of_nat p :: u32, n)) ?L"
    using live_block_range(1) [OF ok] by (auto simp: inj_on_def) (metis)
  ultimately have L: "live_blocks h' ?bs = live_blocks h bs - {(p, n)}"
    using i h'(2) by (simp add: live_blocks_def inj_on_image_set_diff)
  have same: "heap_mem h' x = heap_mem h x" if qk: "(q, k) \<in> live_blocks h bs" "x \<in> region q k" for q k x
  proof -
    obtain j where "q = of_nat j" "(j, k) \<in> ?L" using owns_live [OF ok qk(1)] by metis
    then show ?thesis
      using h'(4) ok qk(2) live_outside_headers [of j k ?a bs x] by (auto simp: heap_ok_def)
  qed
  show thesis
    using that [of h' ?bs] h'(1-3) L same by (simp add: coalesce_layout)
qed

interpretation kh: heap kmalloc kfree heap_mem "\<lambda>h m. h\<lparr>heap_mem := m\<rparr>" "owns a E" for a E
proof
  fix h L p n q k sz m
  assume "owns a E h L"
  then obtain bs where a: "heap_start h = a" and ok: "heap_ok h bs" and E: "extent bs = E"
    and L: "L = live_blocks h bs" by (auto simp: owns_def)
  show "p \<noteq> 0 \<and> unat p + n \<le> 2 ^ 32" if "(p, n) \<in> L"
    using that owns_live [OF ok, of p n] unfolding L by (metis less_imp_le word_neq_0_conv unat_0 not_less_zero)
  show "p \<noteq> q \<and> region p n \<inter> region q k = {}" if "(p, n) \<in> L" "(q, k) \<in> L" "(p, n) \<noteq> (q, k)"
    using that unfolding L by (rule live_blocks_regions [OF ok])
  show "\<exists>p h'. kmalloc h sz = Some (p, h') \<and>
      (p = 0 \<and> h' = h \<or>
       (\<exists>n. unat sz \<le> n \<and> (p, n) \<notin> L \<and> owns a E h' (insert (p, n) L) \<and>
            (\<forall>(q, k) \<in> L. \<forall>x \<in> region q k. heap_mem h' x = heap_mem h x)))"
  proof (cases "first_fit (unat sz) (unat (heap_start h)) bs")
    case None
    then show ?thesis using kmalloc_run [OF ok, of sz] by simp
  next
    case (Some r)
    then obtain p bs' where ff: "first_fit (unat sz) (unat (heap_start h)) bs = Some (p, bs')"
      by (cases r) auto
    obtain h' n where h': "kmalloc h sz = Some (of_nat p, h')" "heap_start h' = heap_start h" "heap_ok h' bs'"
      "extent bs' = extent bs" "unat sz \<le> n" "(of_nat p, n) \<notin> live_blocks h bs"
      "live_blocks h' bs' = insert (of_nat p, n) (live_blocks h bs)"
      "\<And>q k x. (q, k) \<in> live_blocks h bs \<Longrightarrow> x \<in> region q k \<Longrightarrow> heap_mem h' x = heap_mem h x"
      using kmalloc_owns [OF ok ff] by blast
    then have "owns a E h' (insert (of_nat p, n) L)" using a E by (auto simp: owns_def L)
    then show ?thesis
      using h' by (intro exI [of _ "of_nat p"] exI [of _ h'] conjI disjI2 exI [of _ n]) (auto simp: L)
  qed
  show "\<exists>h'. kfree h p = Some h' \<and> owns a E h' (L - {(p, n)}) \<and>
      (\<forall>(q, k) \<in> L - {(p, n)}. \<forall>x \<in> region q k. heap_mem h' x = heap_mem h x)" if "(p, n) \<in> L"
  proof -
    have pn: "(p, n) \<in> live_blocks h bs" using that by (simp add: L)
    obtain h' bs' where "kfree h p = Some h'" "heap_start h' = heap_start h" "heap_ok h' bs'"
      "extent bs' = extent bs" "live_blocks h' bs' = live_blocks h bs - {(p, n)}"
      "\<And>q k x. (q, k) \<in> live_blocks h bs \<Longrightarrow> x \<in> region q k \<Longrightarrow> heap_mem h' x = heap_mem h x"
      using kfree_owns [OF ok pn] by blast
    then show ?thesis unfolding owns_def L using a E by auto
  qed
  show "owns a E (h\<lparr>heap_mem := m\<rparr>) L" if "(p, n) \<in> L" "\<And>x. x \<notin> region p n \<Longrightarrow> m x = heap_mem h x"
  proof -
    have "(p, n) \<in> live_blocks h bs" using that(1) by (simp add: L)
    then obtain i where "p = of_nat i" "(i, n) \<in> live (unat (heap_start h)) bs"
      by (auto simp: live_blocks_def)
    then have "heap_ok (h\<lparr>heap_mem := m\<rparr>) bs" using payload_write [OF ok] that(2) by simp
    then show ?thesis using a E L by (auto simp: owns_def live_blocks_def)
  qed
qed simp

section \<open>Sequences of operations\<close>

lemma all_free_single:
  "live a bs = {} \<Longrightarrow> no_adjacent_free bs \<Longrightarrow> bs \<noteq> [] \<Longrightarrow> bs = [(extent bs - 12, True)]"
  by (cases bs rule: no_adjacent_free.cases) (auto split: if_splits)

lemma owns_nothing:
  assumes "owns a E h {}"
  shows "heap_ok h [(E - 12, True)]"
proof -
  obtain bs where bs: "heap_ok h bs" "extent bs = E" "live (unat (heap_start h)) bs = {}"
    using assms by (auto simp: owns_def live_blocks_def)
  moreover have "bs = [(E - 12, True)]"
    using all_free_single [OF bs(3)] bs(1,2) by (simp add: heap_ok_def)
  ultimately show ?thesis by simp
qed

text \<open>
  What clients may do: call \<open>kmalloc\<close>, free a block they hold or the null pointer, and write
  inside the bytes they asked for. The second component collects address and requested size of the
  blocks they hold.
\<close>

inductive heap_step :: "heap_t \<times> (u32 \<times> nat) set \<Rightarrow> heap_t \<times> (u32 \<times> nat) set \<Rightarrow> bool" where
  step_kmalloc: "kmalloc h sz = Some (p, h') \<Longrightarrow> p \<noteq> 0 \<Longrightarrow> heap_step (h, L) (h', insert (p, unat sz) L)"
| step_kmalloc_null: "kmalloc h sz = Some (0, h') \<Longrightarrow> heap_step (h, L) (h', L)"
| step_kfree: "(p, k) \<in> L \<Longrightarrow> kfree h p = Some h' \<Longrightarrow> heap_step (h, L) (h', L - {(p, k)})"
| step_kfree_null: "kfree h 0 = Some h' \<Longrightarrow> heap_step (h, L) (h', L)"
| step_write: "(p, k) \<in> L \<Longrightarrow> (\<And>x. x \<notin> region p k \<Longrightarrow> m x = heap_mem h x) \<Longrightarrow>
    heap_step (h, L) (h\<lparr>heap_mem := m\<rparr>, L)"

text \<open>The blocks held are the live blocks, at the sizes requested.\<close>

definition holds :: "u32 \<Rightarrow> nat \<Rightarrow> heap_t \<times> (u32 \<times> nat) set \<Rightarrow> bool" where
  "holds a E s \<longleftrightarrow>
     (\<exists>B. owns a E (fst s) B \<and> inj_on fst (snd s) \<and> (\<forall>(p, n) \<in> B. \<exists>k. (p, k) \<in> snd s) \<and>
          (\<forall>(p, k) \<in> snd s. \<exists>n. k \<le> n \<and> (p, n) \<in> B))"

lemma holdsE:
  assumes "holds a E (h, L)"
  obtains B where "owns a E h B" "inj_on fst L" "\<And>p n. (p, n) \<in> B \<Longrightarrow> \<exists>k. (p, k) \<in> L"
    "\<And>p k. (p, k) \<in> L \<Longrightarrow> \<exists>n. k \<le> n \<and> (p, n) \<in> B"
  using assms by (fastforce simp: holds_def)

lemma holdsI:
  "owns a E h B \<Longrightarrow> inj_on fst L \<Longrightarrow> (\<And>p n. (p, n) \<in> B \<Longrightarrow> \<exists>k. (p, k) \<in> L) \<Longrightarrow>
     (\<And>p k. (p, k) \<in> L \<Longrightarrow> \<exists>n. k \<le> n \<and> (p, n) \<in> B) \<Longrightarrow> holds a E (h, L)"
  by (auto simp: holds_def)

lemma holds_kmalloc:
  assumes "holds a E (h, L)" "kmalloc h sz = Some (p, h')" "p \<noteq> 0"
  shows "holds a E (h', insert (p, unat sz) L)"
proof -
  from assms(1) obtain B where B: "owns a E h B" "inj_on fst L" "\<And>p n. (p, n) \<in> B \<Longrightarrow> \<exists>k. (p, k) \<in> L"
    "\<And>p k. (p, k) \<in> L \<Longrightarrow> \<exists>n. k \<le> n \<and> (p, n) \<in> B" by (rule holdsE) blast
  obtain n where n: "unat sz \<le> n" "(p, n) \<notin> B" "owns a E h' (insert (p, n) B)"
    using kh.alloc_law [OF B(1), of sz] assms(2,3) by auto
  have "(p, k) \<notin> B" for k
    using kh.owned_disjoint [OF n(3), of p k p n] n(2) by auto
  then have "(p, k) \<notin> L" for k using B(4) by blast
  then have "inj_on fst (insert (p, unat sz) L)" using B(2) by (auto simp: inj_on_def)
  with n(3) show ?thesis
  proof (rule holdsI)
    show "\<exists>k. (q, k) \<in> insert (p, unat sz) L" if "(q, j) \<in> insert (p, n) B" for q j
      using that B(3) [of q j] by blast
    show "\<exists>j'. j \<le> j' \<and> (q, j') \<in> insert (p, n) B" if "(q, j) \<in> insert (p, unat sz) L" for q j
      using that B(4) [of q j] n(1) by blast
  qed
qed

lemma holds_kfree:
  assumes "holds a E (h, L)" "(p, k) \<in> L"
  shows "\<exists>h'. kfree h p = Some h' \<and> holds a E (h', L - {(p, k)})"
proof -
  from assms(1) obtain B where B: "owns a E h B" "inj_on fst L" "\<And>p n. (p, n) \<in> B \<Longrightarrow> \<exists>k. (p, k) \<in> L"
    "\<And>p k. (p, k) \<in> L \<Longrightarrow> \<exists>n. k \<le> n \<and> (p, n) \<in> B" by (rule holdsE) blast
  from B(4) [OF assms(2)] obtain n where n: "(p, n) \<in> B" by blast
  obtain h' where h': "kfree h p = Some h'" "owns a E h' (B - {(p, n)})"
    using kh.free_law [OF B(1) n] by blast
  have 1: "q \<noteq> p" if "(q, j) \<in> B - {(p, n)}" for q j
    using kh.owned_disjoint [OF B(1) n, of q j] that by auto
  have 2: "q \<noteq> p" if "(q, j) \<in> L - {(p, k)}" for q j
    using inj_onD [OF B(2) _ assms(2), of "(q, j)"] that by auto
  have "holds a E (h', L - {(p, k)})"
    using h'(2)
  proof (rule holdsI)
    show "inj_on fst (L - {(p, k)})" using B(2) by (rule inj_on_diff)
    show "\<exists>k'. (q, k') \<in> L - {(p, k)}" if "(q, j) \<in> B - {(p, n)}" for q j
      using B(3) [of q j] 1 [OF that] that by blast
    show "\<exists>j'. j \<le> j' \<and> (q, j') \<in> B - {(p, n)}" if "(q, j) \<in> L - {(p, k)}" for q j
      using B(4) [of q j] 2 [OF that] that by blast
  qed
  then show ?thesis using h'(1) by blast
qed

lemma holds_write:
  assumes "holds a E (h, L)" "(p, k) \<in> L" "\<And>x. x \<notin> region p k \<Longrightarrow> m x = heap_mem h x"
  shows "holds a E (h\<lparr>heap_mem := m\<rparr>, L)"
proof -
  from assms(1) obtain B where B: "owns a E h B" "inj_on fst L" "\<And>p n. (p, n) \<in> B \<Longrightarrow> \<exists>k. (p, k) \<in> L"
    "\<And>p k. (p, k) \<in> L \<Longrightarrow> \<exists>n. k \<le> n \<and> (p, n) \<in> B" by (rule holdsE) blast
  from B(4) [OF assms(2)] obtain n where n: "k \<le> n" "(p, n) \<in> B" by blast
  have "m x = heap_mem h x" if "x \<notin> region p n" for x
    using that assms(3) [of x] n(1) by (auto simp: region_def)
  then have "owns a E (h\<lparr>heap_mem := m\<rparr>) B" using kh.write_law [OF B(1) n(2)] by simp
  then show ?thesis using B(2-4) by (rule holdsI)
qed

lemma holds_null:
  assumes "holds a E (h, L)" "kmalloc h sz = Some (0, h')"
  shows "h' = h"
proof -
  from assms(1) obtain B where "owns a E h B" by (rule holdsE)
  then show ?thesis by (cases rule: kh.alloc_cases [where sz = sz]) (use assms(2) in auto)
qed

lemma heap_step_holds: "heap_step s t \<Longrightarrow> holds a E s \<Longrightarrow> holds a E t"
proof (induction rule: heap_step.induct)
  case (step_kmalloc_null h sz h' L)
  then show ?case using holds_null by blast
next
  case (step_kfree p k L h h')
  then show ?case using holds_kfree by fastforce
qed (auto simp: kfree_def intro: holds_kmalloc holds_write)

lemma heap_run_holds: "heap_step\<^sup>*\<^sup>* s t \<Longrightarrow> holds a E s \<Longrightarrow> holds a E t"
  by (induction rule: rtranclp_induct) (auto intro: heap_step_holds)

lemma holds_disjoint:
  assumes "holds a E (h, L)" "(p, k) \<in> L" "(q, j) \<in> L" "(p, k) \<noteq> (q, j)"
  shows "region p k \<inter> region q j = {}"
proof -
  from assms(1) obtain B where B: "owns a E h B" "inj_on fst L"
    "\<And>p k. (p, k) \<in> L \<Longrightarrow> \<exists>n. k \<le> n \<and> (p, n) \<in> B" by (rule holdsE) blast
  obtain n i where n: "k \<le> n" "(p, n) \<in> B" "j \<le> i" "(q, i) \<in> B"
    using B(3) [OF assms(2)] B(3) [OF assms(3)] by blast
  have "p \<noteq> q" using inj_onD [OF B(2) _ assms(2,3)] assms(4) by auto
  then have "(p, n) \<noteq> (q, i)" by simp
  from kh.owned_disjoint [OF B(1) n(2,4) this] have "region p n \<inter> region q i = {}" by (rule conjunct2)
  moreover have "region p k \<subseteq> region p n" "region q j \<subseteq> region q i"
    using n(1,3) by (auto simp: region_def)
  ultimately show ?thesis by blast
qed

lemma holds_nothing: "holds a E (h, {}) \<Longrightarrow> heap_ok h [(E - 12, True)]"
proof -
  assume "holds a E (h, {})"
  then obtain B where B: "owns a E h B" "\<forall>(p, n) \<in> B. False" by (auto simp: holds_def)
  then have "B = {}" by auto
  then show "heap_ok h [(E - 12, True)]" using B(1) owns_nothing by blast
qed

section \<open>The heap the kernel sets up\<close>

definition kernel_heap :: heap_t where
  "kernel_heap = kmalloc_init \<lparr>heap_start = 0, heap_mem = \<lambda>_. 0\<rparr> 0x200000 0x100000"

lemma kmalloc_init_ok:
  assumes "a \<noteq> 0" "12 \<le> unat sz" "unat a + unat sz < 2 ^ 32"
  shows "heap_ok (kmalloc_init h a sz) [(unat sz - 12, True)]" "heap_start (kmalloc_init h a sz) = a"
proof -
  have "sz - 12 = of_nat (unat sz - 12)" using assms(2) by (simp add: of_nat_diff)
  then show "heap_ok (kmalloc_init h a sz) [(unat sz - 12, True)]"
    using assms by (simp add: heap_ok_def kmalloc_init_def Let_def sizeof_block_header_def mem_simps)
qed (simp add: kmalloc_init_def Let_def)

lemma kernel_heap: "heap_ok kernel_heap [(0xFFFF4, True)]" "heap_start kernel_heap = 0x200000"
  using kmalloc_init_ok [of "0x200000" "0x100000" "\<lparr>heap_start = 0, heap_mem = \<lambda>_. 0\<rparr>"]
  by (simp_all add: kernel_heap_def)

definition kernel_heap1 :: heap_t where
  "kernel_heap1 = snd (the (kmalloc kernel_heap 100))"

lemma kernel_heap1:
  "kmalloc kernel_heap 100 = Some (0x20000C, kernel_heap1)" "heap_start kernel_heap1 = 0x200000"
  "heap_ok kernel_heap1 [(100, False), (0xFFF84, True)]"
proof -
  have "first_fit (unat (100::u32)) (unat (heap_start kernel_heap)) [(0xFFFF4, True)] =
      Some (0x20000C, [(100, False), (0xFFF84, True)])"
    by (simp add: kernel_heap(2))
  then obtain h where "kmalloc kernel_heap 100 = Some (0x20000C, h)" "heap_start h = heap_start kernel_heap"
    "heap_ok h [(100, False), (0xFFF84, True)]"
    using kmalloc_run [OF kernel_heap(1), of 100] by auto
  then show "kmalloc kernel_heap 100 = Some (0x20000C, kernel_heap1)" "heap_start kernel_heap1 = 0x200000"
    "heap_ok kernel_heap1 [(100, False), (0xFFF84, True)]"
    by (simp_all add: kernel_heap1_def kernel_heap(2))
qed

section \<open>Properties\<close>

text \<open>
  Initialisation. On a region of at least 12 bytes that does not start at address 0 and ends
  before the end of the address space, \<open>kmalloc_init\<close> makes one free block of everything but its
  header.
\<close>

theorem kmalloc_init_correct:
  assumes "start_addr \<noteq> 0" "12 \<le> unat sz" "unat start_addr + unat sz < 2 ^ 32"
  shows "heap_ok (kmalloc_init h start_addr sz) [(unat sz - 12, True)] \<and>
    heap_start (kmalloc_init h start_addr sz) = start_addr"
  using kmalloc_init_ok [OF assms] by simp

theorem kmalloc_init_correct_witness:
  "heap_ok kernel_heap [(0xFFFF4, True)] \<and> heap_start kernel_heap = 0x200000"
  using kmalloc_init_correct [of "0x200000" "0x100000" "\<lparr>heap_start = 0, heap_mem = \<lambda>_. 0\<rparr>"]
  by (simp add: kernel_heap_def)

text \<open>
  A region smaller than a header is accepted: for a size below 12 the subtraction wraps and the
  single block claims almost the whole address space.
\<close>

theorem kmalloc_init_underflow:
  assumes "unat sz < 12"
  shows "unat (hdr_size (heap_mem (kmalloc_init h start_addr sz)) start_addr) = 2 ^ 32 - 12 + unat sz"
proof -
  have "unat (sz - 12) = 2 ^ 32 + unat sz - 12" using assms unat_sub_if' [of sz 12] by simp
  then show ?thesis by (simp add: kmalloc_init_def Let_def sizeof_block_header_def mem_simps)
qed

theorem kmalloc_init_underflow_witness:
  "unat (hdr_size (heap_mem (kmalloc_init \<lparr>heap_start = 0, heap_mem = \<lambda>_. 0\<rparr> 0x200000 8)) 0x200000) = 0xFFFFFFFC"
  using kmalloc_init_underflow [of 8 "\<lparr>heap_start = 0, heap_mem = \<lambda>_. 0\<rparr>" "0x200000"] by simp

text \<open>
  C9. \<open>kmalloc\<close> is first fit. On a well-formed heap it always returns; the result and the new
  heap are those of first fit on the list of blocks: the first free block that is large enough is
  taken, split when more than a header is left over, and null is returned, with nothing changed,
  exactly when no free block is large enough. The new heap is well-formed and has the same total
  size.
\<close>

theorem kmalloc_refines_first_fit:
  assumes "heap_ok h bs"
  shows "\<exists>p h'. kmalloc h sz = Some (p, h') \<and>
    (case first_fit (unat sz) (unat (heap_start h)) bs of
       None \<Rightarrow> p = 0 \<and> h' = h \<and> (\<forall>(n, f) \<in> set bs. f \<longrightarrow> n < unat sz)
     | Some (q, bs') \<Rightarrow> p = of_nat q \<and> p \<noteq> 0 \<and> heap_ok h' bs' \<and> extent bs' = extent bs)"
proof (cases "first_fit (unat sz) (unat (heap_start h)) bs")
  case None
  then show ?thesis
    using kmalloc_run [OF assms, of sz] first_fit_None [of "unat sz" "unat (heap_start h)" bs] by simp
next
  case (Some r)
  obtain q bs' where r: "r = (q, bs')" by (cases r)
  obtain h' where h': "kmalloc h sz = Some (of_nat q, h')" "heap_start h' = heap_start h" "heap_ok h' bs'"
    "extent bs' = extent bs" using kmalloc_run [OF assms, of sz] Some r by auto
  obtain n where "(q, n) \<in> live (unat (heap_start h')) bs'"
    using first_fit_live [of "unat sz" "unat (heap_start h)" bs q bs'] Some r h'(2) by auto
  then have "(of_nat q :: u32) \<noteq> 0" by (rule live_block_range(4) [OF h'(3)])
  then show ?thesis using Some r h' by auto
qed

theorem kmalloc_refines_first_fit_witness:
  "heap_ok kernel_heap [(0xFFFF4, True)] \<and> (\<exists>p h'. kmalloc kernel_heap 100 = Some (p, h') \<and> p = 0x20000C \<and>
     heap_ok h' [(100, False), (0xFFF84, True)])"
  using kmalloc_refines_first_fit [OF kernel_heap(1), of 100] kernel_heap by auto

text \<open>
  Allocated memory is safe. A block returned by \<open>kmalloc\<close> has at least the size asked for,
  does not overlap any live block, and the call changes no byte of a live block.
\<close>

theorem kmalloc_block_fresh:
  assumes "owns a E h L" "kmalloc h sz = Some (p, h')" "p \<noteq> 0" "(q, k) \<in> L"
  shows "(\<exists>n. unat sz \<le> n \<and> owns a E h' (insert (p, n) L)) \<and> region p (unat sz) \<inter> region q k = {} \<and>
    (\<forall>x \<in> region q k. heap_mem h' x = heap_mem h x)"
  using kh.alloc_law [OF assms(1), of sz] kh.alloc_fresh [OF assms] assms(2-4) by auto

theorem kmalloc_block_fresh_witness:
  "\<exists>p h'. kmalloc kernel_heap1 16 = Some (p, h') \<and> region p 16 \<inter> region 0x20000C 100 = {}"
proof -
  have o: "owns 0x200000 0x100000 kernel_heap1 {(0x20000C, 100)}"
    using kernel_heap1(2,3) by (auto simp: owns_def live_blocks_def intro!: exI [of _ "[(100, False), (0xFFF84, True)]"])
  have "first_fit (unat (16::u32)) (unat (heap_start kernel_heap1)) [(100, False), (0xFFF84, True)] =
      Some (0x20007C, [(100, False), (16, False), (0xFFF68, True)])"
    by (simp add: kernel_heap1(2))
  then obtain h' where h': "kmalloc kernel_heap1 16 = Some (0x20007C, h')"
    using kmalloc_run [OF kernel_heap1(3), of 16] by auto
  show ?thesis using kmalloc_block_fresh [OF o h', of "0x20000C" 100] h' by auto
qed

text \<open>
  C10. \<open>kfree\<close> releases the block and coalesces. Freeing a live block always ends; the new list of
  blocks is the old one with that block marked free and every run of free neighbours merged, so no
  two neighbours are free, the total size is unchanged, the other live blocks are still live, and
  none of their bytes has changed.
\<close>

theorem kfree_coalesces:
  assumes "heap_ok h bs" "(p, n) \<in> live (unat (heap_start h)) bs"
  shows "\<exists>h' bs'. kfree h (of_nat p) = Some h' \<and> bs' = coalesce (mark_free p (unat (heap_start h)) bs) \<and>
    heap_ok h' bs' \<and> no_adjacent_free bs' \<and> extent bs' = extent bs \<and>
    live (unat (heap_start h')) bs' = live (unat (heap_start h)) bs - {(p, n)} \<and>
    (\<forall>q k x. (q, k) \<in> live (unat (heap_start h)) bs \<longrightarrow> x \<in> region (of_nat q) k \<longrightarrow>
       heap_mem h' x = heap_mem h x)"
proof -
  obtain h' where h': "kfree h (of_nat p) = Some h'" "heap_start h' = heap_start h"
    "heap_ok h' (coalesce (mark_free p (unat (heap_start h)) bs))"
    "\<forall>x. x \<notin> hdrs (unat (heap_start h)) bs \<longrightarrow> heap_mem h' x = heap_mem h x"
    using kfree_run [OF assms] by blast
  have "unat (heap_start h) + extent bs \<le> 2 ^ 32" using assms(1) by (simp add: heap_ok_def)
  then show ?thesis
    using h' mark_live [OF assms(2)] live_outside_headers [of _ _ "unat (heap_start h)" bs]
    by (auto simp: coalesce_layout coalesce_no_adjacent)
qed

theorem kfree_coalesces_witness:
  "\<exists>h'. kfree kernel_heap1 (of_nat 0x20000C) = Some h' \<and> heap_ok h' [(0xFFFF4, True)]"
proof -
  have "(0x20000C, 100) \<in> live (unat (heap_start kernel_heap1)) [(100, False), (0xFFF84, True)]"
    by (simp add: kernel_heap1(2))
  from kfree_coalesces [OF kernel_heap1(3) this] show ?thesis by (auto simp: kernel_heap1(2))
qed

text \<open>
  C11. Freeing the block just allocated restores the list of blocks exactly.
\<close>

theorem kmalloc_kfree_roundtrip:
  assumes "heap_ok h bs" "kmalloc h sz = Some (p, h1)" "p \<noteq> 0"
  shows "\<exists>h2. kfree h1 p = Some h2 \<and> heap_start h2 = heap_start h \<and> heap_ok h2 bs"
proof (cases "first_fit (unat sz) (unat (heap_start h)) bs")
  case None
  then show ?thesis using kmalloc_run [OF assms(1), of sz] assms by simp
next
  case (Some r)
  obtain q bs' where r: "r = (q, bs')" by (cases r)
  have h1: "p = of_nat q" "heap_start h1 = heap_start h" "heap_ok h1 bs'"
    using kmalloc_run [OF assms(1), of sz] Some r assms(2) by auto
  obtain n where "(q, n) \<in> live (unat (heap_start h1)) bs'"
    using first_fit_live [of "unat sz" "unat (heap_start h)" bs q bs'] Some r h1(2) by auto
  from kfree_run [OF h1(3) this] show ?thesis
    using coalesce_mark_first_fit [of "unat sz" "unat (heap_start h)" bs q bs'] Some r h1(1,2) assms(1)
    by (auto simp: heap_ok_def)
qed

theorem kmalloc_kfree_roundtrip_witness:
  "\<exists>h2. kfree kernel_heap1 0x20000C = Some h2 \<and> heap_ok h2 [(0xFFFF4, True)]"
  using kmalloc_kfree_roundtrip [OF kernel_heap(1) kernel_heap1(1)] by auto

text \<open>
  C2. No sequence of calls breaks the heap. From a fresh heap, after any number of calls of
  \<open>kmalloc\<close> and \<open>kfree\<close> by clients that free only what they hold and write only inside what they
  asked for, the blocks held do not overlap, every further call of \<open>kmalloc\<close> and every
  release of a held block returns, and once everything is freed the heap is again one free block
  of the original size: nothing is leaked and no fragmentation remains.
\<close>

theorem heap_run_safe:
  assumes "start_addr \<noteq> 0" "12 \<le> unat sz" "unat start_addr + unat sz < 2 ^ 32"
    and "heap_step\<^sup>*\<^sup>* (kmalloc_init h0 start_addr sz, {}) (h, L)"
  shows "(\<forall>p k q j. (p, k) \<in> L \<longrightarrow> (q, j) \<in> L \<longrightarrow> (p, k) \<noteq> (q, j) \<longrightarrow> region p k \<inter> region q j = {}) \<and>
    (\<forall>n. kmalloc h n \<noteq> None) \<and> (\<forall>p k. (p, k) \<in> L \<longrightarrow> kfree h p \<noteq> None) \<and>
    (L = {} \<longrightarrow> heap_ok h [(unat sz - 12, True)])"
proof -
  have "owns start_addr (unat sz) (kmalloc_init h0 start_addr sz) {}"
    using kmalloc_init_ok [OF assms(1-3), of h0] assms(2)
    by (auto simp: owns_def live_blocks_def intro!: exI [of _ "[(unat sz - 12, True)]"])
  then have "holds start_addr (unat sz) (kmalloc_init h0 start_addr sz, {})" by (auto simp: holds_def)
  then have h: "holds start_addr (unat sz) (h, L)" by (rule heap_run_holds [OF assms(4)])
  then obtain B where B: "owns start_addr (unat sz) h B" by (rule holdsE)
  have "kmalloc h n \<noteq> None" for n using kh.alloc_law [OF B, of n] by auto
  moreover have "kfree h p \<noteq> None" if "(p, k) \<in> L" for p k using holds_kfree [OF h that] by auto
  moreover have "region p k \<inter> region q j = {}" if "(p, k) \<in> L" "(q, j) \<in> L" "(p, k) \<noteq> (q, j)" for p k q j
    using holds_disjoint [OF h that] .
  moreover have "heap_ok h [(unat sz - 12, True)]" if "L = {}" using holds_nothing h that by blast
  ultimately show ?thesis by (intro conjI allI impI)
qed

theorem heap_run_safe_witness:
  "heap_step\<^sup>*\<^sup>* (kernel_heap, {}) (kernel_heap1, {(0x20000C, 100)}) \<and> kfree kernel_heap1 0x20000C \<noteq> None"
proof -
  have "heap_step (kernel_heap, {}) (kernel_heap1, insert (0x20000C, unat (100::u32)) {})"
    by (rule step_kmalloc [OF kernel_heap1(1)]) simp
  then have run: "heap_step\<^sup>*\<^sup>* (kernel_heap, {}) (kernel_heap1, {(0x20000C, 100)})" by simp
  from heap_run_safe [of "0x200000" "0x100000", OF _ _ _ this [unfolded kernel_heap_def]] run
  show ?thesis by auto
qed

end
