(* ===== verification/Process.thy ===== *)
theory Process
  imports Kmalloc_Properties
begin

text \<open>
  Processes: \<^verbatim>\<open>pcb.c\<close>, \<^verbatim>\<open>scheduler.c\<close> and the context switch of \<^verbatim>\<open>switch.asm\<close>. Process control
  blocks live in heap memory; the ready queue is the circular list through their \<open>next\<close> fields.
  The search for the end of the queue is a partial function, \<open>None\<close> when it does not end.
\<close>

section \<open>Process control blocks\<close>

datatype process_state_t = READY | RUNNING | BLOCKED | TERMINATED

primrec state_code :: "process_state_t \<Rightarrow> u32" where
  "state_code READY = 0"
| "state_code RUNNING = 1"
| "state_code BLOCKED = 2"
| "state_code TERMINATED = 3"

datatype pcb_field =
  PID | STATE | EAX | EBX | ECX | EDX | ESI | EDI | ESP | EBP | EIP | EFLAGS | NEXT

primrec offset :: "pcb_field \<Rightarrow> u32" where
  "offset PID = 0" | "offset STATE = 4" | "offset EAX = 8" | "offset EBX = 12" | "offset ECX = 16"
| "offset EDX = 20" | "offset ESI = 24" | "offset EDI = 28" | "offset ESP = 32" | "offset EBP = 36"
| "offset EIP = 40" | "offset EFLAGS = 44" | "offset NEXT = 48"

definition sizeof_pcb :: u32 where
  "sizeof_pcb = 52"

definition pcb_get :: "mem32 \<Rightarrow> u32 \<Rightarrow> pcb_field \<Rightarrow> u32" where
  "pcb_get m p f = load_le m (p + offset f) 4"

definition pcb_set :: "mem32 \<Rightarrow> u32 \<Rightarrow> pcb_field \<Rightarrow> u32 \<Rightarrow> mem32" where
  "pcb_set m p f v = store_le m (p + offset f) 4 v"

section \<open>Creating a process\<close>

record sched_t =
  kheap :: heap_t
  next_pid :: u32
  current_process :: u32
  ready_queue_head :: u32

definition create_process :: "sched_t \<Rightarrow> u32 \<Rightarrow> (u32 \<times> sched_t) option" where
  "create_process s entry_point = do {
     (new_pcb, h) \<leftarrow> kmalloc (kheap s) sizeof_pcb;
     if new_pcb = 0 then Some (0, s\<lparr>kheap := h\<rparr>)
     else do {
       let m = pcb_set (heap_mem h) new_pcb PID (next_pid s);
       let m = pcb_set m new_pcb STATE (state_code READY);
       let m = pcb_set m new_pcb EIP entry_point;
       let m = pcb_set m new_pcb ESP 0;
       let m = pcb_set m new_pcb EBP 0;
       let m = pcb_set m new_pcb EFLAGS 0x202;
       let m = pcb_set m new_pcb NEXT 0;
       Some (new_pcb, s\<lparr>kheap := h\<lparr>heap_mem := m\<rparr>, next_pid := next_pid s + 1\<rparr>) } }"

section \<open>The ready queue\<close>

partial_function (option) queue_end :: "mem32 \<Rightarrow> u32 \<Rightarrow> u32 \<Rightarrow> u32 option" where
  "queue_end m head temp =
     (if pcb_get m temp NEXT \<noteq> head then queue_end m head (pcb_get m temp NEXT) else Some temp)"

definition set_mem :: "sched_t \<Rightarrow> mem32 \<Rightarrow> sched_t" where
  "set_mem s m = s\<lparr>kheap := (kheap s)\<lparr>heap_mem := m\<rparr>\<rparr>"

definition add_to_ready_queue :: "sched_t \<Rightarrow> u32 \<Rightarrow> sched_t option" where
  "add_to_ready_queue s pcb =
     (let m = heap_mem (kheap s)
      in if ready_queue_head s = 0 then
           Some ((set_mem s (pcb_set m pcb NEXT pcb))\<lparr>ready_queue_head := pcb\<rparr>)
         else do {
           temp \<leftarrow> queue_end m (ready_queue_head s) (ready_queue_head s);
           let m = pcb_set m temp NEXT pcb;
           Some (set_mem s (pcb_set m pcb NEXT (ready_queue_head s))) })"

text \<open>
  \<open>schedule\<close> returns the new state and the argument of its call of \<open>context_switch\<close>, if it makes
  one.
\<close>

definition schedule :: "sched_t \<Rightarrow> sched_t \<times> u32 option" where
  "schedule s =
     (let s = (if current_process s = 0 then s\<lparr>current_process := ready_queue_head s\<rparr>
               else
                 let m = pcb_set (heap_mem (kheap s)) (current_process s) STATE (state_code READY)
                 in (set_mem s m)\<lparr>current_process := pcb_get m (current_process s) NEXT\<rparr>)
      in if current_process s \<noteq> 0 then
           (set_mem s (pcb_set (heap_mem (kheap s)) (current_process s) STATE (state_code RUNNING)),
            Some (current_process s))
         else (s, None))"

section \<open>The context switch\<close>

record cpu_t =
  eax :: u32
  ebx :: u32
  ecx :: u32
  edx :: u32
  esp :: u32
  eip :: u32

text \<open>The seven instructions of \<^verbatim>\<open>switch.asm\<close>, run on entry: \<open>esp\<close> points to the return address
  and the argument lies above it.\<close>

definition context_switch :: "mem32 \<Rightarrow> cpu_t \<Rightarrow> mem32 \<times> cpu_t" where
  "context_switch m c =
     (let c = c\<lparr>eax := load_le m (esp c + 4) 4\<rparr>;
          c = c\<lparr>ebx := load_le m (eax c + 12) 4\<rparr>;
          c = c\<lparr>ecx := load_le m (eax c + 16) 4\<rparr>;
          c = c\<lparr>edx := load_le m (eax c + 20) 4\<rparr>;
          m' = store_le m (esp c - 4) 4 (load_le m (eax c + 32) 4 :: u32);
          c = c\<lparr>esp := esp c - 4\<rparr>;
          c = c\<lparr>eip := load_le m' (esp c) 4, esp := esp c + 4\<rparr>
      in (m', c))"

section \<open>Reading fields after a write\<close>

lemma unat_offset: "unat (offset f) + 4 \<le> 52"
  by (cases f) simp_all

lemma offset_apart: "f \<noteq> g \<Longrightarrow> unat (offset f) + 4 \<le> unat (offset g) \<or> unat (offset g) + 4 \<le> unat (offset f)"
  by (cases f; cases g) simp_all

lemma unat_field: "unat p + 52 \<le> 2 ^ 32 \<Longrightarrow> unat (p + offset f) = unat p + unat (offset f)"
  using unat_offset [of f] by (intro unat_add_no_wrap) simp

lemma field_region: "unat p + 52 \<le> 2 ^ 32 \<Longrightarrow> region (p + offset f) 4 \<subseteq> region p 52"
  using unat_offset [of f] by (intro region_subset) (simp_all add: unat_field)

lemma fields_disjoint:
  assumes "unat p + 52 \<le> 2 ^ 32" "f \<noteq> g"
  shows "region (p + offset f) 4 \<inter> region (p + offset g) 4 = {}"
  using offset_apart [OF assms(2)] unat_offset [of f] unat_offset [of g] assms(1)
    region_disjoint [of "p + offset f" 4 "p + offset g" 4] region_disjoint' [of "p + offset g" 4 "p + offset f" 4]
  by (auto simp: unat_field)

lemma pcb_get_set [simp]:
  "unat p + 52 \<le> 2 ^ 32 \<Longrightarrow> pcb_get (pcb_set m p f v) p g = (if f = g then v else pcb_get m p g)"
  using fields_disjoint [of p g f] by (simp add: pcb_get_def pcb_set_def load_store_same load_store_other)

lemma pcb_get_cong:
  "unat p + 52 \<le> 2 ^ 32 \<Longrightarrow> (\<And>x. x \<in> region p 52 \<Longrightarrow> m' x = m x) \<Longrightarrow> pcb_get m' p f = pcb_get m p f"
  unfolding pcb_get_def using field_region [of p f] by (intro load_le_cong) blast

lemma pcb_set_outside: "unat p + 52 \<le> 2 ^ 32 \<Longrightarrow> x \<notin> region p 52 \<Longrightarrow> pcb_set m p f v x = m x"
  unfolding pcb_set_def using field_region [of p f] by (intro store_le_outside) auto

lemma pcb_get_set_other:
  assumes "unat p + 52 \<le> 2 ^ 32" "unat q + 52 \<le> 2 ^ 32" "region p 52 \<inter> region q 52 = {}"
  shows "pcb_get (pcb_set m p f v) q g = pcb_get m q g"
  using assms by (intro pcb_get_cong) (auto intro!: pcb_set_outside)

section \<open>The queue as a list\<close>

text \<open>The \<open>next\<close> fields link the blocks of a list one after the other and the last to \<open>h\<close>.\<close>

fun linked :: "mem32 \<Rightarrow> u32 list \<Rightarrow> u32 \<Rightarrow> bool" where
  "linked m [] h \<longleftrightarrow> True"
| "linked m [p] h \<longleftrightarrow> pcb_get m p NEXT = h"
| "linked m (p # q # ps) h \<longleftrightarrow> pcb_get m p NEXT = q \<and> linked m (q # ps) h"

text \<open>Blocks at distinct, non-null, non-overlapping addresses.\<close>

definition pcbs_ok :: "u32 list \<Rightarrow> bool" where
  "pcbs_ok ps \<longleftrightarrow> distinct ps \<and> (\<forall>p \<in> set ps. p \<noteq> 0 \<and> unat p + 52 \<le> 2 ^ 32) \<and>
     (\<forall>p \<in> set ps. \<forall>q \<in> set ps. p \<noteq> q \<longrightarrow> region p 52 \<inter> region q 52 = {})"

definition queue :: "sched_t \<Rightarrow> u32 list \<Rightarrow> bool" where
  "queue s ps \<longleftrightarrow> pcbs_ok ps \<and> ready_queue_head s = (if ps = [] then 0 else hd ps) \<and>
     linked (heap_mem (kheap s)) ps (ready_queue_head s)"

lemma linked_cong:
  "(\<And>p. p \<in> set ps \<Longrightarrow> pcb_get m' p NEXT = pcb_get m p NEXT) \<Longrightarrow> linked m' ps h \<longleftrightarrow> linked m ps h"
  by (induction m ps h rule: linked.induct) auto

lemma linked_nth:
  "linked m ps h \<Longrightarrow> i < length ps \<Longrightarrow> pcb_get m (ps ! i) NEXT = (if Suc i = length ps then h else ps ! Suc i)"
proof (induction m ps h arbitrary: i rule: linked.induct)
  case (3 m p q ps h)
  then show ?case by (cases i) auto
qed simp_all

lemma queue_end_last:
  "linked m (p # ps) h \<Longrightarrow> h \<notin> set ps \<Longrightarrow> queue_end m h p = Some (last (p # ps))"
proof (induction ps arbitrary: p)
  case Nil
  then show ?case by (subst queue_end.simps) simp
next
  case (Cons q ps)
  then show ?case by (subst queue_end.simps) auto
qed

lemma linked_last:
  "linked m ps h \<Longrightarrow> ps \<noteq> [] \<Longrightarrow> pcb_get m' (last ps) NEXT = h' \<Longrightarrow>
     (\<And>p. p \<in> set (butlast ps) \<Longrightarrow> pcb_get m' p NEXT = pcb_get m p NEXT) \<Longrightarrow> linked m' ps h'"
  by (induction m ps h rule: linked.induct) auto

lemma linked_snoc: "linked m ps p \<Longrightarrow> pcb_get m p NEXT = h \<Longrightarrow> linked m (ps @ [p]) h"
  by (induction m ps p rule: linked.induct) auto

end
