(* ===== verification/Process_Properties.thy ===== *)
theory Process_Properties
  imports Process
begin

text \<open>
  The scheduler: the ready queue stays a circle of distinct process control blocks, at most the
  current process is running, and \<open>schedule\<close> visits the processes in turn. Process creation
  relies on the heap contract. A last property records what the context switch does to a process
  that has just been created.
\<close>

section \<open>Process control blocks in the heap\<close>

text \<open>The process control blocks of a list are blocks of the heap.\<close>

definition in_heap :: "(u32 \<times> nat) set \<Rightarrow> u32 list \<Rightarrow> bool" where
  "in_heap L ps \<longleftrightarrow> distinct ps \<and> (\<forall>p \<in> set ps. \<exists>n. 52 \<le> n \<and> (p, n) \<in> L)"

lemma in_heap_pcbs:
  assumes "owns a E h L" "in_heap L ps"
  shows "pcbs_ok ps"
proof -
  have 1: "p \<noteq> 0 \<and> unat p + 52 \<le> 2 ^ 32" if "p \<in> set ps" for p
  proof -
    obtain n where "52 \<le> n" "(p, n) \<in> L" using \<open>p \<in> set ps\<close> assms(2) by (auto simp: in_heap_def)
    then show ?thesis using kh.owned_block [OF assms(1), of p n] by auto
  qed
  have 2: "region p 52 \<inter> region q 52 = {}" if "p \<in> set ps" "q \<in> set ps" "p \<noteq> q" for p q
  proof -
    obtain n k where n: "52 \<le> n" "(p, n) \<in> L" "52 \<le> k" "(q, k) \<in> L"
      using \<open>p \<in> set ps\<close> \<open>q \<in> set ps\<close> assms(2) unfolding in_heap_def by blast
    then have "region p n \<inter> region q k = {}" using kh.owned_disjoint [OF assms(1) n(2,4)] that(3) by simp
    moreover have "region p 52 \<subseteq> region p n" "region q 52 \<subseteq> region q k"
      using n by (auto simp: region_def)
    ultimately show ?thesis by blast
  qed
  show ?thesis using 1 2 assms(2) by (auto simp: pcbs_ok_def in_heap_def)
qed

lemma owns_pcb_set:
  assumes "owns a E h L" "in_heap L ps" "p \<in> set ps"
  shows "owns a E (h\<lparr>heap_mem := pcb_set (heap_mem h) p f v\<rparr>) L"
proof -
  obtain n where n: "52 \<le> n" "(p, n) \<in> L" using assms(2,3) by (auto simp: in_heap_def)
  have p: "unat p + 52 \<le> 2 ^ 32" using kh.owned_block [OF assms(1) n(2)] n(1) by simp
  have sub: "region p 52 \<subseteq> region p n" using n(1) by (auto simp: region_def)
  show ?thesis
    using assms(1) n(2)
  proof (rule kh.write_law)
    fix x assume "x \<notin> region p n"
    then have "x \<notin> region p 52" using sub by blast
    then show "pcb_set (heap_mem h) p f v x = heap_mem h x" using p by (intro pcb_set_outside)
  qed
qed

section \<open>Adding to the queue\<close>

lemma pcbs_okD:
  assumes "pcbs_ok ps" "p \<in> set ps"
  shows "p \<noteq> 0" "unat p + 52 \<le> 2 ^ 32"
    "q \<in> set ps \<Longrightarrow> p \<noteq> q \<Longrightarrow> pcb_get (pcb_set m p f v) q g = pcb_get m q g"
  using assms by (auto simp: pcbs_ok_def intro!: pcb_get_set_other)

lemma pcb_get_set_in:
  "pcbs_ok ps \<Longrightarrow> p \<in> set ps \<Longrightarrow> q \<in> set ps \<Longrightarrow>
     pcb_get (pcb_set m p f v) q g = (if p = q \<and> f = g then v else pcb_get m q g)"
  using pcbs_okD [of ps p] by (cases "p = q") auto

lemma mem_set_mem [simp]:
  "heap_mem (kheap (set_mem s m)) = m" "ready_queue_head (set_mem s m) = ready_queue_head s"
  "current_process (set_mem s m) = current_process s" "next_pid (set_mem s m) = next_pid s"
  by (simp_all add: set_mem_def)

lemma add_to_queue:
  assumes q: "queue s ps" and ok: "pcbs_ok (ps @ p # rs)"
  obtains s' where "add_to_ready_queue s p = Some s'" "queue s' (ps @ [p])"
    "current_process s' = current_process s"
    "\<forall>r f. r \<in> set (ps @ p # rs) \<longrightarrow> f \<noteq> NEXT \<longrightarrow>
       pcb_get (heap_mem (kheap s')) r f = pcb_get (heap_mem (kheap s)) r f"
    "\<forall>a E L. owns a E (kheap s) L \<longrightarrow> in_heap L (ps @ p # rs) \<longrightarrow> owns a E (kheap s') L"
proof (cases ps)
  case Nil
  have ok1: "pcbs_ok (ps @ [p])" using ok Nil by (auto simp: pcbs_ok_def)
  let ?s = "(set_mem s (pcb_set (heap_mem (kheap s)) p NEXT p))\<lparr>ready_queue_head := p\<rparr>"
  have "add_to_ready_queue s p = Some ?s" using q Nil by (simp add: queue_def add_to_ready_queue_def)
  moreover have "queue ?s (ps @ [p])" using ok1 Nil pcbs_okD [OF ok, of p] by (simp add: queue_def)
  moreover have "owns a E (kheap ?s) L" if "owns a E (kheap s) L" "in_heap L (ps @ p # rs)" for a E L
    using owns_pcb_set [OF that, of p] by (simp add: set_mem_def)
  moreover have "pcb_get (heap_mem (kheap ?s)) r f = pcb_get (heap_mem (kheap s)) r f"
    if "r \<in> set (ps @ p # rs)" "f \<noteq> NEXT" for r f
    using that Nil pcb_get_set_in [OF ok, of p r] by simp
  ultimately show ?thesis using that [of ?s] Nil by simp
next
  case (Cons h qs)
  let ?m = "heap_mem (kheap s)" and ?l = "last ps"
  let ?m1 = "pcb_set ?m ?l NEXT p" let ?m2 = "pcb_set ?m1 p NEXT h"
  have hd: "ready_queue_head s = h" "h \<noteq> 0" "linked ?m ps h" "h \<notin> set qs"
    using q Cons by (auto simp: queue_def pcbs_ok_def)
  have "queue_end ?m h h = Some ?l" using queue_end_last [of ?m h qs h] hd Cons by simp
  then have run: "add_to_ready_queue s p = Some (set_mem s ?m2)"
    using hd by (simp add: add_to_ready_queue_def Let_def)
  have ok1: "pcbs_ok (ps @ [p])" using ok by (auto simp: pcbs_ok_def)
  have mem: "?l \<in> set (ps @ p # rs)" "p \<in> set (ps @ p # rs)" "?l \<noteq> p" and p: "p \<notin> set ps"
    using ok Cons by (auto simp: pcbs_ok_def)
  have get: "pcb_get ?m2 r f = (if r = p \<and> f = NEXT then h else if r = ?l \<and> f = NEXT then p else pcb_get ?m r f)"
    if "r \<in> set (ps @ p # rs)" for r f
    using that mem by (auto simp: pcb_get_set_in [OF ok])
  have "linked ?m2 ps p"
  proof (rule linked_last [OF hd(3)])
    show "pcb_get ?m2 (last ps) NEXT = p" using get [OF mem(1)] mem(3) by simp
    fix r assume r: "r \<in> set (butlast ps)"
    have "r \<noteq> ?l"
    proof
      assume "r = ?l"
      then show False
        using r ok append_butlast_last_id [of ps] Cons distinct_append [of "butlast ps" "[last ps]"]
        by (auto simp: pcbs_ok_def)
    qed
    then show "pcb_get ?m2 r NEXT = pcb_get ?m r NEXT"
      using get [of r] in_set_butlastD [OF r] p by auto
  qed (simp add: Cons)
  then have "linked ?m2 (ps @ [p]) h" using get [OF mem(2)] by (intro linked_snoc) simp_all
  then have "queue (set_mem s ?m2) (ps @ [p])" using ok1 hd Cons by (simp add: queue_def)
  moreover have "owns a E (kheap (set_mem s ?m2)) L" if "owns a E (kheap s) L" "in_heap L (ps @ p # rs)" for a E L
    using owns_pcb_set [OF owns_pcb_set [OF that mem(1)] that(2) mem(2)] by (simp add: set_mem_def)
  ultimately show ?thesis using that [of "set_mem s ?m2"] run get by simp
qed

section \<open>Scheduling\<close>

text \<open>
  The invariant of the scheduler: the queue is a circle, the current process is null or queued, and
  it is the only one marked \<open>RUNNING\<close>.
\<close>

definition sched_ok :: "sched_t \<Rightarrow> u32 list \<Rightarrow> bool" where
  "sched_ok s ps \<longleftrightarrow> queue s ps \<and> (current_process s = 0 \<or> current_process s \<in> set ps) \<and>
     (\<forall>p \<in> set ps. pcb_get (heap_mem (kheap s)) p STATE = state_code RUNNING \<longleftrightarrow> p = current_process s)"

lemma queue_next:
  assumes "queue s ps" "i < length ps"
  shows "pcb_get (heap_mem (kheap s)) (ps ! i) NEXT = ps ! (Suc i mod length ps)"
  using assms linked_nth [of "heap_mem (kheap s)" ps "ready_queue_head s" i]
  by (cases "Suc i = length ps") (auto simp: queue_def hd_conv_nth)

lemma queue_state_write:
  assumes "queue s ps" "p \<in> set ps" "f \<noteq> NEXT"
  shows "queue (set_mem s (pcb_set (heap_mem (kheap s)) p f v)) ps"
proof -
  have eq: "linked (pcb_set (heap_mem (kheap s)) p f v) ps h \<longleftrightarrow> linked (heap_mem (kheap s)) ps h" for h
    using assms by (intro linked_cong) (auto simp: queue_def pcb_get_set_in)
  show ?thesis using assms(1) unfolding queue_def mem_set_mem eq .
qed

lemma queue_current [simp]: "queue (s\<lparr>current_process := c\<rparr>) ps = queue s ps"
  by (simp add: queue_def)

lemma schedule_step:
  assumes ok: "sched_ok s ps" and j: "j < length ps"
    and turn: "current_process s = 0 \<and> j = 0 \<or> (\<exists>i<length ps. current_process s = ps ! i \<and> j = Suc i mod length ps)"
  obtains s' where "schedule s = (s', Some (ps ! j))" "sched_ok s' ps" "current_process s' = ps ! j"
    "\<forall>a E L. owns a E (kheap s) L \<longrightarrow> in_heap L ps \<longrightarrow> owns a E (kheap s') L" "next_pid s' = next_pid s"
proof -
  let ?n = "ps ! j" and ?m = "heap_mem (kheap s)" and ?c = "current_process s"
  have q: "queue s ps" and p: "pcbs_ok ps" using ok by (auto simp: sched_ok_def queue_def)
  have nx: "?n \<in> set ps" "?n \<noteq> 0" using j pcbs_okD(1) [OF p, of ?n] by auto
  define s1 where "s1 = (if ?c = 0 then s\<lparr>current_process := ready_queue_head s\<rparr>
    else (set_mem s (pcb_set ?m ?c STATE (state_code READY)))\<lparr>current_process :=
      pcb_get (pcb_set ?m ?c STATE (state_code READY)) ?c NEXT\<rparr>)"
  have cur: "?c \<in> set ps" if "?c \<noteq> 0" using ok that by (auto simp: sched_ok_def)
  have s1: "current_process s1 = ?n" "queue s1 ps"
    "\<forall>r \<in> set ps. r \<noteq> ?n \<longrightarrow> pcb_get (heap_mem (kheap s1)) r STATE \<noteq> state_code RUNNING"
  proof -
    have "j = 0" if "?c = 0"
      using that turn pcbs_okD(1) [OF p] nth_mem by force
    then have "ready_queue_head s = ?n" if "?c = 0"
      using that q j by (cases ps) (auto simp: queue_def)
    moreover have "pcb_get ?m ?c NEXT = ?n" if "?c \<noteq> 0" using that turn queue_next [OF q] by auto
    ultimately show "current_process s1 = ?n"
      using cur pcb_get_set_in [OF p, of ?c ?c] by (auto simp: s1_def)
    show "queue s1 ps" using q cur by (auto simp: s1_def intro!: queue_state_write)
    show "\<forall>r \<in> set ps. r \<noteq> ?n \<longrightarrow> pcb_get (heap_mem (kheap s1)) r STATE \<noteq> state_code RUNNING"
      using ok cur pcbs_okD(1) [OF p] by (auto simp: s1_def sched_ok_def pcb_get_set_in [OF p])
  qed
  let ?s = "set_mem s1 (pcb_set (heap_mem (kheap s1)) ?n STATE (state_code RUNNING))"
  have "schedule s = (let s = s1 in if current_process s \<noteq> 0 then
      (set_mem s (pcb_set (heap_mem (kheap s)) (current_process s) STATE (state_code RUNNING)),
       Some (current_process s)) else (s, None))"
    by (simp only: schedule_def s1_def Let_def)
  then have "schedule s = (?s, Some ?n)" using s1(1) nx(2) by (simp add: Let_def)
  moreover have "sched_ok ?s ps"
    using s1 nx(1) queue_state_write [OF s1(2) nx(1)] by (auto simp: sched_ok_def pcb_get_set_in [OF p])
  moreover have "owns a E (kheap ?s) L" if oh: "owns a E (kheap s) L" "in_heap L ps" for a E L
  proof -
    have "owns a E (kheap s1) L" using oh owns_pcb_set [OF oh cur] by (auto simp: s1_def set_mem_def)
    then show ?thesis using owns_pcb_set [OF _ oh(2) nx(1)] by (simp add: set_mem_def)
  qed
  moreover have "next_pid ?s = next_pid s" by (simp add: s1_def)
  ultimately show ?thesis using that s1(1) by simp
qed

lemma schedule_next:
  assumes "sched_ok s ps" "i < length ps" "current_process s = ps ! i"
  shows "\<exists>s'. schedule s = (s', Some (ps ! (Suc i mod length ps))) \<and> sched_ok s' ps \<and>
    current_process s' = ps ! (Suc i mod length ps)"
proof -
  have j: "Suc i mod length ps < length ps" using assms(2) by (cases ps) simp_all
  have turn: "current_process s = 0 \<and> Suc i mod length ps = 0 \<or>
      (\<exists>i'<length ps. current_process s = ps ! i' \<and> Suc i mod length ps = Suc i' mod length ps)"
    using assms(2,3) by auto
  obtain s' where "schedule s = (s', Some (ps ! (Suc i mod length ps)))" "sched_ok s' ps"
    "current_process s' = ps ! (Suc i mod length ps)"
    by (rule schedule_step [OF assms(1) j turn])
  then show ?thesis by blast
qed

lemma schedule_first:
  assumes "sched_ok s ps" "ps \<noteq> []" "current_process s = 0"
  shows "\<exists>s'. schedule s = (s', Some (ps ! 0)) \<and> sched_ok s' ps \<and> current_process s' = ps ! 0"
proof -
  have j: "0 < length ps" using assms(2) by simp
  have turn: "current_process s = 0 \<and> (0::nat) = 0 \<or>
      (\<exists>i<length ps. current_process s = ps ! i \<and> 0 = Suc i mod length ps)"
    using assms(3) by simp
  obtain s' where "schedule s = (s', Some (ps ! 0))" "sched_ok s' ps" "current_process s' = ps ! 0"
    by (rule schedule_step [OF assms(1) j turn])
  then show ?thesis by blast
qed

definition sched_iter :: "nat \<Rightarrow> sched_t \<Rightarrow> sched_t" where
  "sched_iter k s = ((\<lambda>s. fst (schedule s)) ^^ k) s"

lemma sched_iter_Suc: "sched_iter (Suc k) s = fst (schedule (sched_iter k s))"
  by (simp add: sched_iter_def)

lemma round_robin_from:
  assumes "sched_ok s ps" "i < length ps" "current_process s = ps ! i"
  shows "sched_ok (sched_iter k s) ps \<and> current_process (sched_iter k s) = ps ! ((i + k) mod length ps)"
proof (induction k)
  case 0
  then show ?case using assms by (simp add: sched_iter_def)
next
  case (Suc k)
  let ?i = "(i + k) mod length ps"
  have "?i < length ps" using assms(2) by (cases ps) simp_all
  then obtain s' where "schedule (sched_iter k s) = (s', Some (ps ! (Suc ?i mod length ps)))"
    "sched_ok s' ps" "current_process s' = ps ! (Suc ?i mod length ps)"
    using schedule_next [of "sched_iter k s" ps ?i] Suc by blast
  then show ?case by (simp add: sched_iter_Suc mod_Suc_eq)
qed

lemma round_robin_start:
  assumes "sched_ok s ps" "ps \<noteq> []" "current_process s = 0"
  shows "sched_ok (sched_iter (Suc k) s) ps \<and> current_process (sched_iter (Suc k) s) = ps ! (k mod length ps)"
proof -
  obtain s' where s': "schedule s = (s', Some (ps ! 0))" "sched_ok s' ps" "current_process s' = ps ! 0"
    using schedule_first [OF assms] by blast
  have "sched_iter (Suc k) s = sched_iter k s'"
    using s'(1) by (simp add: sched_iter_def funpow_Suc_right del: funpow.simps)
  then show ?thesis using round_robin_from [OF s'(2) _ s'(3), of k] assms(2) by simp
qed

section \<open>Creating a process\<close>

definition new_pcb :: "mem32 \<Rightarrow> u32 \<Rightarrow> u32 \<Rightarrow> u32 \<Rightarrow> bool" where
  "new_pcb m p pid entry_point \<longleftrightarrow>
     pcb_get m p PID = pid \<and> pcb_get m p STATE = state_code READY \<and> pcb_get m p EIP = entry_point \<and>
     pcb_get m p ESP = 0 \<and> pcb_get m p EBP = 0 \<and> pcb_get m p EFLAGS = 0x202 \<and> pcb_get m p NEXT = 0"

lemma create_process_cases:
  assumes own: "owns a E (kheap s) L"
  obtains (null) "create_process s entry_point = Some (0, s)"
    | (new) p n s' where "create_process s entry_point = Some (p, s')" "p \<noteq> 0" "52 \<le> n" "(p, n) \<notin> L"
        "owns a E (kheap s') (insert (p, n) L)" "new_pcb (heap_mem (kheap s')) p (next_pid s) entry_point"
        "next_pid s' = next_pid s + 1" "current_process s' = current_process s"
        "ready_queue_head s' = ready_queue_head s"
        "\<And>q k x. (q, k) \<in> L \<Longrightarrow> x \<in> region q k \<Longrightarrow> heap_mem (kheap s') x = heap_mem (kheap s) x"
  using own
proof (cases rule: kh.alloc_cases [where sz = sizeof_pcb])
  case null
  then show ?thesis by (intro that(1)) (simp add: create_process_def)
next
  case (block p n h)
  have n: "52 \<le> n" using block(3) by (simp add: sizeof_pcb_def)
  then have p: "unat p + 52 \<le> 2 ^ 32" using block(6) by simp
  let ?m = "pcb_set (pcb_set (pcb_set (pcb_set (pcb_set (pcb_set (pcb_set (heap_mem h) p PID (next_pid s)) p
    STATE (state_code READY)) p EIP entry_point) p ESP 0) p EBP 0) p EFLAGS 0x202) p NEXT 0"
  let ?s = "s\<lparr>kheap := h\<lparr>heap_mem := ?m\<rparr>, next_pid := next_pid s + 1\<rparr>"
  have out: "?m x = heap_mem h x" if "x \<notin> region p 52" for x
    using that p by (simp add: pcb_set_outside)
  have sub: "region p 52 \<subseteq> region p n" using n by (auto simp: region_def)
  have own': "owns a E (h\<lparr>heap_mem := ?m\<rparr>) (insert (p, n) L)"
    using out sub by (intro kh.write_law [OF block(5), of p n]) auto
  have same: "?m x = heap_mem (kheap s) x" if qk: "(q, k) \<in> L" "x \<in> region q k" for q k x
  proof -
    have ne: "(p, n) \<noteq> (q, k)" using block(4) qk(1) by auto
    have "(p, n) \<in> insert (p, n) L" "(q, k) \<in> insert (p, n) L" using qk(1) by simp_all
    from kh.owned_disjoint [OF block(5) this ne] have "region p n \<inter> region q k = {}" by (rule conjunct2)
    then have "x \<notin> region p 52" using sub qk(2) by blast
    then show ?thesis using out block(7) [OF qk] by simp
  qed
  have "new_pcb ?m p (next_pid s) entry_point" using p by (simp add: new_pcb_def)
  moreover have "create_process s entry_point = Some (p, ?s)"
    using block(1,2) by (simp add: create_process_def Let_def)
  ultimately show ?thesis using that(2) [of p ?s n] block(2,4) n own' same by simp
qed

lemma queue_kept:
  assumes "queue s ps" "owns a E (kheap s) L" "in_heap L ps" "ready_queue_head s' = ready_queue_head s"
    "\<And>q k x. (q, k) \<in> L \<Longrightarrow> x \<in> region q k \<Longrightarrow> heap_mem (kheap s') x = heap_mem (kheap s) x"
  shows "queue s' ps" "q \<in> set ps \<Longrightarrow> pcb_get (heap_mem (kheap s')) q f = pcb_get (heap_mem (kheap s)) q f"
proof -
  have get: "pcb_get (heap_mem (kheap s')) q f = pcb_get (heap_mem (kheap s)) q f" if "q \<in> set ps" for q f
  proof -
    obtain n where n: "52 \<le> n" "(q, n) \<in> L" using \<open>q \<in> set ps\<close> assms(3) by (auto simp: in_heap_def)
    have "heap_mem (kheap s') x = heap_mem (kheap s) x" if "x \<in> region q 52" for x
      using that n(1) by (intro assms(5) [OF n(2)]) (simp add: region_def)
    then show ?thesis
      using that assms(1) by (intro pcb_get_cong) (auto simp: queue_def pcbs_ok_def)
  qed
  then show "q \<in> set ps \<Longrightarrow> pcb_get (heap_mem (kheap s')) q f = pcb_get (heap_mem (kheap s)) q f" .
  have eq: "linked (heap_mem (kheap s')) ps h \<longleftrightarrow> linked (heap_mem (kheap s)) ps h" for h
    using get by (intro linked_cong)
  show "queue s' ps" using assms(1) unfolding queue_def assms(4) eq .
qed

section \<open>The system of processes\<close>

text \<open>
  The queued processes \<open>ps\<close> and the processes \<open>ws\<close> that have been created and wait to be queued: all
  of them are different live blocks of the heap, and those that wait are \<open>READY\<close>.
\<close>

definition system :: "u32 \<Rightarrow> nat \<Rightarrow> sched_t \<Rightarrow> u32 list \<Rightarrow> u32 list \<Rightarrow> bool" where
  "system a E s ps ws \<longleftrightarrow> (\<exists>L. owns a E (kheap s) L \<and> in_heap L (ps @ ws)) \<and> sched_ok s ps \<and>
     (\<forall>p \<in> set ws. pcb_get (heap_mem (kheap s)) p STATE = state_code READY)"

lemma in_heap_append: "in_heap L (ps @ ws) \<longleftrightarrow> in_heap L ps \<and> in_heap L ws \<and> set ps \<inter> set ws = {}"
  by (auto simp: in_heap_def)

lemma schedule_empty: "sched_ok s [] \<Longrightarrow> schedule s = (s, None)"
  by (auto simp: sched_ok_def queue_def schedule_def)

lemma schedule_turn:
  assumes "sched_ok s ps" "ps \<noteq> []"
  obtains j where "j < length ps" "current_process s = 0 \<and> j = 0 \<or>
      (\<exists>i<length ps. current_process s = ps ! i \<and> j = Suc i mod length ps)"
proof (cases "current_process s = 0")
  case True
  then show ?thesis using that [of 0] assms(2) by simp
next
  case False
  then obtain i where "i < length ps" "current_process s = ps ! i"
    using assms(1) by (auto simp: sched_ok_def in_set_conv_nth)
  then show ?thesis using that [of "Suc i mod length ps"] assms(2) by auto
qed

text \<open>Scheduling writes to queued blocks only.\<close>

lemma schedule_frame:
  assumes "sched_ok s ps" "pcbs_ok (ps @ ws)" "schedule s = (s', r)" "current_process s' = 0 \<or> current_process s' \<in> set ps" "w \<in> set ws"
  shows "pcb_get (heap_mem (kheap s')) w f = pcb_get (heap_mem (kheap s)) w f"
proof -
  have other: "pcb_get (pcb_set m p g v) w f = pcb_get m w f" if "p \<in> set ps" for m p g v
  proof -
    have "p \<noteq> w" using that assms(2,5) by (auto simp: pcbs_ok_def)
    then show ?thesis using pcbs_okD(3) [OF assms(2), of p w] that assms(5) by simp
  qed
  have "current_process s = 0 \<or> current_process s \<in> set ps" using assms(1) by (simp add: sched_ok_def)
  then show ?thesis using assms(3,4) other by (auto simp: schedule_def Let_def split: if_splits)
qed

lemma schedule_system:
  assumes sys: "system a E s ps ws" and run: "schedule s = (s', r)"
  shows "system a E s' ps ws"
proof (cases "ps = []")
  case True
  then show ?thesis using assms schedule_empty by (auto simp: system_def)
next
  case False
  have ok: "sched_ok s ps" using sys by (simp add: system_def)
  obtain L where L: "owns a E (kheap s) L" "in_heap L (ps @ ws)" using sys by (auto simp: system_def)
  obtain j where j: "j < length ps" and turn: "current_process s = 0 \<and> j = 0 \<or>
      (\<exists>i<length ps. current_process s = ps ! i \<and> j = Suc i mod length ps)"
    using schedule_turn [OF ok False] .
  obtain s2 where s2: "schedule s = (s2, Some (ps ! j))" "sched_ok s2 ps" "current_process s2 = ps ! j"
    "\<forall>a E L. owns a E (kheap s) L \<longrightarrow> in_heap L ps \<longrightarrow> owns a E (kheap s2) L"
    by (rule schedule_step [OF ok j turn]) (rule that)
  have eq: "s2 = s'" using run s2(1) by simp
  have "pcb_get (heap_mem (kheap s')) w STATE = pcb_get (heap_mem (kheap s)) w STATE" if "w \<in> set ws" for w
    using s2(3) j eq by (intro schedule_frame [OF ok in_heap_pcbs [OF L] run _ that]) auto
  then show ?thesis using s2(2,4) L eq sys unfolding system_def in_heap_append by auto
qed

text \<open>Creating a process, and queueing one that waits.\<close>

lemma pcb_kept:
  assumes "owns a E h L" "in_heap L ps" "\<And>q k x. (q, k) \<in> L \<Longrightarrow> x \<in> region q k \<Longrightarrow> m x = heap_mem h x" "p \<in> set ps"
  shows "pcb_get m p f = pcb_get (heap_mem h) p f"
proof -
  obtain n where n: "52 \<le> n" "(p, n) \<in> L" using assms(2,4) by (auto simp: in_heap_def)
  have "unat p + 52 \<le> 2 ^ 32" using kh.owned_block [OF assms(1) n(2)] n(1) by simp
  moreover have "m x = heap_mem h x" if "x \<in> region p 52" for x
    using that n(1) by (intro assms(3) [OF n(2)]) (simp add: region_def)
  ultimately show ?thesis by (intro pcb_get_cong)
qed

lemma create_system:
  assumes sys: "system a E s ps ws" and new: "create_process s entry_point = Some (p, s1)" "p \<noteq> 0"
  shows "system a E s1 ps (ws @ [p])" "current_process s1 = current_process s"
proof -
  obtain L where L: "owns a E (kheap s) L" "in_heap L (ps @ ws)" and ok: "sched_ok s ps"
    using sys by (auto simp: system_def)
  from L(1) obtain n where n: "52 \<le> n" "(p, n) \<notin> L" "owns a E (kheap s1) (insert (p, n) L)"
    "new_pcb (heap_mem (kheap s1)) p (next_pid s) entry_point" "current_process s1 = current_process s"
    "ready_queue_head s1 = ready_queue_head s"
    "\<And>q k x. (q, k) \<in> L \<Longrightarrow> x \<in> region q k \<Longrightarrow> heap_mem (kheap s1) x = heap_mem (kheap s) x"
    by (cases rule: create_process_cases [where entry_point = entry_point]) (use new in auto)
  have same: "pcb_get (heap_mem (kheap s1)) q f = pcb_get (heap_mem (kheap s)) q f" if "q \<in> set (ps @ ws)" for q f
    using pcb_kept [OF L n(7) that] .
  have fresh: "p \<notin> set (ps @ ws)"
  proof
    assume "p \<in> set (ps @ ws)"
    then obtain k where k: "(p, k) \<in> L" using L(2) by (auto simp: in_heap_def)
    then have "(p, n) \<noteq> (p, k)" using n(2) by auto
    from kh.owned_disjoint [OF n(3) _ _ this] show False using k by simp
  qed
  then have ih: "in_heap (insert (p, n) L) (ps @ ws @ [p])" using L(2) n(1) by (auto simp: in_heap_def)
  have "in_heap L ps" using L(2) by (simp add: in_heap_append)
  then have "queue s1 ps" using queue_kept(1) [OF _ L(1) _ n(6,7)] ok by (simp add: sched_ok_def)
  then have "sched_ok s1 ps" using ok same by (simp add: sched_ok_def n(5))
  moreover have "\<forall>q \<in> set (ws @ [p]). pcb_get (heap_mem (kheap s1)) q STATE = state_code READY"
    using sys same n(4) by (simp add: system_def new_pcb_def)
  ultimately show "system a E s1 ps (ws @ [p])" using n(3) ih unfolding system_def by auto
  show "current_process s1 = current_process s" by (fact n(5))
qed

lemma enqueue_system:
  assumes sys: "system a E s ps ws" and p: "p \<in> set ws"
  obtains s' where "add_to_ready_queue s p = Some s'" "system a E s' (ps @ [p]) (remove1 p ws)" "current_process s' = current_process s"
proof -
  obtain L where L: "owns a E (kheap s) L" "in_heap L (ps @ ws)" and ok: "sched_ok s ps"
    using sys by (auto simp: system_def)
  have ih: "in_heap L (ps @ p # remove1 p ws)" using L(2) p by (auto simp: in_heap_def)
  have q: "queue s ps" using ok by (simp add: sched_ok_def)
  obtain s' where s': "add_to_ready_queue s p = Some s'" "queue s' (ps @ [p])" "current_process s' = current_process s"
    "\<forall>r f. r \<in> set (ps @ p # remove1 p ws) \<longrightarrow> f \<noteq> NEXT \<longrightarrow>
       pcb_get (heap_mem (kheap s')) r f = pcb_get (heap_mem (kheap s)) r f"
    "\<forall>a E L. owns a E (kheap s) L \<longrightarrow> in_heap L (ps @ p # remove1 p ws) \<longrightarrow> owns a E (kheap s') L"
    by (rule add_to_queue [OF q in_heap_pcbs [OF L(1) ih]])
  have "p \<noteq> 0" "p \<notin> set ps" using pcbs_okD(1) [OF in_heap_pcbs [OF L(1) ih], of p] ih by (auto simp: in_heap_def)
  then have cur: "current_process s \<noteq> p" using ok by (auto simp: sched_ok_def)
  have st: "pcb_get (heap_mem (kheap s')) r STATE = pcb_get (heap_mem (kheap s)) r STATE" if "r \<in> set (ps @ p # remove1 p ws)" for r
    using s'(4) that by blast
  have "pcb_get (heap_mem (kheap s)) p STATE = state_code READY" using sys p by (simp add: system_def)
  then have "sched_ok s' (ps @ [p])" using s'(2) ok st cur unfolding sched_ok_def s'(3) by auto
  moreover have "\<forall>r \<in> set (remove1 p ws). pcb_get (heap_mem (kheap s')) r STATE = state_code READY"
    using sys st notin_set_remove1 [of _ ws p] by (auto simp: system_def)
  moreover have "owns a E (kheap s') L" using s'(5) L(1) ih by blast
  ultimately have "system a E s' (ps @ [p]) (remove1 p ws)" using ih unfolding system_def by auto
  then show thesis using that s'(1,3) by blast
qed

lemma create_null:
  assumes "system a E s ps ws" "create_process s entry_point = Some (0, s1)"
  shows "s1 = s"
proof -
  obtain L where "owns a E (kheap s) L" using assms(1) by (auto simp: system_def)
  then show ?thesis
    by (cases rule: create_process_cases [where entry_point = entry_point]) (use assms(2) in auto)
qed

text \<open>
  The calls that concern processes, in any order: creating one, which then waits, queueing one that
  waits, and scheduling. Beside the state the relation keeps the blocks that wait and the blocks
  that have been queued, in the order of the calls. A block is queued once: that is the condition
  under which the routine is correct, as the last lemma of this section shows.
\<close>

inductive sched_step :: "sched_t \<times> u32 list \<times> u32 list \<Rightarrow> sched_t \<times> u32 list \<times> u32 list \<Rightarrow> bool" where
  step_create: "create_process s entry_point = Some (p, s') \<Longrightarrow>
     sched_step (s, ws, ps) (s', if p = 0 then ws else ws @ [p], ps)"
| step_queue: "p \<in> set ws \<Longrightarrow> add_to_ready_queue s p = Some s' \<Longrightarrow> sched_step (s, ws, ps) (s', remove1 p ws, ps @ [p])"
| step_schedule: "schedule s = (s', r) \<Longrightarrow> sched_step (s, ws, ps) (s', ws, ps)"

lemma sched_step_system:
  "sched_step (s, ws, ps) (s', ws', ps') \<Longrightarrow> system a E s ps ws \<Longrightarrow> system a E s' ps' ws'"
proof (induction "(s, ws, ps)" "(s', ws', ps')" rule: sched_step.induct)
  case (step_create entry_point p)
  then show ?case using create_system(1) [of a E s ps ws entry_point p s'] create_null [of a E s ps ws entry_point s']
    by (cases "p = 0") auto
next
  case (step_queue p)
  then show ?case using enqueue_system [of a E s ps ws p] by (metis option.inject)
next
  case (step_schedule r)
  then show ?case using schedule_system by blast
qed

lemma sched_run_system: "sched_step\<^sup>*\<^sup>* (s, ws, ps) (s', ws', ps') \<Longrightarrow> system a E s ps ws \<Longrightarrow> system a E s' ps' ws'"
  by (induction "(s', ws', ps')" arbitrary: s' ws' ps' rule: rtranclp_induct) (auto dest: sched_step_system)

text \<open>Every call returns.\<close>

lemma system_progress:
  assumes "system a E s ps ws"
  shows "create_process s entry_point \<noteq> None" "p \<in> set ws \<Longrightarrow> add_to_ready_queue s p \<noteq> None"
proof -
  obtain L where "owns a E (kheap s) L" using assms by (auto simp: system_def)
  then show "create_process s entry_point \<noteq> None"
    by (cases rule: create_process_cases [where entry_point = entry_point]) auto
  show "add_to_ready_queue s p \<noteq> None" if "p \<in> set ws" by (rule enqueue_system [OF assms that]) simp
qed

text \<open>
  Queueing the head of a longer queue a second time makes it its own successor: the other
  processes drop out of the rotation.
\<close>

lemma queueing_twice:
  assumes "queue s (p # q # ps)"
  shows "\<exists>s'. add_to_ready_queue s p = Some s' \<and> pcb_get (heap_mem (kheap s')) p NEXT = p"
proof -
  have h: "ready_queue_head s = p" "p \<noteq> 0" "unat p + 52 \<le> 2 ^ 32" "linked (heap_mem (kheap s)) (p # q # ps) p" "p \<notin> set (q # ps)"
    using assms by (auto simp: queue_def pcbs_ok_def)
  have "queue_end (heap_mem (kheap s)) p p = Some (last (p # q # ps))"
    using queue_end_last [of "heap_mem (kheap s)" p "q # ps" p] h by simp
  then show ?thesis using h by (simp add: add_to_ready_queue_def Let_def)
qed

definition boot_sched :: sched_t where
  "boot_sched = \<lparr>kheap = kernel_heap, next_pid = 1, current_process = 0, ready_queue_head = 0\<rparr>"

lemma kernel_heap_owns: "owns 0x200000 0x100000 kernel_heap {}"
  using kernel_heap by (auto simp: owns_def live_blocks_def intro!: exI [of _ "[(0xFFFF4, True)]"])

lemma boot_sched: "system 0x200000 0x100000 boot_sched [] []"
  using kernel_heap_owns
  by (auto simp: system_def sched_ok_def queue_def pcbs_ok_def in_heap_def boot_sched_def)

definition boot_pcb1 :: sched_t where
  "boot_pcb1 = snd (the (create_process boot_sched 0x1000))"

definition boot_sched1 :: sched_t where
  "boot_sched1 = the (add_to_ready_queue boot_pcb1 0x20000C)"

lemma create_process_run:
  assumes ok: "heap_ok (kheap s) bs" and fit: "first_fit 52 (unat (heap_start (kheap s))) bs = Some (p, bs')"
    and p: "(p, n) \<in> live (unat (heap_start (kheap s))) bs'" "52 \<le> n"
  obtains s' where "create_process s entry_point = Some (of_nat p, s')" "heap_ok (kheap s') bs'" "heap_start (kheap s') = heap_start (kheap s)"
proof -
  obtain h where h: "kmalloc (kheap s) 52 = Some (of_nat p, h)" "heap_start h = heap_start (kheap s)" "heap_ok h bs'"
    using kmalloc_run [OF ok, of 52] fit by auto
  have r: "unat (of_nat p :: u32) = p" "(of_nat p :: u32) \<noteq> 0" "p + n < 2 ^ 32" using live_block_range [OF h(3)] p h(2) by auto
  let ?q = "of_nat p :: u32"
  let ?m = "pcb_set (pcb_set (pcb_set (pcb_set (pcb_set (pcb_set (pcb_set (heap_mem h) ?q PID (next_pid s)) ?q
    STATE (state_code READY)) ?q EIP entry_point) ?q ESP 0) ?q EBP 0) ?q EFLAGS 0x202) ?q NEXT 0"
  have "?m x = heap_mem h x" if x: "x \<notin> region ?q n" for x
  proof -
    have "x \<notin> region ?q 52" using x p(2) by (auto simp: region_def)
    then show ?thesis using r p(2) by (simp add: pcb_set_outside)
  qed
  then have "heap_ok (h\<lparr>heap_mem := ?m\<rparr>) bs'" using payload_write [OF h(3), of p n] p(1) h(2) by simp
  then show thesis
    using that [of "s\<lparr>kheap := h\<lparr>heap_mem := ?m\<rparr>, next_pid := next_pid s + 1\<rparr>"] h(1,2) r(2)
    by (simp add: create_process_def sizeof_pcb_def Let_def)
qed

lemma boot_pcb1:
  "create_process boot_sched 0x1000 = Some (0x20000C, boot_pcb1)"
  "heap_ok (kheap boot_pcb1) [(52, False), (0xFFFB4, True)]" "heap_start (kheap boot_pcb1) = 0x200000"
proof -
  have "heap_ok (kheap boot_sched) [(0xFFFF4, True)]" "heap_start (kheap boot_sched) = 0x200000"
    using kernel_heap by (simp_all add: boot_sched_def)
  then obtain s where "create_process boot_sched 0x1000 = Some (of_nat 0x20000C, s)"
    "heap_ok (kheap s) [(52, False), (0xFFFB4, True)]" "heap_start (kheap s) = 0x200000"
    using create_process_run [of boot_sched "[(0xFFFF4, True)]" "0x20000C" "[(52, False), (0xFFFB4, True)]" 52 "0x1000"] by auto
  then show "create_process boot_sched 0x1000 = Some (0x20000C, boot_pcb1)"
    "heap_ok (kheap boot_pcb1) [(52, False), (0xFFFB4, True)]" "heap_start (kheap boot_pcb1) = 0x200000"
    by (simp_all add: boot_pcb1_def)
qed

text \<open>A second process, created before the first is queued.\<close>

lemma boot_pcb2:
  obtains s where "create_process boot_pcb1 0x2000 = Some (0x20004C, s)"
  using create_process_run [OF boot_pcb1(2), of "0x20004C" "[(52, False), (52, False), (0xFFF74, True)]" 52 "0x2000"] boot_pcb1(3) by auto

lemma boot_sched1:
  "add_to_ready_queue boot_pcb1 0x20000C = Some boot_sched1" "system 0x200000 0x100000 boot_sched1 [0x20000C] []"
  "current_process boot_sched1 = 0"
proof -
  have "system 0x200000 0x100000 boot_pcb1 [] [0x20000C]" "current_process boot_pcb1 = 0"
    using create_system [OF boot_sched boot_pcb1(1)] by (simp_all add: boot_sched_def)
  moreover from this(1) obtain s where "add_to_ready_queue boot_pcb1 0x20000C = Some s"
    "system 0x200000 0x100000 s [0x20000C] []" "current_process s = current_process boot_pcb1"
    by (rule enqueue_system [of _ _ _ _ _ "0x20000C"]) simp_all
  ultimately show "add_to_ready_queue boot_pcb1 0x20000C = Some boot_sched1" "system 0x200000 0x100000 boot_sched1 [0x20000C] []"
    "current_process boot_sched1 = 0" by (simp_all add: boot_sched1_def)
qed

section \<open>Properties\<close>

text \<open>
  C19. Creating a process. On a well-formed heap \<open>create_process\<close> always returns. It returns null and
  changes nothing when the heap is full; otherwise it returns a fresh block of at least 52 bytes
  whose fields \<open>pid\<close>, \<open>state\<close>, \<open>eip\<close>, \<open>esp\<close>, \<open>ebp\<close>, \<open>eflags\<close> and \<open>next\<close> are set as the code says, with
  a new process number, and no byte of any other live block changes.
\<close>

theorem create_process_correct:
  assumes "owns a E (kheap s) L"
  shows "create_process s entry_point = Some (0, s) \<or>
    (\<exists>p n s'. create_process s entry_point = Some (p, s') \<and> p \<noteq> 0 \<and> 52 \<le> n \<and> (p, n) \<notin> L \<and>
       owns a E (kheap s') (insert (p, n) L) \<and> new_pcb (heap_mem (kheap s')) p (next_pid s) entry_point \<and>
       next_pid s' = next_pid s + 1 \<and>
       (\<forall>q k x. (q, k) \<in> L \<longrightarrow> x \<in> region q k \<longrightarrow> heap_mem (kheap s') x = heap_mem (kheap s) x))"
  using assms by (cases rule: create_process_cases [where entry_point = entry_point]) blast+

theorem create_process_correct_witness:
  "\<exists>n s'. create_process boot_sched 0x1000 = Some (0x20000C, s') \<and> 52 \<le> n \<and>
     owns 0x200000 0x100000 (kheap s') {(0x20000C, n)} \<and> new_pcb (heap_mem (kheap s')) 0x20000C 1 0x1000"
proof -
  have "owns 0x200000 0x100000 (kheap boot_sched) {}" using kernel_heap_owns by (simp add: boot_sched_def)
  from create_process_correct [OF this, of "0x1000"] show ?thesis
    using boot_pcb1(1) by (auto simp: boot_sched_def)
qed

text \<open>
  Queueing. Adding a process control block that is not yet queued always ends, appends it to
  the circle, and changes no field but \<open>next\<close>.
\<close>

theorem add_to_ready_queue_appends:
  assumes "queue s ps" "pcbs_ok (ps @ [p])"
  shows "\<exists>s'. add_to_ready_queue s p = Some s' \<and> queue s' (ps @ [p]) \<and> current_process s' = current_process s \<and>
    (\<forall>r f. r \<in> set (ps @ [p]) \<longrightarrow> f \<noteq> NEXT \<longrightarrow>
       pcb_get (heap_mem (kheap s')) r f = pcb_get (heap_mem (kheap s)) r f)"
  by (rule add_to_queue [OF assms]) blast

theorem add_to_ready_queue_appends_witness:
  "\<exists>s'. add_to_ready_queue boot_sched 0x300000 = Some s' \<and> queue s' [0x300000]"
  using add_to_ready_queue_appends [of boot_sched "[]" "0x300000"]
  by (auto simp: queue_def pcbs_ok_def boot_sched_def)

text \<open>
  C17. Round robin. From the first call on, the \<open>k\<close>-th call of \<open>schedule\<close> switches to process
  number \<open>k\<close> modulo the length of the queue; the circle is kept and the process switched to is the
  only one marked \<open>RUNNING\<close>.
\<close>

theorem schedule_round_robin:
  assumes "sched_ok s ps" "ps \<noteq> []" "current_process s = 0"
  shows "sched_ok (sched_iter (Suc k) s) ps \<and>
    current_process (sched_iter (Suc k) s) = ps ! (k mod length ps) \<and>
    snd (schedule (sched_iter k s)) = Some (ps ! (k mod length ps))"
proof -
  have "snd (schedule (sched_iter k s)) = Some (ps ! (k mod length ps))"
  proof (cases k)
    case 0
    then show ?thesis using schedule_first [OF assms] by (auto simp: sched_iter_def)
  next
    case (Suc j)
    have "j mod length ps < length ps" using assms(2) by simp
    from schedule_next [OF _ this, of "sched_iter k s"] show ?thesis
      using round_robin_start [OF assms, of j] Suc by (auto simp: mod_Suc_eq)
  qed
  then show ?thesis using round_robin_start [OF assms, of k] by simp
qed

theorem schedule_round_robin_witness:
  "current_process (sched_iter (Suc 4) boot_sched1) = 0x20000C"
  using schedule_round_robin [of boot_sched1 "[0x20000C]" 4] boot_sched1 by (simp add: system_def)

text \<open>
  C18. No process starves: whichever process is current, every queued process becomes the current
  one within as many calls of \<open>schedule\<close> as there are processes.
\<close>

theorem schedule_fair:
  assumes "sched_ok s ps" "p \<in> set ps"
  shows "\<exists>k. 1 \<le> k \<and> k \<le> length ps \<and> current_process (sched_iter k s) = p"
proof -
  obtain j where j: "j < length ps" "p = ps ! j" using assms(2) by (auto simp: in_set_conv_nth)
  show ?thesis
  proof (cases "current_process s = 0")
    case True
    moreover have "ps \<noteq> []" using assms(2) by auto
    ultimately show ?thesis
      using round_robin_start [OF assms(1), of j] j by (intro exI [of _ "Suc j"]) auto
  next
    case False
    then obtain i where i: "i < length ps" "current_process s = ps ! i"
      using assms(1) by (auto simp: sched_ok_def in_set_conv_nth)
    let ?k = "if i < j then j - i else length ps + j - i"
    have "(i + ?k) mod length ps = j" using i(1) j(1) by (auto simp: mod_if)
    then show ?thesis
      using round_robin_from [OF assms(1) i, of ?k] i(1) j by (intro exI [of _ ?k]) auto
  qed
qed

theorem schedule_fair_witness:
  "\<exists>k. 1 \<le> k \<and> k \<le> length [0x20000C :: u32] \<and> current_process (sched_iter k boot_sched1) = 0x20000C"
  using schedule_fair [of boot_sched1 "[0x20000C]" "0x20000C"] boot_sched1 by (simp add: system_def)



text \<open>
  C38. The context switch loses the entry point. \<open>switch.asm\<close> pushes the word at offset 32 of the
  control block, which is the \<open>esp\<close> field and not \<open>eip\<close> at offset 40: switching to a process that was
  just created jumps to address 0 whatever its entry point.
\<close>

theorem context_switch_loses_entry:
  assumes "owns a E (kheap s) L" "create_process s entry_point = Some (p, s')" "p \<noteq> 0"
    "\<forall>x \<in> region p 52. m x = heap_mem (kheap s') x" "load_le m (esp c + 4) 4 = p"
  shows "pcb_get m p EIP = entry_point \<and> eip (snd (context_switch m c)) = 0"
proof -
  obtain n where n: "52 \<le> n" "owns a E (kheap s') (insert (p, n) L)"
    "new_pcb (heap_mem (kheap s')) p (next_pid s) entry_point"
    using assms(1) by (cases rule: create_process_cases [where entry_point = entry_point]) (use assms in auto)
  have "unat p + 52 \<le> 2 ^ 32" using kh.owned_block [OF n(2), of p n] n(1) by simp
  then have "pcb_get m p f = pcb_get (heap_mem (kheap s')) p f" for f
    using assms(4) by (intro pcb_get_cong) auto
  then have "pcb_get m p EIP = entry_point" "pcb_get m p ESP = 0" using n(3) by (simp_all add: new_pcb_def)
  moreover from this(2) have "load_le m (p + 32) 4 = (0 :: u32)" by (simp add: pcb_get_def)
  ultimately show ?thesis using assms(5) by (simp add: context_switch_def Let_def load_store_same)
qed

theorem context_switch_loses_entry_witness:
  "\<exists>m c. load_le m (esp c + 4) 4 = (0x20000C :: u32) \<and> pcb_get m 0x20000C EIP = 0x1000 \<and>
     eip (snd (context_switch m c)) = 0"
proof -
  let ?m = "store_le (heap_mem (kheap boot_pcb1)) 0x100004 4 (0x20000C :: u32)"
  let ?c = "\<lparr>eax = 0, ebx = 0, ecx = 0, edx = 0, esp = 0x100000, eip = 0\<rparr>"
  have own: "owns 0x200000 0x100000 (kheap boot_sched) {}" using kernel_heap_owns by (simp add: boot_sched_def)
  have "region (0x100004 :: u32) 4 \<inter> region 0x20000C 52 = {}" by (rule region_disjoint) simp_all
  then have "\<forall>x \<in> region 0x20000C 52. ?m x = heap_mem (kheap boot_pcb1) x"
    by (auto intro!: store_le_outside)
  moreover have ld: "load_le ?m (esp ?c + 4) 4 = (0x20000C :: u32)" by (simp add: load_store_same)
  ultimately have "pcb_get ?m 0x20000C EIP = 0x1000 \<and> eip (snd (context_switch ?m ?c)) = 0"
    by (intro context_switch_loses_entry [OF own boot_pcb1(1)]) simp_all
  with ld show ?thesis by blast
qed

end
