(* ===== verification/Io_Ports.thy ===== *)
theory Io_Ports
  imports Prelude
begin

text \<open>
  Port input and output (\<^verbatim>\<open>arch/x86/io.h\<close> and the identical inline copies in \<^verbatim>\<open>vga.c\<close>, \<^verbatim>\<open>pic.c\<close>
  and \<^verbatim>\<open>pit.c\<close>). The state keeps the history of port accesses, oldest first. What a device
  answers to a read is not code of the kernel: it is a parameter \<open>hw\<close>, the answer as a function
  of the history and the port. The other device states of the kernel extend this record, so that
  every driver writes to the same history.
\<close>

datatype io = Outb u16 u8 | Inb u16 u8

type_synonym hardware = "io list \<Rightarrow> u16 \<Rightarrow> u8"

record io_state =
  io_trace :: "io list"

definition outb :: "u16 \<Rightarrow> u8 \<Rightarrow> 'a io_state_scheme \<Rightarrow> 'a io_state_scheme" where
  "outb port val s = s\<lparr>io_trace := io_trace s @ [Outb port val]\<rparr>"

definition inb :: "hardware \<Rightarrow> u16 \<Rightarrow> 'a io_state_scheme \<Rightarrow> u8 \<times> 'a io_state_scheme" where
  "inb hw port s =
     (let ret = hw (io_trace s) port in (ret, s\<lparr>io_trace := io_trace s @ [Inb port ret]\<rparr>))"

text \<open>The writes to a set of ports, in order.\<close>

fun writes_to :: "u16 set \<Rightarrow> io list \<Rightarrow> (u16 \<times> u8) list" where
  "writes_to P [] = []"
| "writes_to P (Outb p v # t) = (if p \<in> P then (p, v) # writes_to P t else writes_to P t)"
| "writes_to P (Inb p v # t) = writes_to P t"

lemma writes_to_append [simp]: "writes_to P (t @ u) = writes_to P t @ writes_to P u"
  by (induction P t rule: writes_to.induct) auto

end
