(* ===== verification/Spinlock.thy ===== *)
theory Spinlock
  imports Prelude
begin

text \<open>
  The spinlock of \<^verbatim>\<open>include/spinlock.h\<close>. \<open>spinlock_acquire\<close> is the loop as one caller runs it with
  nobody else running: on a lock that is held it never returns, the value \<open>None\<close>. The second half
  is the lock under contention: any number of threads, whose atomic steps are the exchange at the
  head of the loop and the releasing store.
\<close>

section \<open>The operations\<close>

record spinlock_t =
  locked :: int

definition spinlock_init :: "spinlock_t \<Rightarrow> spinlock_t" where
  "spinlock_init lock = lock\<lparr>locked := 0\<rparr>"

text \<open>\<^verbatim>\<open>__sync_lock_test_and_set(&lock->locked, 1)\<close>: the old value, and the lock with 1 stored.\<close>

definition test_and_set :: "spinlock_t \<Rightarrow> int \<times> spinlock_t" where
  "test_and_set lock = (locked lock, lock\<lparr>locked := 1\<rparr>)"

partial_function (option) spinlock_acquire :: "spinlock_t \<Rightarrow> spinlock_t option" where
  "spinlock_acquire lock =
     (case test_and_set lock of (old, lock') \<Rightarrow>
        if old \<noteq> 0 then spinlock_acquire lock' else Some lock')"

definition spinlock_release :: "spinlock_t \<Rightarrow> spinlock_t" where
  "spinlock_release lock = lock\<lparr>locked := 0\<rparr>"

lemma spinlock_acquire_returns:
  "spinlock_acquire lock = Some lock' \<Longrightarrow> locked lock = 0 \<and> lock' = lock\<lparr>locked := 1\<rparr>"
proof (rule spinlock_acquire.raw_induct [where P = "\<lambda>k k'. locked k = 0 \<and> k' = k\<lparr>locked := 1\<rparr>"])
  fix acq k k'
  assume IH: "\<And>k k'. acq k = Some k' \<Longrightarrow> locked k = 0 \<and> k' = k\<lparr>locked := 1\<rparr>"
    and run: "(case test_and_set k of (old, l) \<Rightarrow> if old \<noteq> 0 then acq l else Some l) = Some k'"
  show "locked k = 0 \<and> k' = k\<lparr>locked := 1\<rparr>"
  proof (cases "locked k = 0")
    case True
    then show ?thesis using run by (simp add: test_and_set_def)
  next
    case False
    then have "acq (k\<lparr>locked := 1\<rparr>) = Some k'" using run by (simp add: test_and_set_def)
    from IH [OF this] show ?thesis by simp
  qed
qed

lemma spinlock_acquire_eq:
  "spinlock_acquire lock = (if locked lock = 0 then Some (lock\<lparr>locked := 1\<rparr>) else None)"
proof (cases "locked lock = 0")
  case True
  then show ?thesis by (subst spinlock_acquire.simps) (simp add: test_and_set_def)
next
  case False
  then show ?thesis using spinlock_acquire_returns [of lock] by (cases "spinlock_acquire lock") auto
qed

lemma acquire_release: "spinlock_acquire lock = Some lock' \<Longrightarrow> spinlock_release lock' = lock"
  using spinlock_acquire_returns [of lock lock'] by (simp add: spinlock_release_def)

section \<open>Contention\<close>

text \<open>
  A thread is outside, in the loop of \<open>spinlock_acquire\<close>, or between its return and
  \<open>spinlock_release\<close>.
\<close>

datatype lock_pc = Outside | Spinning | Holding

type_synonym contenders = "spinlock_t \<times> (nat \<Rightarrow> lock_pc)"

inductive lock_step :: "contenders \<Rightarrow> contenders \<Rightarrow> bool" where
  enter: "pc t = Outside \<Longrightarrow> lock_step (l, pc) (l, pc(t := Spinning))"
| exchange: "pc t = Spinning \<Longrightarrow> test_and_set l = (old, l') \<Longrightarrow>
    lock_step (l, pc) (l', pc(t := (if old \<noteq> 0 then Spinning else Holding)))"
| leave: "pc t = Holding \<Longrightarrow> lock_step (l, pc) (spinlock_release l, pc(t := Outside))"

inductive lock_run :: "contenders \<Rightarrow> bool" where
  start: "lock_run (spinlock_init l, \<lambda>_. Outside)"
| step: "lock_run c \<Longrightarrow> lock_step c c' \<Longrightarrow> lock_run c'"

definition mutex :: "contenders \<Rightarrow> bool" where
  "mutex c \<longleftrightarrow> (\<exists>t. snd c t = Holding \<and> locked (fst c) \<noteq> 0 \<and> (\<forall>u. snd c u = Holding \<longrightarrow> u = t))
      \<or> (locked (fst c) = 0 \<and> (\<forall>u. snd c u \<noteq> Holding))"

lemma lock_step_mutex: "lock_step c c' \<Longrightarrow> mutex c \<Longrightarrow> mutex c'"
proof (induction rule: lock_step.induct)
  case (enter pc t l)
  then have "(pc(t := Spinning)) u = Holding \<longleftrightarrow> pc u = Holding" for u by simp
  then show ?case using enter.prems by (simp only: mutex_def fst_conv snd_conv)
next
  case (exchange pc t l old l')
  then have l': "l' = l\<lparr>locked := 1\<rparr>" "old = locked l" by (simp_all add: test_and_set_def)
  show ?case
  proof (cases "locked l = 0")
    case True
    then have "\<forall>u. pc u \<noteq> Holding" using exchange.prems by (simp add: mutex_def)
    then show ?thesis using True by (simp add: mutex_def l')
  next
    case False
    then have "(pc(t := Spinning)) u = Holding \<longleftrightarrow> pc u = Holding" for u using exchange.hyps by simp
    then show ?thesis using False exchange.prems by (simp add: mutex_def l' del: fun_upd_apply)
  qed
next
  case (leave pc t l)
  then have "\<forall>u. pc u = Holding \<longrightarrow> u = t" by (simp add: mutex_def) metis
  then show ?case by (auto simp: mutex_def spinlock_release_def)
qed

lemma lock_run_mutex: "lock_run c \<Longrightarrow> mutex c"
proof (induction rule: lock_run.induct)
  case (start l)
  then show ?case by (simp add: mutex_def spinlock_init_def)
next
  case (step c c')
  then show ?case by (blast intro: lock_step_mutex)
qed

text \<open>
  C32. Mutual exclusion. In every interleaving of any number of threads that use the lock by
  \<open>spinlock_acquire\<close> and \<open>spinlock_release\<close>, at most one thread is between the two, and while one is,
  the next exchange of every other thread keeps it in the loop; with no thread there, the next
  exchange of any spinning thread takes the lock.
\<close>

theorem spinlock_mutual_exclusion:
  assumes "lock_run (l, pc)"
  shows "(\<forall>t u. pc t = Holding \<and> pc u = Holding \<longrightarrow> t = u) \<and>
    ((\<exists>t. pc t = Holding) \<longrightarrow> spinlock_acquire l = None \<and> fst (test_and_set l) \<noteq> 0) \<and>
    ((\<forall>u. pc u \<noteq> Holding) \<longrightarrow>
       (\<forall>t. pc t = Spinning \<longrightarrow> lock_step (l, pc) (l\<lparr>locked := 1\<rparr>, pc(t := Holding))))"
proof -
  have m: "mutex (l, pc)" using assms by (rule lock_run_mutex)
  have take: "lock_step (l, pc) (l\<lparr>locked := 1\<rparr>, pc(t := Holding))"
    if "\<forall>u. pc u \<noteq> Holding" "pc t = Spinning" for t
  proof -
    have "locked l = 0" using m that by (auto simp: mutex_def)
    then show ?thesis using lock_step.exchange [of pc t l 0 "l\<lparr>locked := 1\<rparr>"] that
      by (simp add: test_and_set_def)
  qed
  have held: "locked l \<noteq> 0" if "pc t = Holding" for t using m that by (auto simp: mutex_def)
  have one: "t = u" if "pc t = Holding" "pc u = Holding" for t u using m that by (auto simp: mutex_def)
  show ?thesis using take held one by (simp add: spinlock_acquire_eq test_and_set_def) blast
qed

lemma two_contenders:
  "lock_run (\<lparr>locked = 1\<rparr>, (\<lambda>_. Outside)(0 := Holding, 1 := Spinning))"
proof -
  let ?l = "\<lparr>locked = 0\<rparr>" and ?h = "\<lparr>locked = 1\<rparr>"
  have "lock_run (?l, \<lambda>_. Outside)" using lock_run.start [of ?l] by (simp add: spinlock_init_def)
  then have "lock_run (?l, (\<lambda>_. Outside)(0 := Spinning))"
    by (rule lock_run.step) (rule lock_step.enter, simp)
  then have "lock_run (?h, (\<lambda>_. Outside)(0 := Spinning, 0 := Holding))"
    using lock_step.exchange [of "(\<lambda>_. Outside)(0 := Spinning)" 0 ?l 0 ?h] lock_run.step
    by (fastforce simp: test_and_set_def)
  then show ?thesis
    using lock_step.enter [of "(\<lambda>_. Outside)(0 := Holding)" 1 ?h] lock_run.step by fastforce
qed

theorem spinlock_mutual_exclusion_witness:
  "((\<lambda>_. Outside)(0 := Holding, 1 := Spinning)) (0::nat) = Holding \<and>
   spinlock_acquire \<lparr>locked = 1\<rparr> = None"
proof -
  have "((\<lambda>_. Outside)(0 := Holding, 1 := Spinning)) (0::nat) = Holding" by simp
  then show ?thesis using spinlock_mutual_exclusion [OF two_contenders] by blast
qed

end
