(* ===== verification/Vga.thy ===== *)
theory Vga
  imports Io_Ports Spinlock
begin

text \<open>
  The text console, \<^verbatim>\<open>drivers/vga/vga.c\<close>. The record keeps the static variables of the file and
  the cells that \<^verbatim>\<open>VGA_MEMORY\<close> points to, a function of the index, so that a store beyond the
  screen is a store to another cell. A C \<^verbatim>\<open>char\<close> is a HOL character, a C string the list of the
  characters before its terminating zero. Every public function takes the spinlock and so returns
  an option: \<open>None\<close> is the caller that spins forever.
\<close>

section \<open>State\<close>

definition VGA_WIDTH :: int where [c_const]: "VGA_WIDTH = 80"
definition VGA_HEIGHT :: int where [c_const]: "VGA_HEIGHT = 25"
definition TAB_WIDTH :: int where [c_const]: "TAB_WIDTH = 8"

datatype vga_color =
    VGA_COLOR_BLACK | VGA_COLOR_BLUE | VGA_COLOR_GREEN | VGA_COLOR_CYAN
  | VGA_COLOR_RED | VGA_COLOR_MAGENTA | VGA_COLOR_BROWN | VGA_COLOR_LIGHT_GREY
  | VGA_COLOR_DARK_GREY | VGA_COLOR_LIGHT_BLUE | VGA_COLOR_LIGHT_GREEN | VGA_COLOR_LIGHT_CYAN
  | VGA_COLOR_LIGHT_RED | VGA_COLOR_LIGHT_MAGENTA | VGA_COLOR_LIGHT_BROWN | VGA_COLOR_WHITE

fun color_code :: "vga_color \<Rightarrow> u8" where
  "color_code VGA_COLOR_BLACK = 0"
| "color_code VGA_COLOR_BLUE = 1"
| "color_code VGA_COLOR_GREEN = 2"
| "color_code VGA_COLOR_CYAN = 3"
| "color_code VGA_COLOR_RED = 4"
| "color_code VGA_COLOR_MAGENTA = 5"
| "color_code VGA_COLOR_BROWN = 6"
| "color_code VGA_COLOR_LIGHT_GREY = 7"
| "color_code VGA_COLOR_DARK_GREY = 8"
| "color_code VGA_COLOR_LIGHT_BLUE = 9"
| "color_code VGA_COLOR_LIGHT_GREEN = 10"
| "color_code VGA_COLOR_LIGHT_CYAN = 11"
| "color_code VGA_COLOR_LIGHT_RED = 12"
| "color_code VGA_COLOR_LIGHT_MAGENTA = 13"
| "color_code VGA_COLOR_LIGHT_BROWN = 14"
| "color_code VGA_COLOR_WHITE = 15"

record vga_t = io_state +
  VGA_MEMORY :: "int \<Rightarrow> u16"
  cursor_row :: int
  cursor_col :: int
  current_color_byte :: u8
  vga_lock :: spinlock_t

type_synonym 'a vga = "'a vga_t_scheme"

section \<open>Helpers\<close>

text \<open>\<^verbatim>\<open>char\<close> is signed: the conversion to \<^verbatim>\<open>uint16_t\<close> extends the sign.\<close>

definition vga_entry :: "char \<Rightarrow> u8 \<Rightarrow> u16" where
  "vga_entry c color_byte = scast (of_char c :: u8) OR push_bit 8 (ucast color_byte)"

definition set_cell :: "int \<Rightarrow> u16 \<Rightarrow> 'a vga \<Rightarrow> 'a vga" where
  "set_cell i e s = s\<lparr>VGA_MEMORY := (VGA_MEMORY s)(i := e)\<rparr>"

definition update_cursor :: "'a vga \<Rightarrow> 'a vga" where
  "update_cursor s =
     (let pos = word_of_int (cursor_row s * VGA_WIDTH + cursor_col s) :: u16;
          s = outb 0x3D4 14 s;
          s = outb 0x3D5 (ucast (drop_bit 8 pos)) s;
          s = outb 0x3D4 15 s
      in outb 0x3D5 (ucast pos) s)"

definition scroll :: "'a vga \<Rightarrow> 'a vga" where
  "scroll s =
     (let s = fold (\<lambda>y. fold (\<lambda>x s. set_cell ((y - 1) * VGA_WIDTH + x)
                                  (VGA_MEMORY s (y * VGA_WIDTH + x)) s) [0..VGA_WIDTH - 1])
                [1..VGA_HEIGHT - 1] s;
          s = fold (\<lambda>x s. set_cell ((VGA_HEIGHT - 1) * VGA_WIDTH + x)
                            (vga_entry CHR '' '' (current_color_byte s)) s) [0..VGA_WIDTH - 1] s
      in s\<lparr>cursor_row := VGA_HEIGHT - 1\<rparr>)"

definition handle_backspace :: "'a vga \<Rightarrow> 'a vga" where
  "handle_backspace s =
     (let s = (if cursor_col s > 0 then s\<lparr>cursor_col := cursor_col s - 1\<rparr>
               else if cursor_row s > 0
                    then s\<lparr>cursor_row := cursor_row s - 1, cursor_col := VGA_WIDTH - 1\<rparr>
                    else s)
      in set_cell (cursor_row s * VGA_WIDTH + cursor_col s)
           (vga_entry CHR '' '' (current_color_byte s)) s)"

definition handle_tab :: "'a vga \<Rightarrow> 'a vga" where
  "handle_tab s =
     (let s = s\<lparr>cursor_col := (cursor_col s + TAB_WIDTH) AND NOT (TAB_WIDTH - 1)\<rparr>
      in if cursor_col s \<ge> VGA_WIDTH then s\<lparr>cursor_col := 0, cursor_row := cursor_row s + 1\<rparr> else s)"

text \<open>Taking and releasing \<^verbatim>\<open>vga_lock\<close>.\<close>

definition vga_acquire :: "'a vga \<Rightarrow> 'a vga option" where
  "vga_acquire s = map_option (\<lambda>l. s\<lparr>vga_lock := l\<rparr>) (spinlock_acquire (vga_lock s))"

definition vga_release :: "'a vga \<Rightarrow> 'a vga" where
  "vga_release s = s\<lparr>vga_lock := spinlock_release (vga_lock s)\<rparr>"

section \<open>Operations\<close>

definition vga_set_colors :: "vga_color \<Rightarrow> vga_color \<Rightarrow> 'a vga \<Rightarrow> 'a vga option" where
  "vga_set_colors fg bg s =
     do { s \<leftarrow> vga_acquire s;
          let s = s\<lparr>current_color_byte := color_code fg OR push_bit 4 (color_code bg)\<rparr>;
          Some (vga_release s) }"

definition vga_set_color :: "u8 \<Rightarrow> 'a vga \<Rightarrow> 'a vga option" where
  "vga_set_color c s =
     do { s \<leftarrow> vga_acquire s;
          let s = s\<lparr>current_color_byte := (c AND 0x0F) OR (current_color_byte s AND 0xF0)\<rparr>;
          Some (vga_release s) }"

definition vga_clear :: "'a vga \<Rightarrow> 'a vga option" where
  "vga_clear s =
     do { s \<leftarrow> vga_acquire s;
          let s = fold (\<lambda>y. fold (\<lambda>x s. set_cell (y * VGA_WIDTH + x)
                                       (vga_entry CHR '' '' (current_color_byte s)) s) [0..VGA_WIDTH - 1])
                    [0..VGA_HEIGHT - 1] s;
          let s = s\<lparr>cursor_row := 0, cursor_col := 0\<rparr>;
          Some (vga_release (update_cursor s)) }"

definition vga_put_char :: "char \<Rightarrow> 'a vga \<Rightarrow> 'a vga option" where
  "vga_put_char c s =
     do { s \<leftarrow> vga_acquire s;
          let s =
            (if c = CHR ''\<newline>'' then s\<lparr>cursor_col := 0, cursor_row := cursor_row s + 1\<rparr>
             else if c = CHR 0x08 then handle_backspace s
             else if c = CHR 0x09 then handle_tab s
             else if c = CHR 0x0D then s\<lparr>cursor_col := 0\<rparr>
             else
               (let s = set_cell (cursor_row s * VGA_WIDTH + cursor_col s)
                          (vga_entry c (current_color_byte s)) s;
                    s = s\<lparr>cursor_col := cursor_col s + 1\<rparr>
                in if cursor_col s \<ge> VGA_WIDTH
                   then s\<lparr>cursor_col := 0, cursor_row := cursor_row s + 1\<rparr> else s));
          let s = (if cursor_row s \<ge> VGA_HEIGHT then scroll s else s);
          Some (vga_release (update_cursor s)) }"

text \<open>
  The loop of \<open>vga_write\<close> repeats the body of \<open>vga_put_char\<close> without the lock and without moving
  the hardware cursor. It ends at the terminating zero, the end of the list or a zero in it.
\<close>

fun vga_write_loop :: "string \<Rightarrow> 'a vga \<Rightarrow> 'a vga" where
  "vga_write_loop [] s = s"
| "vga_write_loop (c # str) s =
     (if c = CHR 0x00 then s
      else
        (let s =
           (if c = CHR ''\<newline>'' then s\<lparr>cursor_col := 0, cursor_row := cursor_row s + 1\<rparr>
            else if c = CHR 0x08 then handle_backspace s
            else if c = CHR 0x09 then handle_tab s
            else if c = CHR 0x0D then s\<lparr>cursor_col := 0\<rparr>
            else
              (let s = set_cell (cursor_row s * VGA_WIDTH + cursor_col s)
                         (vga_entry c (current_color_byte s)) s;
                   s = s\<lparr>cursor_col := cursor_col s + 1\<rparr>
               in if cursor_col s \<ge> VGA_WIDTH
                  then s\<lparr>cursor_col := 0, cursor_row := cursor_row s + 1\<rparr> else s));
             s = (if cursor_row s \<ge> VGA_HEIGHT then scroll s else s)
         in vga_write_loop str s))"

definition vga_write :: "string \<Rightarrow> 'a vga \<Rightarrow> 'a vga option" where
  "vga_write str s =
     do { s \<leftarrow> vga_acquire s;
          let s = vga_write_loop str s;
          Some (vga_release (update_cursor s)) }"

definition vga_init :: "'a vga \<Rightarrow> 'a vga option" where
  "vga_init s =
     (let s = s\<lparr>vga_lock := spinlock_init (vga_lock s)\<rparr>;
          s = s\<lparr>current_color_byte := color_code VGA_COLOR_WHITE OR push_bit 4 (color_code VGA_COLOR_BLACK)\<rparr>
      in vga_clear s)"

end
