(* ===== verification/Printf.thy ===== *)
theory Printf
  imports Vga
begin

text \<open>
  Formatted output, \<^verbatim>\<open>lib/printf.c\<close>. A format is the list of its characters before the terminating
  zero. The variable arguments are a list: a machine word for the \<^verbatim>\<open>int\<close>, \<^verbatim>\<open>unsigned\<close>, \<^verbatim>\<open>void *\<close> and
  \<^verbatim>\<open>char\<close> conversions, a string for \<^verbatim>\<open>%s\<close>. \<open>None\<close> is a run without a defined end: an argument that is
  missing or of the other kind, a read past the end of the format, an overflow of the colour code,
  a full digit buffer, or a console whose lock never comes free.
\<close>

datatype va_arg = Word u32 | Str string

definition char_at :: "string \<Rightarrow> char" where
  "char_at p = (case p of [] \<Rightarrow> CHR 0x00 | c # _ \<Rightarrow> c)"

text \<open>The loop \<^verbatim>\<open>while (unum > 0)\<close>, which fills \<^verbatim>\<open>buf[32]\<close> from the last digit up.\<close>

function number_loop :: "u32 \<Rightarrow> string \<Rightarrow> string option" where
  "number_loop unum buf =
     (if unum > 0 then
        if length buf < 32 then number_loop (unum div 10) (buf @ [char_of (48 + unat (unum mod 10))])
        else None
      else Some buf)"
  by pat_completeness auto
termination
  by (relation "measure (\<lambda>(unum, buf). unat unum)")
    (auto simp: unat_div word_less_nat_alt)

text \<open>The loop over \<^verbatim>\<open>buf\<close> from \<^verbatim>\<open>i - 1\<close> down to 0.\<close>

primrec put_buf :: "string \<Rightarrow> 'a vga \<Rightarrow> 'a vga option" where
  "put_buf [] s = Some s"
| "put_buf (c # cs) s = do { s \<leftarrow> vga_put_char c s; put_buf cs s }"

definition print_number :: "u32 \<Rightarrow> 'a vga \<Rightarrow> 'a vga option" where
  "print_number num s =
     (if num = 0 then vga_put_char CHR ''0'' s
      else do {
        (unum, s) \<leftarrow> (if sint num < 0
                      then do { s \<leftarrow> vga_put_char CHR ''-'' s; Some (NOT num + 1, s) }
                      else Some (num, s));
        buf \<leftarrow> number_loop unum [];
        put_buf (rev buf) s })"

function hex_loop :: "u32 \<Rightarrow> int \<Rightarrow> bool \<Rightarrow> 'a vga \<Rightarrow> 'a vga option" where
  "hex_loop num i started s =
     (if i \<ge> 0 then
        let digit = drop_bit (nat i) num AND 0xF
        in if digit \<noteq> 0 \<or> started \<or> i = 0
           then (case vga_put_char (''0123456789ABCDEF'' ! unat digit) s of
                   None \<Rightarrow> None
                 | Some s \<Rightarrow> hex_loop num (i - 4) True s)
           else hex_loop num (i - 4) started s
      else Some s)"
  by pat_completeness auto
termination
  by (relation "measure (\<lambda>(num, i, started, s). nat (i + 4))") auto

definition print_hex :: "u32 \<Rightarrow> 'a vga \<Rightarrow> 'a vga option" where
  "print_hex num s = hex_loop num 28 False s"

definition print_ptr :: "u32 \<Rightarrow> 'a vga \<Rightarrow> 'a vga option" where
  "print_ptr ptr s = do { s \<leftarrow> vga_write ''0x'' s; hex_loop ptr (4 * 8 - 4) False s }"

text \<open>
  The digits of an escape sequence: the value and the rest. \<^verbatim>\<open>code\<close> is an \<^verbatim>\<open>int\<close>, whose overflow is
  undefined.
\<close>

fun ansi_digits :: "string \<Rightarrow> int \<Rightarrow> (int \<times> string) option" where
  "ansi_digits [] code = Some (code, [])"
| "ansi_digits (c # p) code =
     (if of_char c \<ge> (48::int) \<and> of_char c \<le> (57::int) then
        let code = code * 10 + (of_char c - 48)
        in if code \<le> 2147483647 then ansi_digits p code else None
      else Some (code, c # p))"

text \<open>
  \<open>handle_ansi\<close> on the format at an escape character: \<open>Some None\<close> is the return value 0,
  \<open>Some (Some (p, s))\<close> the return value 1 with the format moved to \<open>p\<close>.
\<close>

definition ansi_color :: "int \<Rightarrow> u8 option" where
  "ansi_color code =
     (if code = 30 then Some 0x00 else if code = 31 then Some 0x04
      else if code = 32 then Some 0x02 else if code = 33 then Some 0x06
      else if code = 34 then Some 0x01 else if code = 35 then Some 0x05
      else if code = 36 then Some 0x03 else if code = 37 then Some 0x07
      else if code = 0 then Some 0x0F else None)"

definition handle_ansi :: "string \<Rightarrow> 'a vga \<Rightarrow> (string \<times> 'a vga) option option" where
  "handle_ansi fmt s =
     (let p = tl fmt in
      if char_at p \<noteq> CHR ''['' then Some None
      else do {
        (code, p) \<leftarrow> ansi_digits (tl p) 0;
        if char_at p \<noteq> CHR ''m'' then Some None
        else case ansi_color code of
               Some c \<Rightarrow> do { s \<leftarrow> vga_set_color c s; Some (Some (p, s)) }
             | None \<Rightarrow> Some (Some (p, s)) })"

text \<open>One conversion, on the character after the percent sign.\<close>

fun convert :: "char \<Rightarrow> va_arg list \<Rightarrow> 'a vga \<Rightarrow> (va_arg list \<times> 'a vga) option" where
  "convert c args s =
     (if c = CHR ''d'' then
        (case args of Word w # args \<Rightarrow> map_option (Pair args) (print_number w s) | _ \<Rightarrow> None)
      else if c = CHR ''x'' then
        (case args of Word w # args \<Rightarrow> map_option (Pair args) (print_hex w s) | _ \<Rightarrow> None)
      else if c = CHR ''p'' then
        (case args of Word w # args \<Rightarrow> map_option (Pair args) (print_ptr w s) | _ \<Rightarrow> None)
      else if c = CHR ''s'' then
        (case args of Str str # args \<Rightarrow> map_option (Pair args) (vga_write str s) | _ \<Rightarrow> None)
      else if c = CHR ''c'' then
        (case args of Word w # args \<Rightarrow> map_option (Pair args) (vga_put_char (char_of (unat w)) s) | _ \<Rightarrow> None)
      else map_option (Pair args) (vga_put_char c s))"

lemma ansi_digits_length: "ansi_digits p code = Some (code', p') \<Longrightarrow> length p' \<le> length p"
  by (induction p code rule: ansi_digits.induct) (auto simp: Let_def split: if_splits)

lemma handle_ansi_length:
  "handle_ansi fmt s = Some (Some (p, s')) \<Longrightarrow> fmt \<noteq> [] \<Longrightarrow> length p < length fmt"
  by (auto simp: handle_ansi_def Let_def bind_eq_Some_conv split: if_splits option.splits prod.splits
      dest!: ansi_digits_length) (cases fmt; auto)+

lemma handle_ansi_tl:
  "handle_ansi (c # fmt) s = Some (Some (p, s')) \<Longrightarrow> length p \<le> Suc (length fmt)"
  using handle_ansi_length [of "c # fmt" s p s'] by simp

text \<open>
  The loop of \<open>vprintf\<close>. A percent sign at the end of the format prints the terminating zero and
  goes on after it, outside the string.
\<close>

function vprintf :: "string \<Rightarrow> va_arg list \<Rightarrow> 'a vga \<Rightarrow> 'a vga option" where
  "vprintf fmt args s =
     (if char_at fmt = CHR 0x00 then Some s
      else if char_at fmt = CHR 0x1B then
        (case handle_ansi fmt s of
           None \<Rightarrow> None
         | Some (Some (p, s)) \<Rightarrow> vprintf (tl p) args s
         | Some None \<Rightarrow> (case vga_put_char (char_at fmt) s of
                           None \<Rightarrow> None | Some s \<Rightarrow> vprintf (tl fmt) args s))
      else if char_at fmt = CHR ''%'' then
        (let fmt = tl fmt in
         case convert (char_at fmt) args s of
           None \<Rightarrow> None
         | Some (args, s) \<Rightarrow> if fmt = [] then None else vprintf (tl fmt) args s)
      else
        (case vga_put_char (char_at fmt) s of
           None \<Rightarrow> None | Some s \<Rightarrow> vprintf (tl fmt) args s))"
  by pat_completeness auto
termination
  by (relation "measure (\<lambda>(fmt, args, s). length fmt)")
    (auto simp: char_at_def split: list.splits dest: handle_ansi_tl)

definition printf :: "string \<Rightarrow> va_arg list \<Rightarrow> 'a vga \<Rightarrow> 'a vga option" where
  "printf fmt args s = vprintf fmt args s"

declare number_loop.simps [simp del] hex_loop.simps [simp del] vprintf.simps [simp del]

end
