(* ===== verification/Console.thy ===== *)
theory Console
  imports Prelude
begin

text \<open>
  The interface between the console driver and the code that prints: what a client may rely on
  when it puts characters, writes strings and changes the foreground colour. \<open>ok\<close> is the driver's
  invariant, \<open>keeps\<close> relates two states between which only the console changed, and \<open>view\<close> is what
  the user sees, on which the three operations act as \<open>vput\<close> and \<open>vcolor\<close>.
\<close>

datatype action = Put char | Write string | Color u8

type_synonym 's cmd = "'s \<Rightarrow> 's option"

primrec perform :: "(char \<Rightarrow> 's cmd) \<Rightarrow> (string \<Rightarrow> 's cmd) \<Rightarrow> (u8 \<Rightarrow> 's cmd) \<Rightarrow> action list \<Rightarrow> 's cmd" where
  "perform put puts color [] s = Some s"
| "perform put puts color (a # as) s =
     (case a of Put c \<Rightarrow> put c s | Write str \<Rightarrow> puts str s | Color b \<Rightarrow> color b s)
     \<bind> perform put puts color as"

primrec vact :: "(char \<Rightarrow> 't \<Rightarrow> 't) \<Rightarrow> (u8 \<Rightarrow> 't \<Rightarrow> 't) \<Rightarrow> action \<Rightarrow> 't \<Rightarrow> 't" where
  "vact vput vcolor (Put c) = vput c"
| "vact vput vcolor (Write str) = fold vput (takeWhile (\<lambda>c. c \<noteq> CHR 0x00) str)"
| "vact vput vcolor (Color b) = vcolor b"

lemma perform_Nil [simp]: "perform put puts color [] = Some"
  by (rule ext) simp

lemma perform_append:
  "perform put puts color (as @ bs) s = perform put puts color as s \<bind> perform put puts color bs"
  by (induction as arbitrary: s) (auto split: action.splits option.splits bind_splits)

lemma perform_seq:
  "perform put puts color (as @ bs) = (\<lambda>s. perform put puts color as s \<bind> perform put puts color bs)"
  by (rule ext) (rule perform_append)

locale console =
  fixes put :: "char \<Rightarrow> 's \<Rightarrow> 's option"
    and puts :: "string \<Rightarrow> 's \<Rightarrow> 's option"
    and color :: "u8 \<Rightarrow> 's \<Rightarrow> 's option"
    and ok :: "'s \<Rightarrow> bool"
    and keeps :: "'s \<Rightarrow> 's \<Rightarrow> bool"
    and view :: "'s \<Rightarrow> 't"
    and vput :: "char \<Rightarrow> 't \<Rightarrow> 't"
    and vcolor :: "u8 \<Rightarrow> 't \<Rightarrow> 't"
  assumes keeps_refl: "keeps s s"
    and keeps_trans: "keeps s s' \<Longrightarrow> keeps s' s'' \<Longrightarrow> keeps s s''"
    and put_ok: "ok s \<Longrightarrow> \<exists>s'. put c s = Some s' \<and> ok s' \<and> keeps s s' \<and> view s' = vput c (view s)"
    and puts_ok: "ok s \<Longrightarrow> \<exists>s'. puts str s = Some s' \<and> ok s' \<and> keeps s s' \<and>
          view s' = fold vput (takeWhile (\<lambda>c. c \<noteq> CHR 0x00) str) (view s)"
    and color_ok: "ok s \<Longrightarrow> \<exists>s'. color b s = Some s' \<and> ok s' \<and> keeps s s' \<and> view s' = vcolor b (view s)"
begin

lemma action_ok:
  assumes "ok s"
  shows "\<exists>s'. (case a of Put c \<Rightarrow> put c s | Write str \<Rightarrow> puts str s | Color b \<Rightarrow> color b s) = Some s' \<and>
    ok s' \<and> keeps s s' \<and> view s' = vact vput vcolor a (view s)"
  using assms put_ok puts_ok color_ok by (cases a) simp_all

lemma perform_ok:
  "ok s \<Longrightarrow> \<exists>s'. perform put puts color as s = Some s' \<and> ok s' \<and> keeps s s' \<and>
     view s' = fold (vact vput vcolor) as (view s)"
proof (induction as arbitrary: s)
  case Nil
  then show ?case by (simp add: keeps_refl)
next
  case (Cons a as)
  obtain s1 where s1: "(case a of Put c \<Rightarrow> put c s | Write str \<Rightarrow> puts str s | Color b \<Rightarrow> color b s) = Some s1"
    "ok s1" "keeps s s1" "view s1 = vact vput vcolor a (view s)"
    using action_ok [OF Cons.prems] by blast
  obtain s2 where "perform put puts color as s1 = Some s2" "ok s2" "keeps s1 s2"
    "view s2 = fold (vact vput vcolor) as (view s1)"
    using Cons.IH [OF s1(2)] by blast
  then show ?case using s1 keeps_trans [of s s1 s2] by simp
qed

end

end
