(* ===== verification/Vga_Properties.thy ===== *)
theory Vga_Properties
  imports Vga Console
begin

text \<open>
  Correctness of the console: loops of stores to the screen in closed form, the invariant, the
  abstract terminal (25 rows of 80 cells, a cursor and a colour) that the driver implements, and
  the equivalence of \<open>vga_write\<close> with a sequence of \<open>vga_put_char\<close>.
\<close>

section \<open>Loops of stores\<close>

lemma fold_set_cell:
  assumes "\<And>m x. h (s\<lparr>VGA_MEMORY := m\<rparr>) x = g m x"
  shows "fold (\<lambda>x s. set_cell (f x) (h s x) s) xs s =
    s\<lparr>VGA_MEMORY := fold (\<lambda>x m. m(f x := g m x)) xs (VGA_MEMORY s)\<rparr>"
proof -
  have "fold (\<lambda>x s. set_cell (f x) (h s x) s) xs (s\<lparr>VGA_MEMORY := m\<rparr>) =
    s\<lparr>VGA_MEMORY := fold (\<lambda>x m. m(f x := g m x)) xs m\<rparr>" for m
    by (induction xs arbitrary: m) (simp_all add: set_cell_def assms)
  from this [of "VGA_MEMORY s"] show ?thesis by simp
qed

lemma upto_snoc: "[0..int n] = [0..int n - 1] @ [int n]"
  by (simp add: upto_rec2)

lemma fill_loop:
  "fold (\<lambda>x m. m(b + x := e)) [0..int n - 1] m = (\<lambda>i. if b \<le> i \<and> i < b + int n then e else m i)"
proof (induction n)
  case (Suc n)
  have "int (Suc n) - 1 = int n" by simp
  then show ?case by (simp only: upto_snoc fold_append comp_def Suc) (auto simp: fun_eq_iff)
qed (auto simp: fun_eq_iff)

lemma copy_row_loop:
  "n \<le> 80 \<Longrightarrow> fold (\<lambda>x m. m((y - 1) * 80 + x := m (y * 80 + x))) [0..int n - 1] m =
     (\<lambda>i. if (y - 1) * 80 \<le> i \<and> i < (y - 1) * 80 + int n then m (i + 80) else m i)"
proof (induction n)
  case (Suc n)
  have "int (Suc n) - 1 = int n" by simp
  with Suc show ?case
    by (simp only: upto_snoc fold_append comp_def) (auto simp: fun_eq_iff algebra_simps)
qed (auto simp: fun_eq_iff)

lemma copy_rows_loop:
  "fold (\<lambda>y. fold (\<lambda>x m. m((y - 1) * 80 + x := m (y * 80 + x))) [0..79]) [1..int k] m =
     (\<lambda>i. if 0 \<le> i \<and> i < int k * 80 then m (i + 80) else m (i::int))"
proof (induction k)
  case (Suc k)
  have "[1..int (Suc k)] = [1..int k] @ [int (Suc k)]" by (simp add: upto_rec2)
  moreover have "fold (\<lambda>x m. m((int (Suc k) - 1) * 80 + x := m (int (Suc k) * 80 + x))) [0..79] m =
     (\<lambda>i. if int k * 80 \<le> i \<and> i < int k * 80 + 80 then m (i + 80) else m i)" for m :: "int \<Rightarrow> 'a"
    using copy_row_loop [of 80 "int (Suc k)" m] by simp
  ultimately show ?case by (simp only: fold_append comp_def Suc fold_simps) (auto simp: fun_eq_iff)
qed (auto simp: fun_eq_iff)

lemma fill_rows_loop:
  "fold (\<lambda>y. fold (\<lambda>x m. m(y * 80 + x := e)) [0..79]) [0..int k - 1] m =
     (\<lambda>i. if 0 \<le> i \<and> i < int k * 80 then e else m (i::int))"
proof (induction k)
  case (Suc k)
  have "int (Suc k) - 1 = int k" by simp
  moreover have "fold (\<lambda>x m. m(int k * 80 + x := e)) [0..79] m =
     (\<lambda>i. if int k * 80 \<le> i \<and> i < int k * 80 + 80 then e else m i)" for m
    using fill_loop [of "int k * 80" e 80 m] by simp
  ultimately show ?case by (simp only: upto_snoc fold_append comp_def Suc fold_simps) (auto simp: fun_eq_iff)
qed (auto simp: fun_eq_iff)

definition scrolled :: "u16 \<Rightarrow> (int \<Rightarrow> u16) \<Rightarrow> int \<Rightarrow> u16" where
  "scrolled e m = (\<lambda>i. if 0 \<le> i \<and> i < 1920 then m (i + 80) else if 1920 \<le> i \<and> i < 2000 then e else m i)"

lemma fold_rows:
  assumes "\<And>y m. F y (s\<lparr>VGA_MEMORY := m\<rparr>) = s\<lparr>VGA_MEMORY := G y m\<rparr>"
  shows "fold F ys s = s\<lparr>VGA_MEMORY := fold G ys (VGA_MEMORY s)\<rparr>"
proof -
  have "fold F ys (s\<lparr>VGA_MEMORY := m\<rparr>) = s\<lparr>VGA_MEMORY := fold G ys m\<rparr>" for m
    by (induction ys arbitrary: m) (simp_all add: assms)
  from this [of "VGA_MEMORY s"] show ?thesis by simp
qed

lemma scroll_eq:
  "scroll s = s\<lparr>VGA_MEMORY := scrolled (vga_entry CHR '' '' (current_color_byte s)) (VGA_MEMORY s),
      cursor_row := 24\<rparr>"
proof -
  let ?e = "vga_entry CHR '' '' (current_color_byte s)"
  have row: "fold (\<lambda>x s. set_cell ((y - 1) * 80 + x) (VGA_MEMORY s (y * 80 + x)) s) [0..79] (s\<lparr>VGA_MEMORY := m\<rparr>) =
      s\<lparr>VGA_MEMORY := fold (\<lambda>x m. m((y - 1) * 80 + x := m (y * 80 + x))) [0..79] m\<rparr>" for y m
    by (subst fold_set_cell [where g = "\<lambda>m x. m (y * 80 + x)"]) simp_all
  have copy: "fold (\<lambda>y. fold (\<lambda>x s. set_cell ((y - 1) * 80 + x) (VGA_MEMORY s (y * 80 + x)) s) [0..79]) [1..24] s =
      s\<lparr>VGA_MEMORY := \<lambda>i. if 0 \<le> i \<and> i < 1920 then VGA_MEMORY s (i + 80) else VGA_MEMORY s i\<rparr>"
    by (subst fold_rows [where G = "\<lambda>y. fold (\<lambda>x m. m((y - 1) * 80 + x := m (y * 80 + x))) [0..79]"])
      (rule row, simp only: copy_rows_loop [of 24, simplified of_nat_numeral], simp)
  have clear: "fold (\<lambda>x s. set_cell (1920 + x) (vga_entry CHR '' '' (current_color_byte s)) s) [0..79] u =
      u\<lparr>VGA_MEMORY := \<lambda>i. if 1920 \<le> i \<and> i < 2000 then vga_entry CHR '' '' (current_color_byte u) else VGA_MEMORY u i\<rparr>"
    for u :: "'a vga"
    using fill_loop [of 1920 "vga_entry CHR '' '' (current_color_byte u)" 80 "VGA_MEMORY u"]
    by (subst fold_set_cell [where g = "\<lambda>m x. vga_entry CHR '' '' (current_color_byte u)"]) simp_all
  have n: "(80::int) - 1 = 79" "(25::int) - 1 = 24" "(24::int) * 80 = 1920" by simp_all
  have m: "(\<lambda>i. if 1920 \<le> i \<and> i < 2000 then ?e else if 0 \<le> i \<and> i < 1920 then VGA_MEMORY s (i + 80) else VGA_MEMORY s i)
      = scrolled ?e (VGA_MEMORY s)" by (auto simp: scrolled_def)
  show ?thesis by (simp only: scroll_def c_const n copy Let_def clear) (simp add: m cong del: if_weak_cong)
qed

lemma vga_clear_loop:
  "fold (\<lambda>y. fold (\<lambda>x s. set_cell (y * 80 + x) (vga_entry CHR '' '' (current_color_byte s)) s) [0..79]) [0..24] s =
     s\<lparr>VGA_MEMORY := \<lambda>i. if 0 \<le> i \<and> i < 2000 then vga_entry CHR '' '' (current_color_byte s) else VGA_MEMORY s i\<rparr>"
proof -
  let ?e = "vga_entry CHR '' '' (current_color_byte s)"
  have row: "fold (\<lambda>x s. set_cell (y * 80 + x) (vga_entry CHR '' '' (current_color_byte s)) s) [0..79] (s\<lparr>VGA_MEMORY := m\<rparr>) =
      s\<lparr>VGA_MEMORY := fold (\<lambda>x m. m(y * 80 + x := ?e)) [0..79] m\<rparr>" for y m
    by (subst fold_set_cell [where g = "\<lambda>m x. ?e"]) simp_all
  show ?thesis using fill_rows_loop [of ?e 25 "VGA_MEMORY s"] 
    by (subst fold_rows [where G = "\<lambda>y. fold (\<lambda>x m. m(y * 80 + x := ?e)) [0..79]"]) (simp_all add: row)
qed

section \<open>The body shared by the two output functions\<close>

definition vga_char :: "char \<Rightarrow> 'a vga \<Rightarrow> 'a vga" where
  "vga_char c s =
     (let s =
        (if c = CHR ''\<newline>'' then s\<lparr>cursor_col := 0, cursor_row := cursor_row s + 1\<rparr>
         else if c = CHR 0x08 then handle_backspace s
         else if c = CHR 0x09 then handle_tab s
         else if c = CHR 0x0D then s\<lparr>cursor_col := 0\<rparr>
         else
           (let s = set_cell (cursor_row s * VGA_WIDTH + cursor_col s)
                      (vga_entry c (current_color_byte s)) s;
                s = s\<lparr>cursor_col := cursor_col s + 1\<rparr>
            in if cursor_col s \<ge> VGA_WIDTH
               then s\<lparr>cursor_col := 0, cursor_row := cursor_row s + 1\<rparr> else s))
      in if cursor_row s \<ge> VGA_HEIGHT then scroll s else s)"

lemma vga_put_char_body:
  "vga_put_char c s = map_option (\<lambda>s. vga_release (update_cursor (vga_char c s))) (vga_acquire s)"
  by (cases "vga_acquire s") (simp_all only: vga_put_char_def vga_char_def Let_def bind.simps option.map)

lemma vga_write_loop_body:
  "vga_write_loop str s = fold vga_char (takeWhile (\<lambda>c. c \<noteq> CHR 0x00) str) s"
  by (induction str arbitrary: s) (simp_all add: vga_char_def Let_def)

lemma vga_acquire_eq:
  "vga_acquire s = (if locked (vga_lock s) = 0 then Some (s\<lparr>vga_lock := (vga_lock s)\<lparr>locked := 1\<rparr>\<rparr>) else None)"
  by (simp add: vga_acquire_def spinlock_acquire_eq)

section \<open>The abstract terminal\<close>

record terminal =
  rows :: "u16 list list"
  trow :: nat
  tcol :: nat
  tcolor :: u8

definition term_newline :: "terminal \<Rightarrow> terminal" where
  "term_newline t =
     (if trow t + 1 < 25 then t\<lparr>tcol := 0, trow := trow t + 1\<rparr>
      else t\<lparr>tcol := 0, rows := tl (rows t) @ [replicate 80 (vga_entry CHR '' '' (tcolor t))]\<rparr>)"

definition term_cell :: "char \<Rightarrow> terminal \<Rightarrow> terminal" where
  "term_cell c t =
     t\<lparr>rows := (rows t)[trow t := (rows t ! trow t)[tcol t := vga_entry c (tcolor t)]]\<rparr>"

definition term_back :: "terminal \<Rightarrow> terminal" where
  "term_back t =
     (if tcol t > 0 then t\<lparr>tcol := tcol t - 1\<rparr>
      else if trow t > 0 then t\<lparr>trow := trow t - 1, tcol := 79\<rparr> else t)"

definition term_advance :: "nat \<Rightarrow> terminal \<Rightarrow> terminal" where
  "term_advance k t = (if k < 80 then t\<lparr>tcol := k\<rparr> else term_newline t)"

definition term_put :: "char \<Rightarrow> terminal \<Rightarrow> terminal" where
  "term_put c t =
     (if c = CHR ''\<newline>'' then term_newline t
      else if c = CHR 0x08 then term_cell CHR '' '' (term_back t)
      else if c = CHR 0x09 then term_advance (8 * (tcol t div 8 + 1)) t
      else if c = CHR 0x0D then t\<lparr>tcol := 0\<rparr>
      else term_advance (tcol t + 1) (term_cell c t))"

definition screen_row :: "(int \<Rightarrow> u16) \<Rightarrow> nat \<Rightarrow> u16 list" where
  "screen_row m r = map (\<lambda>c. m (int r * 80 + int c)) [0..<80]"

definition screen :: "(int \<Rightarrow> u16) \<Rightarrow> u16 list list" where
  "screen m = map (screen_row m) [0..<25]"

lemma screen_row_nth [simp]:
  "length (screen_row m r) = 80" "c < 80 \<Longrightarrow> screen_row m r ! c = m (int r * 80 + int c)"
  by (simp_all add: screen_row_def del: upt_rec_numeral)

lemma screen_nth [simp]: "length (screen m) = 25" "r < 25 \<Longrightarrow> screen m ! r = screen_row m r"
  by (simp_all add: screen_def del: upt_rec_numeral)

definition terminal_of :: "'a vga \<Rightarrow> terminal" where
  "terminal_of s = \<lparr>rows = screen (VGA_MEMORY s), trow = nat (cursor_row s), tcol = nat (cursor_col s),
      tcolor = current_color_byte s\<rparr>"

lemma screen_row_eqI:
  "length xs = 80 \<Longrightarrow> (\<And>c. c < 80 \<Longrightarrow> m (int r * 80 + int c) = xs ! c) \<Longrightarrow> screen_row m r = xs"
  by (rule nth_equalityI) simp_all

lemma screen_eqI:
  "length xs = 25 \<Longrightarrow> (\<And>r. r < 25 \<Longrightarrow> screen_row m r = xs ! r) \<Longrightarrow> screen m = xs"
  by (rule nth_equalityI) simp_all

lemma screen_update:
  assumes "r < 25" "c < 80"
  shows "screen (m(int r * 80 + int c := e)) = (screen m)[r := (screen m ! r)[c := e]]"
proof (rule screen_eqI)
  fix i :: nat assume i: "i < 25"
  show "screen_row (m(int r * 80 + int c := e)) i = (screen m)[r := (screen m ! r)[c := e]] ! i"
  proof (rule screen_row_eqI)
    fix j :: nat assume j: "j < 80"
    have "int i * 80 + int j = int r * 80 + int c \<longleftrightarrow> i = r \<and> j = c"
      using j assms by (cases i r rule: linorder_cases) auto
    then show "(m(int r * 80 + int c := e)) (int i * 80 + int j) = (screen m)[r := (screen m ! r)[c := e]] ! i ! j"
      using i j assms by (simp add: nth_list_update)
  qed (use i assms in \<open>simp add: nth_list_update\<close>)
qed simp

lemma screen_scrolled: "screen (scrolled e m) = tl (screen m) @ [replicate 80 e]"
proof (rule screen_eqI)
  fix i :: nat assume i: "i < 25"
  show "screen_row (scrolled e m) i = (tl (screen m) @ [replicate 80 e]) ! i"
  proof (rule screen_row_eqI)
    fix j :: nat assume j: "j < 80"
    show "scrolled e m (int i * 80 + int j) = (tl (screen m) @ [replicate 80 e]) ! i ! j"
    proof (cases "i < 24")
      case True
      then show ?thesis using j by (simp add: nth_append nth_tl scrolled_def algebra_simps)
    next
      case False
      then have "i = 24" using i by simp
      then show ?thesis using j by (simp add: nth_append scrolled_def)
    qed
  qed (use i in \<open>simp add: nth_append nth_tl\<close>)
qed simp

section \<open>The invariant\<close>

text \<open>The cursor is on the screen and nobody holds the lock.\<close>

definition cursor_ok :: "'a vga \<Rightarrow> bool" where
  "cursor_ok s \<longleftrightarrow> 0 \<le> cursor_row s \<and> cursor_row s < 25 \<and> 0 \<le> cursor_col s \<and> cursor_col s < 80"

definition vga_ok :: "'a vga \<Rightarrow> bool" where
  "vga_ok s \<longleftrightarrow> cursor_ok s \<and> locked (vga_lock s) = 0"

text \<open>
  What an operation of the console leaves alone: the memory beyond the screen, the state of the
  other drivers, the port accesses so far, and every port but the two of the cursor register.
\<close>

definition only_console :: "'a vga \<Rightarrow> 'a vga \<Rightarrow> bool" where
  "only_console s s' \<longleftrightarrow>
     (\<forall>i. i < 0 \<or> 2000 \<le> i \<longrightarrow> VGA_MEMORY s' i = VGA_MEMORY s i) \<and> vga_t.more s' = vga_t.more s \<and>
     (\<exists>t. io_trace s' = io_trace s @ t \<and> set t \<subseteq> {Outb p v | p v. p = 0x3D4 \<or> p = 0x3D5})"

lemma only_console_refl: "only_console s s"
  by (simp add: only_console_def)

lemma only_console_trans: "only_console s s' \<Longrightarrow> only_console s' s'' \<Longrightarrow> only_console s s''"
  unfolding only_console_def by (elim conjE exE, intro conjI) (simp, simp, metis (no_types, lifting) append_assoc le_sup_iff set_append)

text \<open>The abstract terminal keeps its shape.\<close>

lemma terminal_of_cursor:
  "cursor_ok s \<Longrightarrow> int (trow (terminal_of s)) = cursor_row s \<and> int (tcol (terminal_of s)) = cursor_col s
     \<and> trow (terminal_of s) < 25 \<and> tcol (terminal_of s) < 80"
  by (auto simp: cursor_ok_def terminal_of_def)

lemma terminal_of_set_cell:
  assumes "cursor_ok s"
  shows "terminal_of (set_cell (cursor_row s * 80 + cursor_col s) (vga_entry c (current_color_byte s)) s)
      = term_cell c (terminal_of s)"
proof -
  have "nat (cursor_row s) < 25" "nat (cursor_col s) < 80" "0 \<le> cursor_row s" "0 \<le> cursor_col s"
    using assms by (auto simp: cursor_ok_def)
  then show ?thesis
    using screen_update [of "nat (cursor_row s)" "nat (cursor_col s)" "VGA_MEMORY s"]
    by (simp add: terminal_of_def term_cell_def set_cell_def)
qed

lemma newline_refines:
  fixes s :: "'a vga"
  assumes "cursor_ok s" "s1 = s\<lparr>cursor_col := 0, cursor_row := cursor_row s + 1\<rparr>"
    "s2 = (if cursor_row s1 \<ge> VGA_HEIGHT then scroll s1 else s1)"
  shows "terminal_of s2 = term_newline (terminal_of s)" and "cursor_ok s2"
proof -
  have "screen (VGA_MEMORY s2) = (if cursor_row s + 1 < 25 then screen (VGA_MEMORY s)
      else tl (screen (VGA_MEMORY s)) @ [replicate 80 (vga_entry CHR '' '' (current_color_byte s))])"
    using assms by (simp add: c_const scroll_eq screen_scrolled)
  then show "terminal_of s2 = term_newline (terminal_of s)" "cursor_ok s2"
    using assms by (auto simp: terminal_of_def term_newline_def cursor_ok_def c_const scroll_eq)
qed

lemma tab_stop: "0 \<le> (c::int) \<Longrightarrow> (c + 8) AND NOT 7 = 8 * (c div 8 + 1)"
proof -
  have "(c + 8) AND NOT 7 = (c + 8) AND NOT (mask 3)" by (simp add: mask_eq_exp_minus_1)
  also have "\<dots> = push_bit 3 (drop_bit 3 (c + 8))"
    by (simp add: bit_eq_iff bit_simps) (auto simp: not_less)
  also have "\<dots> = 8 * (c div 8 + 1)" by (simp add: push_bit_eq_mult drop_bit_eq_div div_add_self2)
  finally show ?thesis .
qed

lemma tab_refines:
  assumes "cursor_ok s" "s1 = handle_tab s" "s2 = (if cursor_row s1 \<ge> VGA_HEIGHT then scroll s1 else s1)"
  shows "terminal_of s2 = term_advance (8 * (tcol (terminal_of s) div 8 + 1)) (terminal_of s) \<and> cursor_ok s2"
proof -
  let ?k = "8 * (cursor_col s div 8 + 1)"
  have k: "(cursor_col s + 8) AND - 8 = ?k" "0 \<le> ?k" "nat ?k = 8 * (nat (cursor_col s) div 8 + 1)"
    using assms(1) tab_stop [of "cursor_col s"] div_int_pos_iff [of "cursor_col s" 8]
    by (auto simp: cursor_ok_def nat_mult_distrib nat_add_distrib nat_div_distrib)
  show ?thesis
  proof (cases "?k < 80")
    case True
    then have "s2 = s\<lparr>cursor_col := ?k\<rparr>" using assms k by (simp add: handle_tab_def c_const cursor_ok_def Let_def)
    then show ?thesis
      using assms(1) k True by (auto simp: terminal_of_def term_advance_def cursor_ok_def)
  next
    case False
    then have "s1 = s\<lparr>cursor_col := 0, cursor_row := cursor_row s + 1\<rparr>"
      using assms k by (simp add: handle_tab_def c_const Let_def)
    from newline_refines [OF assms(1) this assms(3)]
    show ?thesis
      using False k by (auto simp: term_advance_def terminal_of_def)
  qed
qed

lemma backspace_refines:
  assumes "cursor_ok s"
  shows "terminal_of (handle_backspace s) = term_cell CHR '' '' (term_back (terminal_of s))"
    and "cursor_ok (handle_backspace s)"
proof -
  define s1 where "s1 = (if cursor_col s > 0 then s\<lparr>cursor_col := cursor_col s - 1\<rparr>
      else if cursor_row s > 0 then s\<lparr>cursor_row := cursor_row s - 1, cursor_col := 79\<rparr> else s)"
  have h: "handle_backspace s = set_cell (cursor_row s1 * 80 + cursor_col s1) (vga_entry CHR '' '' (current_color_byte s1)) s1"
    by (simp add: handle_backspace_def s1_def c_const)
  have ok: "cursor_ok s1" using assms by (auto simp: s1_def cursor_ok_def)
  have "terminal_of s1 = term_back (terminal_of s)"
    using assms by (auto simp: s1_def terminal_of_def term_back_def cursor_ok_def nat_diff_distrib)
  then show "terminal_of (handle_backspace s) = term_cell CHR '' '' (term_back (terminal_of s))"
    using terminal_of_set_cell [OF ok] h by simp
  show "cursor_ok (handle_backspace s)" using ok h by (simp add: set_cell_def cursor_ok_def)
qed

lemma glyph_refines:
  assumes "cursor_ok s" "s0 = set_cell (cursor_row s * 80 + cursor_col s) (vga_entry c (current_color_byte s)) s"
    "s1 = (if cursor_col s + 1 \<ge> 80 then s0\<lparr>cursor_col := 0, cursor_row := cursor_row s + 1\<rparr>
           else s0\<lparr>cursor_col := cursor_col s + 1\<rparr>)"
    "s2 = (if cursor_row s1 \<ge> VGA_HEIGHT then scroll s1 else s1)"
  shows "terminal_of s2 = term_advance (tcol (terminal_of s) + 1) (term_cell c (terminal_of s)) \<and> cursor_ok s2"
proof -
  have s0: "cursor_ok s0" "cursor_row s0 = cursor_row s" "cursor_col s0 = cursor_col s"
    "terminal_of s0 = term_cell c (terminal_of s)"
    using assms(1,2) terminal_of_set_cell [OF assms(1)] by (simp_all add: set_cell_def cursor_ok_def)
  have t: "tcol (terminal_of s) = nat (cursor_col s)" by (simp add: terminal_of_def)
  show ?thesis
  proof (cases "cursor_col s + 1 \<ge> 80")
    case True
    then have "s1 = s0\<lparr>cursor_col := 0, cursor_row := cursor_row s0 + 1\<rparr>" using assms(3) s0 by simp
    from newline_refines [OF s0(1) this assms(4)]
    show ?thesis
      using True t s0(4) assms(1) by (auto simp: term_advance_def cursor_ok_def)
  next
    case False
    then have s2: "s2 = s0\<lparr>cursor_col := cursor_col s + 1\<rparr>"
      using assms(1,3,4) s0(2) by (simp add: cursor_ok_def c_const)
    have "terminal_of s2 = (terminal_of s0)\<lparr>tcol := nat (cursor_col s + 1)\<rparr>" by (simp add: s2 terminal_of_def)
    then show ?thesis
      using False t s0 assms(1) s2 by (auto simp: term_advance_def cursor_ok_def nat_add_distrib)
  qed
qed

lemma vga_char_refines:
  assumes "cursor_ok s"
  shows "terminal_of (vga_char c s) = term_put c (terminal_of s) \<and> cursor_ok (vga_char c s)"
proof -
  consider "c = CHR ''\<newline>''" | "c = CHR 0x08" | "c = CHR 0x09" | "c = CHR 0x0D"
    | (glyph) "c \<notin> {CHR ''\<newline>'', CHR 0x08, CHR 0x09, CHR 0x0D}" by blast
  then show ?thesis
  proof cases
    case 1
    then show ?thesis using newline_refines [OF assms refl refl] by (simp add: vga_char_def term_put_def Let_def)
  next
    case 2
    then show ?thesis using backspace_refines [OF assms]
      by (auto simp: vga_char_def term_put_def Let_def cursor_ok_def c_const)
  next
    case 3
    then show ?thesis using tab_refines [OF assms refl refl] by (simp add: vga_char_def term_put_def Let_def)
  next
    case 4
    then show ?thesis using assms by (auto simp: vga_char_def term_put_def Let_def c_const cursor_ok_def terminal_of_def)
  next
    case glyph
    have "vga_char c s = (let s0 = set_cell (cursor_row s * 80 + cursor_col s) (vga_entry c (current_color_byte s)) s;
        s1 = (if cursor_col s + 1 \<ge> 80 then s0\<lparr>cursor_col := 0, cursor_row := cursor_row s + 1\<rparr>
           else s0\<lparr>cursor_col := cursor_col s + 1\<rparr>) in if cursor_row s1 \<ge> VGA_HEIGHT then scroll s1 else s1)"
      using glyph by (simp add: vga_char_def Let_def set_cell_def c_const)
    then show ?thesis using glyph_refines [OF assms refl refl refl, of c] glyph by (simp only: term_put_def Let_def) simp
  qed
qed

section \<open>What the operations leave alone\<close>

lemma scrolled_outside: "i < 0 \<or> 2000 \<le> i \<Longrightarrow> scrolled e m i = m i"
  by (auto simp: scrolled_def)

lemma on_screen: "cursor_ok s \<Longrightarrow> 0 \<le> cursor_row s * 80 + cursor_col s \<and> cursor_row s * 80 + cursor_col s < 2000"
  by (auto simp: cursor_ok_def)

lemma set_cell_only_console:
  "cursor_ok s \<Longrightarrow> only_console s (set_cell (cursor_row s * 80 + cursor_col s) e s)"
  using on_screen [of s] by (auto simp: only_console_def set_cell_def)

lemma scroll_only_console: "only_console s (scroll s)"
  by (simp add: only_console_def scroll_eq scrolled_outside)

lemma cursor_move_only_console:
  "only_console s (s\<lparr>cursor_row := r\<rparr>)" "only_console s (s\<lparr>cursor_col := c\<rparr>)"
  "only_console s (s\<lparr>vga_lock := l\<rparr>)" "only_console s (s\<lparr>current_color_byte := b\<rparr>)"
  by (simp_all add: only_console_def)

definition cursor_regs :: "'a vga \<Rightarrow> io list" where
  "cursor_regs s =
     [Outb 0x3D4 14, Outb 0x3D5 (ucast (drop_bit 8 (word_of_int (cursor_row s * 80 + cursor_col s) :: u16))),
      Outb 0x3D4 15, Outb 0x3D5 (ucast (word_of_int (cursor_row s * 80 + cursor_col s) :: u16))]"

lemma update_cursor_trace: "update_cursor s = s\<lparr>io_trace := io_trace s @ cursor_regs s\<rparr>"
  by (simp add: update_cursor_def outb_def c_const Let_def cursor_regs_def)

lemma cursor_regs_io [simp]: "cursor_regs (s\<lparr>io_trace := t\<rparr>) = cursor_regs s"
  "cursor_regs (s\<lparr>vga_lock := l\<rparr>) = cursor_regs s"
  by (simp_all add: cursor_regs_def)

lemma update_cursor_only_console: "only_console s (update_cursor s)"
  by (simp add: only_console_def update_cursor_trace cursor_regs_def)

lemma backspace_only_console:
  assumes "cursor_ok s"
  shows "only_console s (handle_backspace s)"
proof -
  define s1 where "s1 = (if cursor_col s > 0 then s\<lparr>cursor_col := cursor_col s - 1\<rparr>
      else if cursor_row s > 0 then s\<lparr>cursor_row := cursor_row s - 1, cursor_col := 79\<rparr> else s)"
  have "cursor_ok s1" "only_console s s1" using assms by (auto simp: s1_def cursor_ok_def only_console_def)
  moreover have "handle_backspace s = set_cell (cursor_row s1 * 80 + cursor_col s1) (vga_entry CHR '' '' (current_color_byte s1)) s1"
    by (simp add: handle_backspace_def s1_def c_const)
  ultimately show ?thesis using only_console_trans set_cell_only_console by metis
qed

lemma vga_char_only_console:
  assumes "cursor_ok s"
  shows "only_console s (vga_char c s)"
proof -
  define s1 where "s1 =
    (if c = CHR ''\<newline>'' then s\<lparr>cursor_col := 0, cursor_row := cursor_row s + 1\<rparr>
     else if c = CHR 0x08 then handle_backspace s
     else if c = CHR 0x09 then handle_tab s
     else if c = CHR 0x0D then s\<lparr>cursor_col := 0\<rparr>
     else (let s = set_cell (cursor_row s * VGA_WIDTH + cursor_col s) (vga_entry c (current_color_byte s)) s;
                s = s\<lparr>cursor_col := cursor_col s + 1\<rparr>
            in if cursor_col s \<ge> VGA_WIDTH then s\<lparr>cursor_col := 0, cursor_row := cursor_row s + 1\<rparr> else s))"
  have "only_console s s1"
    using backspace_only_console [OF assms] on_screen [OF assms]
    by (simp add: s1_def only_console_def handle_tab_def set_cell_def c_const Let_def)
  then show ?thesis
    using scroll_only_console [of s1] only_console_trans by (auto simp: vga_char_def s1_def [symmetric] Let_def)
qed

lemma vga_char_keeps [simp]:
  "current_color_byte (vga_char c s) = current_color_byte s" "vga_lock (vga_char c s) = vga_lock s"
  "io_trace (vga_char c s) = io_trace s"
  by (simp_all add: vga_char_def scroll_eq handle_backspace_def handle_tab_def set_cell_def Let_def)

section \<open>The operations under the invariant\<close>

lemma vga_char_lock_io:
  "vga_char c (s\<lparr>vga_lock := l\<rparr>) = (vga_char c s)\<lparr>vga_lock := l\<rparr>"
  "vga_char c (s\<lparr>io_trace := t\<rparr>) = (vga_char c s)\<lparr>io_trace := t\<rparr>"
  by (simp_all add: vga_char_def scroll_eq handle_backspace_def handle_tab_def set_cell_def Let_def)

lemma fold_vga_char_lock_io:
  "fold vga_char cs (s\<lparr>vga_lock := l\<rparr>) = (fold vga_char cs s)\<lparr>vga_lock := l\<rparr>"
  "fold vga_char cs (s\<lparr>io_trace := t\<rparr>) = (fold vga_char cs s)\<lparr>io_trace := t\<rparr>"
  "vga_lock (fold vga_char cs s) = vga_lock s" "current_color_byte (fold vga_char cs s) = current_color_byte s"
  "io_trace (fold vga_char cs s) = io_trace s"
  by (induction cs arbitrary: s) (simp_all add: vga_char_lock_io)

lemma spinlock_eta: "locked l = 0 \<Longrightarrow> l\<lparr>locked := 0\<rparr> = l"
  by (cases l) simp

lemma vga_put_char_eq:
  "locked (vga_lock s) = 0 \<Longrightarrow> vga_put_char c s = Some (update_cursor (vga_char c s))"
  by (simp add: vga_put_char_body vga_acquire_eq vga_release_def spinlock_release_def vga_char_lock_io
      update_cursor_trace spinlock_eta)

lemma vga_write_eq:
  "locked (vga_lock s) = 0 \<Longrightarrow>
     vga_write str s = Some (update_cursor (fold vga_char (takeWhile (\<lambda>c. c \<noteq> CHR 0x00) str) s))"
  by (simp add: vga_write_def vga_acquire_eq vga_release_def spinlock_release_def vga_write_loop_body
      fold_vga_char_lock_io update_cursor_trace spinlock_eta)

lemma vga_set_color_eq:
  "locked (vga_lock s) = 0 \<Longrightarrow> vga_set_color c s =
     Some (s\<lparr>current_color_byte := (c AND 0x0F) OR (current_color_byte s AND 0xF0)\<rparr>)"
  by (simp add: vga_set_color_def vga_acquire_eq vga_release_def spinlock_release_def spinlock_eta)

lemma vga_set_colors_eq:
  "locked (vga_lock s) = 0 \<Longrightarrow> vga_set_colors fg bg s =
     Some (s\<lparr>current_color_byte := color_code fg OR push_bit 4 (color_code bg)\<rparr>)"
  by (simp add: vga_set_colors_def vga_acquire_eq vga_release_def spinlock_release_def spinlock_eta)

lemma vga_clear_eq:
  "locked (vga_lock s) = 0 \<Longrightarrow> vga_clear s =
     Some (update_cursor (s\<lparr>VGA_MEMORY := \<lambda>i. if 0 \<le> i \<and> i < 2000 then vga_entry CHR '' '' (current_color_byte s)
         else VGA_MEMORY s i, cursor_row := 0, cursor_col := 0\<rparr>))"
proof -
  have n: "(80::int) - 1 = 79" "(25::int) - 1 = 24" by simp_all
  assume "locked (vga_lock s) = 0"
  then show ?thesis
    by (simp only: vga_clear_def c_const n vga_clear_loop vga_acquire_eq if_True bind.simps Let_def)
      (simp add: vga_release_def spinlock_release_def update_cursor_trace cursor_regs_def spinlock_eta cong del: if_weak_cong)
qed

lemma update_cursor_keeps [simp]:
  "cursor_ok (update_cursor s) = cursor_ok s" "vga_ok (update_cursor s) = vga_ok s"
  "terminal_of (update_cursor s) = terminal_of s" "vga_lock (update_cursor s) = vga_lock s"
  by (simp_all add: update_cursor_trace cursor_ok_def vga_ok_def terminal_of_def)

lemma fold_vga_char_refines:
  "cursor_ok s \<Longrightarrow> terminal_of (fold vga_char cs s) = fold term_put cs (terminal_of s) \<and>
     cursor_ok (fold vga_char cs s) \<and> only_console s (fold vga_char cs s)"
proof (induction cs arbitrary: s)
  case (Cons c cs)
  have c: "cursor_ok (vga_char c s)" "terminal_of (vga_char c s) = term_put c (terminal_of s)"
    using vga_char_refines [OF Cons.prems] by simp_all
  show ?case using Cons.IH [OF c(1)] c(2) only_console_trans [OF vga_char_only_console [OF Cons.prems, of c]] by simp
qed (simp add: only_console_refl)

definition term_color :: "u8 \<Rightarrow> terminal \<Rightarrow> terminal" where
  "term_color b t = t\<lparr>tcolor := (b AND 0x0F) OR (tcolor t AND 0xF0)\<rparr>"

lemma vga_okD: "vga_ok s \<Longrightarrow> cursor_ok s" "vga_ok s \<Longrightarrow> locked (vga_lock s) = 0"
  by (simp_all add: vga_ok_def)

lemma vga_write_ok:
  assumes "vga_ok s"
  shows "\<exists>s'. vga_write str s = Some s' \<and> vga_ok s' \<and> only_console s s' \<and>
    terminal_of s' = fold term_put (takeWhile (\<lambda>c. c \<noteq> CHR 0x00) str) (terminal_of s)"
  using fold_vga_char_refines [OF vga_okD(1) [OF assms]] vga_write_eq [OF vga_okD(2) [OF assms]] vga_okD(2) [OF assms]
  by (auto simp: vga_ok_def fold_vga_char_lock_io intro: only_console_trans [OF _ update_cursor_only_console])

lemma vga_put_char_ok:
  assumes "vga_ok s"
  shows "\<exists>s'. vga_put_char c s = Some s' \<and> vga_ok s' \<and> only_console s s' \<and>
    terminal_of s' = term_put c (terminal_of s)"
  using vga_char_refines [OF vga_okD(1) [OF assms]] vga_put_char_eq [OF vga_okD(2) [OF assms]] vga_okD [OF assms]
  by (auto simp: vga_ok_def intro: only_console_trans [OF vga_char_only_console update_cursor_only_console])

lemma vga_set_color_ok:
  assumes "vga_ok s"
  shows "\<exists>s'. vga_set_color b s = Some s' \<and> vga_ok s' \<and> only_console s s' \<and>
    terminal_of s' = term_color b (terminal_of s)"
  using vga_set_color_eq [OF vga_okD(2) [OF assms]] assms
  by (auto simp: vga_ok_def cursor_ok_def term_color_def terminal_of_def only_console_def)

interpretation vga: console vga_put_char vga_write vga_set_color vga_ok only_console terminal_of term_put term_color
  by unfold_locales
    (rule only_console_refl, rule only_console_trans, assumption+, erule vga_put_char_ok, erule vga_write_ok, erule vga_set_color_ok)

section \<open>Sequences of calls\<close>

datatype console_call =
    Call_put char | Call_write string | Call_set_color u8 | Call_set_colors vga_color vga_color | Call_clear

primrec run_call :: "console_call \<Rightarrow> 'a vga \<Rightarrow> 'a vga option" where
  "run_call (Call_put c) = vga_put_char c"
| "run_call (Call_write str) = vga_write str"
| "run_call (Call_set_color b) = vga_set_color b"
| "run_call (Call_set_colors fg bg) = vga_set_colors fg bg"
| "run_call Call_clear = vga_clear"

primrec run_calls :: "console_call list \<Rightarrow> 'a vga \<Rightarrow> 'a vga option" where
  "run_calls [] s = Some s"
| "run_calls (c # cs) s = run_call c s \<bind> run_calls cs"

lemma clear_only_console:
  "only_console s (s\<lparr>VGA_MEMORY := \<lambda>i. if 0 \<le> i \<and> i < 2000 then e else VGA_MEMORY s i,
      cursor_row := 0, cursor_col := 0\<rparr>)"
  by (simp add: only_console_def)

lemma vga_clear_ok:
  assumes "locked (vga_lock s) = 0"
  shows "\<exists>s'. vga_clear s = Some s' \<and> vga_ok s' \<and> only_console s s'"
proof -
  let ?u = "s\<lparr>VGA_MEMORY := \<lambda>i. if 0 \<le> i \<and> i < 2000 then vga_entry CHR '' '' (current_color_byte s)
         else VGA_MEMORY s i, cursor_row := 0, cursor_col := 0\<rparr>"
  have "vga_ok ?u" using assms by (simp add: vga_ok_def cursor_ok_def)
  then show ?thesis
    using vga_clear_eq [OF assms] only_console_trans [OF clear_only_console update_cursor_only_console, of s] by simp
qed

lemma run_call_ok: "vga_ok s \<Longrightarrow> \<exists>s'. run_call c s = Some s' \<and> vga_ok s' \<and> only_console s s'"
proof (cases c)
  case (Call_set_colors fg bg)
  assume "vga_ok s"
  with Call_set_colors show ?thesis by (simp add: vga_set_colors_eq vga_ok_def cursor_ok_def only_console_def)
qed (use vga_put_char_ok vga_write_ok vga_set_color_ok vga_clear_ok vga_okD in \<open>fastforce+\<close>)

lemma run_calls_ok: "vga_ok s \<Longrightarrow> \<exists>s'. run_calls cs s = Some s' \<and> vga_ok s' \<and> only_console s s'"
proof (induction cs arbitrary: s)
  case (Cons c cs)
  obtain s1 where s1: "run_call c s = Some s1" "vga_ok s1" "only_console s s1" using run_call_ok [OF Cons.prems] by blast
  obtain s2 where "run_calls cs s1 = Some s2" "vga_ok s2" "only_console s1 s2" using Cons.IH [OF s1(2)] by blast
  then show ?case using s1 only_console_trans by auto
qed (simp add: only_console_refl)

lemma vga_init_ok: "\<exists>s'. vga_init s = Some s' \<and> vga_ok s' \<and> only_console s s'"
proof -
  define s0 where "s0 = s\<lparr>vga_lock := spinlock_init (vga_lock s), current_color_byte := 15\<rparr>"
  have "locked (vga_lock s0) = 0" "only_console s s0" by (simp_all add: s0_def spinlock_init_def only_console_def)
  moreover have "vga_init s = vga_clear s0" by (simp add: vga_init_def s0_def)
  ultimately show ?thesis using vga_clear_ok [of s0] only_console_trans by metis
qed

lemma put_chars_fold:
  assumes "locked (vga_lock s) = 0"
  shows "\<exists>t. perform vga_put_char vga_write vga_set_color (map Put cs) s = Some ((fold vga_char cs s)\<lparr>io_trace := t\<rparr>) \<and>
      (cs \<noteq> [] \<longrightarrow> (\<exists>t'. t = t' @ cursor_regs (fold vga_char cs s)))"
  using assms
proof (induction cs arbitrary: s)
  case Nil
  then show ?case by (simp add: exI [of _ "io_trace s"])
next
  case (Cons c cs)
  let ?u = "update_cursor (vga_char c s)"
  obtain t where t: "perform vga_put_char vga_write vga_set_color (map Put cs) ?u = Some ((fold vga_char cs ?u)\<lparr>io_trace := t\<rparr>)"
    "cs \<noteq> [] \<longrightarrow> (\<exists>t'. t = t' @ cursor_regs (fold vga_char cs ?u))"
    using Cons.IH [of ?u] Cons.prems by auto
  have u: "fold vga_char cs ?u = (fold vga_char cs (vga_char c s))\<lparr>io_trace := io_trace ?u\<rparr>"
    by (simp add: update_cursor_trace fold_vga_char_lock_io)
  show ?case
  proof (cases cs)
    case Nil
    then have "perform vga_put_char vga_write vga_set_color (map Put (c # cs)) s = Some (vga_char c s\<lparr>io_trace := io_trace ?u\<rparr>)"
      using Cons.prems by (simp add: vga_put_char_eq update_cursor_trace)
    moreover have "io_trace ?u = io_trace s @ cursor_regs (vga_char c s)" by (simp add: update_cursor_trace)
    ultimately show ?thesis using Nil by auto
  next
    case (Cons d ds)
    then show ?thesis using t u Cons.prems
      by (intro exI [of _ t]) (simp add: vga_put_char_eq)
  qed
qed

lemma u8_sign_bit: "(w::u8) < 0x80 \<longleftrightarrow> \<not> bit w 7"
proof -
  have "unat w div 128 < 2" using unat_less_pow [of w] by simp
  then have "odd (unat w div 128) \<longleftrightarrow> \<not> unat w < 128" by (cases "unat w < 128") (auto simp: less_2_cases_iff)
  moreover have "bit w 7 \<longleftrightarrow> bit (unat w) 7" by (simp add: bit_unsigned_iff)
  moreover have "bit (unat w) 7 \<longleftrightarrow> odd (unat w div 128)" by (simp add: bit_iff_odd)
  ultimately show ?thesis by (simp add: word_less_nat_alt)
qed

section \<open>Main results\<close>

text \<open>
  C8. The console implements the terminal. Whenever the cursor is on the screen and the lock is free,
  \<open>vga_put_char\<close> returns with the lock free again, has changed nothing but the screen, the cursor and
  the cursor register, and what is on the screen is what the 25 by 80 terminal shows: a glyph or a
  move of the cursor, wrapped at the right margin, scrolled at the last row.
\<close>

theorem vga_put_char_refines:
  assumes "vga_ok s"
  shows "\<exists>s'. vga_put_char c s = Some s' \<and> vga_ok s' \<and> only_console s s' \<and>
    terminal_of s' = term_put c (terminal_of s)"
  using assms by (rule vga.put_ok)

definition blank_console :: "unit vga" where
  "blank_console = \<lparr>io_trace = [], VGA_MEMORY = \<lambda>_. 0x0F20, cursor_row = 24, cursor_col = 79,
     current_color_byte = 0x0F, vga_lock = \<lparr>locked = 0\<rparr>\<rparr>"

lemma blank_console_ok: "vga_ok blank_console"
  by (simp add: blank_console_def vga_ok_def cursor_ok_def)

theorem vga_put_char_refines_witness:
  "vga_ok blank_console \<and>
   (\<exists>s'. vga_put_char CHR ''A'' blank_console = Some s' \<and> trow (terminal_of s') = 24 \<and> tcol (terminal_of s') = 0)"
  using vga_put_char_refines [OF blank_console_ok, of "CHR ''A''"] blank_console_ok
  by (auto simp: term_put_def term_advance_def term_newline_def term_cell_def terminal_of_def blank_console_def)

text \<open>
  C23. A string is written as its characters are. With the lock free, \<open>vga_write\<close> and a sequence of
  \<open>vga_put_char\<close> over the same characters both return, in states that differ only in the history of
  port writes, and there the last write programs the same cursor position.
\<close>

theorem vga_write_put_chars:
  assumes "locked (vga_lock s) = 0"
  shows "\<exists>s1 s2. vga_write str s = Some s1 \<and>
    perform vga_put_char vga_write vga_set_color (map Put (takeWhile (\<lambda>c. c \<noteq> CHR 0x00) str)) s = Some s2 \<and>
    s1 = s2\<lparr>io_trace := io_trace s @ cursor_regs s2\<rparr> \<and>
    (str \<noteq> [] \<and> hd str \<noteq> CHR 0x00 \<longrightarrow> (\<exists>t. io_trace s2 = t @ cursor_regs s2))"
proof -
  let ?cs = "takeWhile (\<lambda>c. c \<noteq> CHR 0x00) str"
  obtain t where t: "perform vga_put_char vga_write vga_set_color (map Put ?cs) s =
      Some ((fold vga_char ?cs s)\<lparr>io_trace := t\<rparr>)"
    "?cs \<noteq> [] \<longrightarrow> (\<exists>t'. t = t' @ cursor_regs (fold vga_char ?cs s))"
    using put_chars_fold [OF assms, of ?cs] by blast
  have "vga_write str s = Some ((fold vga_char ?cs s)\<lparr>io_trace := io_trace s @ cursor_regs (fold vga_char ?cs s)\<rparr>)"
    by (simp add: vga_write_eq [OF assms] update_cursor_trace fold_vga_char_lock_io)
  moreover have "?cs \<noteq> []" if "str \<noteq> []" "hd str \<noteq> CHR 0x00" using that by (cases str) simp_all
  ultimately show ?thesis using t by simp
qed

theorem vga_write_put_chars_witness:
  "locked (vga_lock blank_console) = 0 \<and>
   (\<exists>s1 s2. vga_write ''ok'' blank_console = Some s1 \<and>
      perform vga_put_char vga_write vga_set_color [Put CHR ''o'', Put CHR ''k''] blank_console = Some s2 \<and>
      VGA_MEMORY s1 = VGA_MEMORY s2)"
proof -
  have l: "locked (vga_lock blank_console) = 0" by (simp add: blank_console_def)
  then show ?thesis using vga_write_put_chars [OF l, of "''ok''"] by auto
qed

text \<open>
  C24. The console never wedges itself. From any state of the machine, \<open>vga_init\<close> followed by any
  sequence of calls of the driver returns; then the cursor is on the screen, the lock is free, and
  nothing but the screen and the cursor register has been written.
\<close>

theorem console_run_safe:
  "\<exists>s0 s'. vga_init s = Some s0 \<and> run_calls calls s0 = Some s' \<and> vga_ok s' \<and> only_console s s'"
proof -
  obtain s0 where "vga_init s = Some s0" "vga_ok s0" "only_console s s0" using vga_init_ok by blast
  then show ?thesis using run_calls_ok [of s0 calls] only_console_trans [of s s0] by blast
qed

text \<open>
  An interrupt handler must not print. While the lock is held, as it is when an interrupt arrives
  inside a call of the driver, every call of the driver spins forever.
\<close>

theorem console_held_lock_spins:
  "locked (vga_lock s) \<noteq> 0 \<Longrightarrow> run_call call s = None"
  by (cases call) (simp_all add: vga_put_char_body vga_write_def vga_set_color_def vga_set_colors_def vga_clear_def
      vga_acquire_eq)

theorem console_held_lock_spins_witness:
  "\<exists>s. vga_acquire blank_console = Some s \<and> run_call (Call_put CHR ''x'') s = None"
  using console_held_lock_spins [of "blank_console\<lparr>vga_lock := \<lparr>locked = 1\<rparr>\<rparr>" "Call_put CHR ''x''"]
  by (simp add: vga_acquire_eq blank_console_def)

text \<open>
  Sign extension in \<open>vga_entry\<close>: a character below 0x80 is stored with the colour asked for, a
  character from 0x80 on is stored with the attribute 0xFF, bright white blinking on white, whatever
  the colour.
\<close>

theorem vga_entry_attribute:
  "vga_entry c b = (if of_char c < (0x80 :: u8) then ucast (of_char c :: u8) OR push_bit 8 (ucast b)
      else 0xFF00 OR ucast (of_char c :: u8))" (is "_ = ?r")
proof (rule bit_word_eqI)
  fix n assume n: "n < LENGTH(16)"
  have "(0xFF00 :: u16) = push_bit 8 (mask 8)" by (simp add: mask_eq_exp_minus_1)
  moreover have "bit (push_bit 8 (mask 8) :: u16) n \<longleftrightarrow> 8 \<le> n" using n by (auto simp: bit_simps)
  ultimately have hi: "bit (0xFF00 :: u16) n \<longleftrightarrow> 8 \<le> n" by (simp only:)
  define w where "w = (of_char c :: u8)"
  have lo: "bit w n \<Longrightarrow> n < 8" using bit_imp_le_length [of w n] by simp
  have ext: "bit (scast w :: u16) n \<longleftrightarrow> (if n < 8 then bit w n else bit w 7)"
    using n by (cases "n = 7") (auto simp: bit_simps min_def)
  show "bit (vga_entry c b) n \<longleftrightarrow> bit ?r n"
    unfolding vga_entry_def w_def [symmetric] u8_sign_bit
    using n lo hi by (cases "n < 8"; cases "bit w 7") (simp_all add: ext bit_or_iff bit_unsigned_iff bit_push_bit_iff, blast)
qed

end
