(* ===== verification/Printf_Properties.thy ===== *)
theory Printf_Properties
  imports Printf Vga_Properties
begin

text \<open>
  Correctness of formatted output. Numbers are specified by their digits in a radix, with the
  value read back; formats by their pieces, from which the characters of the format and the
  actions on the console are both derived.
\<close>

abbreviation act :: "action list \<Rightarrow> 'a vga \<Rightarrow> 'a vga option" where
  "act \<equiv> perform vga_put_char vga_write vga_set_color"

section \<open>Numbers\<close>

definition digit :: "nat \<Rightarrow> char" where
  "digit d = ''0123456789ABCDEF'' ! d"

fun radix :: "nat \<Rightarrow> nat \<Rightarrow> string" where
  "radix b n = (if n < b \<or> b < 2 then [digit n] else radix b (n div b) @ [digit (n mod b)])"

declare radix.simps [simp del]

definition decimal :: "int \<Rightarrow> string" where
  "decimal i = (if i < 0 then CHR ''-'' # radix 10 (nat (- i)) else radix 10 (nat i))"

definition digit_value :: "char \<Rightarrow> nat" where
  "digit_value c = length (takeWhile (\<lambda>d. d \<noteq> c) ''0123456789ABCDEF'')"

definition radix_value :: "nat \<Rightarrow> string \<Rightarrow> nat" where
  "radix_value b ds = foldl (\<lambda>v c. v * b + digit_value c) 0 ds"

definition decimal_value :: "string \<Rightarrow> int" where
  "decimal_value ds =
     (if char_at ds = CHR ''-'' then - int (radix_value 10 (tl ds)) else int (radix_value 10 ds))"

lemma all_digits:
  "list_all (\<lambda>d. digit_value (digit d) = d \<and> digit d \<noteq> CHR ''-'' \<and> (d < 10 \<longrightarrow> digit d = char_of (48 + d))) [0..<16]"
  by code_simp

lemma digit_facts:
  assumes "d < 16"
  shows "digit_value (digit d) = d" "digit d \<noteq> CHR ''-''" "d < 10 \<Longrightarrow> digit d = char_of (48 + d)"
proof -
  have "d \<in> set [0..<16]" using assms by (simp only: set_upt atLeastLessThan_iff) simp
  with all_digits show "digit_value (digit d) = d" "digit d \<noteq> CHR ''-''" "d < 10 \<Longrightarrow> digit d = char_of (48 + d)"
    unfolding list_all_iff by blast+
qed

lemmas digit_value_digit = digit_facts(1)
lemmas digit_not_minus = digit_facts(2)

lemma digit_ascii: "d < 10 \<Longrightarrow> digit d = char_of (48 + d)"
  using digit_facts(3) [of d] by simp

lemma radix_value_snoc: "radix_value b (ds @ [c]) = radix_value b ds * b + digit_value c"
  by (simp add: radix_value_def)

lemma radix_roundtrip: "2 \<le> b \<Longrightarrow> b \<le> 16 \<Longrightarrow> radix_value b (radix b n) = n"
proof (induction b n rule: radix.induct)
  case (1 b n)
  show ?case
  proof (cases "n < b")
    case True
    then show ?thesis using 1 by (simp add: radix.simps [of b n] radix_value_def digit_value_digit)
  next
    case False
    moreover have "n mod b < 16" using 1(2,3) mod_less_divisor [of b n] by linarith
    ultimately show ?thesis using 1 by (simp add: radix.simps [of b n] radix_value_snoc digit_value_digit)
  qed
qed

lemma radix_Cons: "2 \<le> b \<Longrightarrow> b \<le> 16 \<Longrightarrow> \<exists>d ds. radix b n = digit d # ds \<and> d < b"
proof (induction b n rule: radix.induct)
  case (1 b n)
  then show ?case by (cases "n < b") (auto simp: radix.simps [of b n])
qed

lemma decimal_roundtrip: "decimal_value (decimal i) = i"
proof -
  obtain d ds where "radix 10 (nat i) = digit d # ds" "d < 10" using radix_Cons [of 10 "nat i"] by auto
  then have "char_at (radix 10 (nat i)) \<noteq> CHR ''-''" using digit_not_minus by (simp add: char_at_def)
  then show ?thesis by (simp add: decimal_def decimal_value_def radix_roundtrip) (simp add: char_at_def)
qed

section \<open>Number printing\<close>

lemma put_buf_act: "put_buf cs s = act (map Put cs) s"
  by (induction cs arbitrary: s) simp_all

lemma number_loop_radix:
  "unat u < 10 ^ k \<Longrightarrow> length buf + k \<le> 32 \<Longrightarrow>
     number_loop u buf = Some (buf @ (if u = 0 then [] else rev (radix 10 (unat u))))"
proof (induction k arbitrary: u buf)
  case 0
  then have "u = 0" by (simp add: unat_eq_0)
  then show ?case by (simp add: number_loop.simps [of 0])
next
  case (Suc k)
  show ?case
  proof (cases "u = 0")
    case False
    let ?b = "buf @ [char_of (48 + unat (u mod 10))]"
    have d: "unat (u div 10) = unat u div 10" "unat (u mod 10) = unat u mod 10" by (simp_all add: unat_div unat_mod)
    have "number_loop (u div 10) ?b = Some (?b @ (if u div 10 = 0 then [] else rev (radix 10 (unat (u div 10)))))"
      using Suc.prems d by (intro Suc.IH) auto
    moreover have "number_loop u buf = number_loop (u div 10) ?b"
      using False Suc.prems(2) by (subst number_loop.simps) (simp add: word_neq_0_conv)
    moreover have "u div 10 = 0 \<longleftrightarrow> unat u < 10" using d(1) by (auto simp: word_unat_eq_iff)
    ultimately show ?thesis using False d by (simp add: radix.simps [of 10 "unat u"] digit_ascii)
  qed (simp add: number_loop.simps [of 0])
qed

lemma unat_of_sint:
  assumes "0 \<le> k" "k < 2 ^ 32" "word_of_int k = (n::u32)"
  shows "unat n = nat k"
proof -
  have "of_nat (nat k) = n" using assms(1,3) by simp
  then show ?thesis using assms(1,2) unat_of_nat [of "nat k", where ?'a = 32] by (simp add: nat_less_iff)
qed

lemma unat_neg_sint: "sint (n::u32) < 0 \<Longrightarrow> unat (NOT n + 1) = nat (- sint n)"
  using sint_ge [of n] unat_of_sint [of "- sint n" "- n"] by (simp flip: minus_eq_not_plus_1)

lemma unat_pos_sint: "0 \<le> sint (n::u32) \<Longrightarrow> unat n = nat (sint n)"
  using sint_lt [of n] by (intro unat_of_sint) simp_all

lemma print_number_act: "print_number n s = act (map Put (decimal (sint n))) s"
proof (cases "n = 0")
  case True
  then show ?thesis by (simp add: print_number_def decimal_def radix.simps [of 10 0] digit_def)
next
  case False
  have len: "unat u < 10 ^ 10" for u :: u32 using unat_less_pow [of u] by simp
  have nl: "number_loop u [] = Some (rev (radix 10 (unat u)))" if "u \<noteq> 0" for u
    using number_loop_radix [OF len, of "[]" u] that by simp
  show ?thesis
  proof (cases "sint n < 0")
    case True
    then have "NOT n + 1 \<noteq> 0" using unat_neg_sint [OF True] by (auto simp: word_unat_eq_iff)
    then show ?thesis using True False nl [of "NOT n + 1"] unat_neg_sint [OF True]
      by (cases "vga_put_char CHR ''-'' s") (simp_all add: print_number_def decimal_def put_buf_act)
  next
    case False
    then have "unat n = nat (sint n)" by (intro unat_pos_sint) simp
    then show ?thesis using False \<open>n \<noteq> 0\<close> nl [of n] by (simp add: print_number_def decimal_def put_buf_act)
  qed
qed

text \<open>Exactly \<open>k\<close> hexadecimal digits.\<close>

primrec fixed_hex :: "nat \<Rightarrow> nat \<Rightarrow> string" where
  "fixed_hex 0 n = []"
| "fixed_hex (Suc k) n = digit (n div 16 ^ k mod 16) # fixed_hex k n"

lemma fixed_hex_snoc: "fixed_hex (Suc k) n = fixed_hex k (n div 16) @ [digit (n mod 16)]"
proof (induction k)
  case (Suc k)
  have "n div 16 ^ Suc k = n div 16 div 16 ^ k" by (simp add: div_mult2_eq)
  then show ?case using Suc by simp
qed simp

lemma radix_fixed: "16 ^ k \<le> n \<Longrightarrow> n < 16 ^ Suc k \<Longrightarrow> radix 16 n = fixed_hex (Suc k) n"
proof (induction k arbitrary: n)
  case 0
  then show ?case by (simp add: radix.simps [of 16 n])
next
  case (Suc k)
  have "radix 16 n = radix 16 (n div 16) @ [digit (n mod 16)]" 
    using order_trans [of 16 "16 * 16 ^ k" n] Suc.prems(1) by (simp add: radix.simps [of 16 n])
  moreover have "radix 16 (n div 16) = fixed_hex (Suc k) (n div 16)" using Suc.prems by (intro Suc.IH) auto
  ultimately show ?case using fixed_hex_snoc [of "Suc k" n] by simp
qed

lemma div_mod_mult: "0 < a \<Longrightarrow> n mod (a * b) div a = n div a mod (b::nat)"
  by (simp add: mod_mult2_eq)

lemma fixed_hex_mod: "fixed_hex k (n mod 16 ^ k) = fixed_hex k n"
proof -
  have "fixed_hex j (n mod 16 ^ k) = fixed_hex j n" if "j \<le> k" for j
    using that
  proof (induction j)
    case (Suc j)
    have "(16::nat) ^ k = 16 ^ j * 16 ^ (k - j)" using Suc.prems by (simp flip: power_add)
    moreover have "(16::nat) dvd 16 ^ (k - j)" using Suc.prems by (intro dvd_power) simp
    ultimately have "n mod 16 ^ k div 16 ^ j mod 16 = n div 16 ^ j mod 16"
      by (simp add: div_mod_mult mod_mod_cancel)
    then show ?case using Suc by simp
  qed simp
  then show ?thesis by simp
qed

lemma hex_digit:
  "unat (drop_bit (4 * k) (num::u32) AND 0xF) = unat num div 16 ^ k mod 16"
proof -
  have "drop_bit (4 * k) num AND 0xF = take_bit 4 (drop_bit (4 * k) num)"
    by (simp add: take_bit_eq_mask mask_eq_exp_minus_1)
  then show ?thesis
    by (simp only: unsigned_take_bit_eq unat_drop_bit_eq) (simp add: take_bit_eq_mod drop_bit_eq_div power_mult)
qed

lemma hex_loop_started: "hex_loop num (4 * int k - 4) True s = act (map Put (fixed_hex k (unat num))) s"
proof (induction k arbitrary: s)
  case 0
  then show ?case by (subst hex_loop.simps) simp
next
  case (Suc k)
  have "nat (4 * int k) = 4 * k" "4 * int (Suc k) - 4 = 4 * int k" by auto
  then show ?case using Suc
    by (subst hex_loop.simps) (simp add: Let_def hex_digit digit_def split: option.splits)
qed

lemma hex_loop_skip: "hex_loop num (4 * int k) False s = act (map Put (radix 16 (unat num mod 16 ^ Suc k))) s"
proof (induction k arbitrary: s)
  case 0
  show ?case
    by (subst hex_loop.simps)
      (simp add: Let_def hex_digit [of 0, simplified] radix.simps [of 16 "unat num mod 16"] digit_def hex_loop.simps [of num "- 4"] split: option.splits)
next
  case (Suc k)
  let ?n = "unat num mod 16 ^ Suc (Suc k)"
  let ?d = "unat num div 16 ^ Suc k mod 16"
  have n: "nat (4 * int (Suc k)) = 4 * Suc k" "4 * int (Suc k) - 4 = 4 * int k" by auto
  have dn: "?n div 16 ^ Suc k = ?d" and nm: "?n mod 16 ^ Suc k = unat num mod 16 ^ Suc k"
    using div_mod_mult [of "16 ^ Suc k" "unat num" 16] by (simp_all add: mod_mod_cancel mult.commute)
  have z: "drop_bit (4 * Suc k) num AND 0xF = 0 \<longleftrightarrow> ?d = 0" using hex_digit [of "Suc k" num] by (simp add: word_unat_eq_iff)
  show ?case
  proof (cases "?d = 0")
    case True
    then have "?n = unat num mod 16 ^ Suc k" using dn nm div_mult_mod_eq [of ?n "16 ^ Suc k"] by simp
    then show ?thesis using Suc [of s] z True n by (subst hex_loop.simps) (simp add: Let_def)
  next
    case False
    then have "16 ^ Suc k \<le> ?n" using dn by (metis div_less not_le)
    then have "radix 16 ?n = fixed_hex (Suc (Suc k)) ?n" by (rule radix_fixed) simp
    then have r: "radix 16 ?n = digit ?d # fixed_hex (Suc k) (unat num)" using fixed_hex_mod [of "Suc (Suc k)" "unat num"] by simp
    have "hex_loop num (4 * int (Suc k)) False s =
        (case vga_put_char (digit ?d) s of None \<Rightarrow> None | Some s \<Rightarrow> hex_loop num (4 * int (Suc k) - 4) True s)"
      using z False n hex_digit [of "Suc k" num]
      by (subst hex_loop.simps) (simp add: Let_def digit_def del: of_nat_Suc)
    also have "\<dots> = act (map Put (radix 16 ?n)) s"
      unfolding r by (simp only: hex_loop_started) (simp split: option.splits)
    finally show ?thesis .
  qed
qed

lemma print_hex_act: "print_hex n s = act (map Put (radix 16 (unat n))) s"
  using hex_loop_skip [of n 7 s] unat_less_pow [of n] by (simp add: print_hex_def)

lemma print_ptr_act: "print_ptr p s = act (Write ''0x'' # map Put (radix 16 (unat p))) s"
  using print_hex_act [of p] by (cases "vga_write ''0x'' s") (simp_all add: print_ptr_def print_hex_def)

section \<open>Escape sequences\<close>

lemma all_decimals:
  "list_all (\<lambda>d. of_char (digit d) = (48 + int d)) [0..<10]"
  by code_simp

lemma of_char_digit: "d < 10 \<Longrightarrow> of_char (digit d) = 48 + int d"
proof -
  assume "d < 10"
  then have "d \<in> set [0..<10]" by (simp only: set_upt atLeastLessThan_iff) simp
  then show ?thesis using all_decimals by (simp only: list_all_iff)
qed

lemma radix_digits: "c \<in> set (radix 10 n) \<Longrightarrow> \<exists>d<10. c = digit d"
proof (induction "10::nat" n rule: radix.induct)
  case (1 n)
  have "n mod 10 < 10" by simp
  then show ?case using 1 by (cases "n < 10") (auto simp: radix.simps [of 10 n] intro: exI [of _ "n mod 10"])
qed

lemma ansi_digits_run:
  "\<forall>c \<in> set ds. \<exists>d<10. c = digit d \<Longrightarrow>
     int (foldl (\<lambda>v c. v * 10 + digit_value c) n ds) \<le> 2147483647 \<Longrightarrow>
     ansi_digits (ds @ CHR ''m'' # p) (int n) =
       Some (int (foldl (\<lambda>v c. v * 10 + digit_value c) n ds), CHR ''m'' # p)"
proof (induction ds arbitrary: n)
  case (Cons c ds)
  obtain d where d: "d < 10" "c = digit d" using Cons.prems(1) by auto
  have mono: "v \<le> foldl (\<lambda>v c. v * 10 + digit_value c) v xs" for v xs
    by (induction xs rule: rev_induct) (auto intro: trans_le_add1)
  have "of_char c = 48 + int d" using d of_char_digit by simp
  moreover have "digit_value c = d" using d digit_value_digit by simp
  moreover have "int (n * 10 + d) \<le> 2147483647"
    using Cons.prems(2) mono [of "n * 10 + d" ds] \<open>digit_value c = d\<close> by simp
  ultimately show ?case using Cons.IH [of "n * 10 + d"] Cons.prems d by (simp add: mult.commute)
qed simp

lemma handle_ansi_sequence:
  assumes "int n \<le> 2147483647"
  shows "handle_ansi (CHR 0x1B # CHR ''['' # radix 10 n @ CHR ''m'' # p) s =
    map_option (\<lambda>s. Some (CHR ''m'' # p, s)) (case ansi_color (int n) of Some c \<Rightarrow> vga_set_color c s | None \<Rightarrow> Some s)"
proof -
  have "foldl (\<lambda>v c. v * 10 + digit_value c) 0 (radix 10 n) = n"
    using radix_roundtrip [of 10 n] by (simp add: radix_value_def)
  then have "ansi_digits (radix 10 n @ CHR ''m'' # p) 0 = Some (int n, CHR ''m'' # p)"
    using ansi_digits_run [of "radix 10 n" 0 p] radix_digits [of _ n] assms by simp
  then show ?thesis
    by (cases "ansi_color (int n)") (simp_all add: handle_ansi_def char_at_def map_option_case split: option.splits bind_splits)
qed

section \<open>Formats\<close>

datatype piece =
    Lit char | Dec | Hex | Ptr | Text | Chr | Percent char | Ansi nat

primrec unparse1 :: "piece \<Rightarrow> string" where
  "unparse1 (Lit c) = [c]"
| "unparse1 Dec = ''%d''"
| "unparse1 Hex = ''%x''"
| "unparse1 Ptr = ''%p''"
| "unparse1 Text = ''%s''"
| "unparse1 Chr = ''%c''"
| "unparse1 (Percent c) = [CHR ''%'', c]"
| "unparse1 (Ansi n) = CHR 0x1B # CHR ''['' # radix 10 n @ [CHR ''m'']"

definition unparse :: "piece list \<Rightarrow> string" where
  "unparse ps = concat (map unparse1 ps)"

primrec piece_ok :: "piece \<Rightarrow> bool" where
  "piece_ok (Lit c) \<longleftrightarrow> c \<notin> {CHR 0x00, CHR 0x1B, CHR ''%''}"
| "piece_ok Dec \<longleftrightarrow> True"
| "piece_ok Hex \<longleftrightarrow> True"
| "piece_ok Ptr \<longleftrightarrow> True"
| "piece_ok Text \<longleftrightarrow> True"
| "piece_ok Chr \<longleftrightarrow> True"
| "piece_ok (Percent c) \<longleftrightarrow> c \<notin> set ''dxpsc'' \<and> c \<noteq> CHR 0x00"
| "piece_ok (Ansi n) \<longleftrightarrow> int n \<le> 2147483647"

fun render1 :: "piece \<Rightarrow> va_arg list \<Rightarrow> (action list \<times> va_arg list) option" where
  "render1 (Lit c) args = Some ([Put c], args)"
| "render1 Dec (Word w # args) = Some (map Put (decimal (sint w)), args)"
| "render1 Hex (Word w # args) = Some (map Put (radix 16 (unat w)), args)"
| "render1 Ptr (Word w # args) = Some (Write ''0x'' # map Put (radix 16 (unat w)), args)"
| "render1 Text (Str str # args) = Some ([Write str], args)"
| "render1 Chr (Word w # args) = Some ([Put (char_of (unat w))], args)"
| "render1 (Percent c) args = Some ([Put c], args)"
| "render1 (Ansi n) args = Some (case ansi_color (int n) of Some b \<Rightarrow> [Color b] | None \<Rightarrow> [], args)"
| "render1 _ _ = None"

fun render :: "piece list \<Rightarrow> va_arg list \<Rightarrow> action list option" where
  "render [] args = Some []"
| "render (p # ps) args =
     (case render1 p args of None \<Rightarrow> None
      | Some (as, args) \<Rightarrow> map_option (append as) (render ps args))"

lemma vprintf_percent:
  "c \<noteq> CHR 0x00 \<Longrightarrow> vprintf (CHR ''%'' # c # rest) args s =
     (case convert c args s of None \<Rightarrow> None | Some (args, s) \<Rightarrow> vprintf rest args s)"
  by (subst vprintf.simps) (simp add: char_at_def Let_def del: convert.simps split: option.splits)

lemma vprintf_piece:
  assumes "piece_ok p" "render1 p args = Some (as, args')"
  shows "vprintf (unparse1 p @ rest) args s = act as s \<bind> vprintf rest args'"
proof (cases p)
  case (Lit c)
  then show ?thesis using assms by (subst vprintf.simps) (auto simp: char_at_def split: option.splits)
next
  case (Ansi n)
  then show ?thesis using assms
    by (subst vprintf.simps) (auto simp: char_at_def handle_ansi_sequence split: option.splits)
next
  case (Percent c)
  then show ?thesis using assms by (auto simp: vprintf_percent split: option.splits)
qed (use assms in \<open>auto simp: vprintf_percent print_number_act print_hex_act print_ptr_act
      elim!: render1.elims split: option.splits\<close>)

lemma vprintf_pieces:
  "list_all piece_ok ps \<Longrightarrow> render ps args = Some as \<Longrightarrow> vprintf (unparse ps) args s = act as s"
proof (induction ps arbitrary: args as s)
  case Nil
  then show ?case by (subst vprintf.simps) (simp add: unparse_def char_at_def)
next
  case (Cons p ps)
  obtain as1 args1 as2 where r: "render1 p args = Some (as1, args1)" "render ps args1 = Some as2" "as = as1 @ as2"
    using Cons.prems(2) by (auto split: option.splits)
  have "vprintf (unparse (p # ps)) args s = act as1 s \<bind> vprintf (unparse ps) args1"
    using vprintf_piece [of p args as1 args1 "unparse ps" s] Cons.prems(1) r(1) by (simp add: unparse_def)
  also have "\<dots> = act as s" using Cons.IH [OF _ r(2)] Cons.prems(1) r(3)
    by (cases "act as1 s") (simp_all add: perform_append)
  finally show ?case .
qed

section \<open>Main results\<close>

text \<open>
  C26. Decimal output. \<open>print_number\<close> puts the decimal numeral of the signed value, minus sign included,
  for every \<^verbatim>\<open>int\<close> down to the most negative one; the numeral reads back as the value and fits the
  32 characters of the buffer.
\<close>

theorem print_number_correct:
  "print_number n s = act (map Put (decimal (sint n))) s \<and> decimal_value (decimal (sint n)) = sint n"
  by (simp add: print_number_act decimal_roundtrip)

text \<open>
  Hexadecimal output. \<open>print_hex\<close> puts the numeral of the unsigned value without leading zeros,
  \<open>print_ptr\<close> the same after the prefix; the numeral reads back as the value.
\<close>

theorem print_hex_correct:
  "print_hex n s = act (map Put (radix 16 (unat n))) s \<and>
   print_ptr n s = act (Write ''0x'' # map Put (radix 16 (unat n))) s \<and>
   radix_value 16 (radix 16 (unat n)) = unat n \<and> (n \<noteq> 0 \<longrightarrow> hd (radix 16 (unat n)) \<noteq> CHR ''0'')"
proof -
  have "hd (radix 16 m) \<noteq> CHR ''0''" if "m \<noteq> 0" for m
    using that
  proof (induction "16::nat" m rule: radix.induct)
    case (1 m)
    have ne: "radix 16 k \<noteq> []" for k using radix_Cons [of 16 k] by auto
    have "digit d \<noteq> CHR ''0''" if "0 < d" "d < 16" for d
      using that digit_value_digit [of d] by (auto simp: digit_value_def)
    then show ?case using 1 ne by (cases "m < 16") (auto simp: radix.simps [of 16 m])
  qed
  moreover have "n \<noteq> 0 \<longleftrightarrow> unat n \<noteq> 0" by (simp add: unat_eq_0)
  ultimately show ?thesis by (simp add: print_hex_act print_ptr_act radix_roundtrip)
qed

text \<open>
  C25. Formatted output refines its description. For every format made of plain characters, the
  conversions of the file and colour sequences, with arguments of the right kinds, \<open>vprintf\<close> performs
  exactly the actions the pieces stand for, in order; on a console in order it returns, keeps the
  console in order, and the screen is the one those actions produce.
\<close>

theorem vprintf_correct:
  assumes "list_all piece_ok ps" "render ps args = Some as"
  shows "vprintf (unparse ps) args s = act as s \<and>
    (vga_ok s \<longrightarrow> (\<exists>s'. vprintf (unparse ps) args s = Some s' \<and> vga_ok s' \<and> only_console s s' \<and>
       terminal_of s' = fold (vact term_put term_color) as (terminal_of s)))"
  unfolding vprintf_pieces [OF assms] using vga.perform_ok [of s as] by blast

theorem vprintf_correct_witness:
  "unparse [Lit CHR ''n'', Percent CHR ''%'', Dec, Ansi 31, Hex] = ''n%%%d'' @ CHR 0x1B # ''[31m%x'' \<and>
   (\<exists>s'. vprintf (''n%%%d'' @ CHR 0x1B # ''[31m%x'') [Word (- 12), Word 0xBEEF] blank_console = Some s' \<and>
      terminal_of s' = fold (vact term_put term_color)
        (map Put ''n%-12'' @ Color 4 # map Put ''BEEF'') (terminal_of blank_console))"
proof -
  have u: "unparse [Lit CHR ''n'', Percent CHR ''%'', Dec, Ansi 31, Hex] = ''n%%%d'' @ CHR 0x1B # ''[31m%x''"
    by (simp add: unparse_def radix.simps [of 10 31] radix.simps [of 10 3] digit_def)
  have r: "render [Lit CHR ''n'', Percent CHR ''%'', Dec, Ansi 31, Hex] [Word (- 12), Word 0xBEEF] =
      Some (map Put ''n%-12'' @ Color 4 # map Put ''BEEF'')"
    by (simp add: decimal_def ansi_color_def radix.simps [of 10 12] radix.simps [of 10 "Suc 0"] radix.simps [of 16 48879]
      radix.simps [of 16 3054] radix.simps [of 16 190] radix.simps [of 16 11] digit_def)
  have "list_all piece_ok [Lit CHR ''n'', Percent CHR ''%'', Dec, Ansi 31, Hex]" by simp
  from vprintf_correct [OF this r, of blank_console] show ?thesis
    unfolding u using blank_console_ok by blast
qed

text \<open>
  A percent sign at the end. After any well-formed beginning, a format whose last character is a
  percent sign makes \<open>vprintf\<close> print the terminating zero and read on behind it: there is no
  defined end.
\<close>

theorem vprintf_trailing_percent:
  assumes "list_all piece_ok ps" "render ps args \<noteq> None"
  shows "vprintf (unparse ps @ ''%'') args s = None"
  using assms
proof (induction ps arbitrary: args s)
  case Nil
  then show ?case by (subst vprintf.simps) (simp add: unparse_def char_at_def split: option.splits)
next
  case (Cons p ps)
  obtain as1 args1 where r: "render1 p args = Some (as1, args1)" "render ps args1 \<noteq> None"
    using Cons.prems(2) by (auto split: option.splits)
  then have "vprintf (unparse (p # ps) @ ''%'') args s = act as1 s \<bind> vprintf (unparse ps @ ''%'') args1"
    using vprintf_piece [of p args as1 args1 "unparse ps @ ''%''" s] Cons.prems(1) by (simp add: unparse_def)
  then show ?case using Cons.IH [OF _ r(2)] Cons.prems(1) by (cases "act as1 s") simp_all
qed

theorem vprintf_trailing_percent_witness:
  "vprintf ''100%'' [] blank_console = None"
proof -
  have "unparse [Lit CHR ''1'', Lit CHR ''0'', Lit CHR ''0''] @ ''%'' = ''100%''" by (simp add: unparse_def)
  then show ?thesis
    using vprintf_trailing_percent [of "[Lit CHR ''1'', Lit CHR ''0'', Lit CHR ''0'']" "[]" blank_console] by simp
qed

end
