(* ===== verification/Log.thy ===== *)
theory Log
  imports Printf_Properties
begin

text \<open>
  The tick counter (\<^verbatim>\<open>time/time.c\<close>), the log (\<^verbatim>\<open>log/log.c\<close>) and the empty functions of
  \<^verbatim>\<open>kernel/stubs.c\<close> that the rest of the kernel links against.
\<close>

section \<open>The tick counter\<close>

record time_t = vga_t +
  ticks :: u64

type_synonym 'a ktime = "'a time_t_scheme"

definition time_get_ticks :: "'a ktime \<Rightarrow> u64" where
  "time_get_ticks s = ticks s"

definition time_set_ticks :: "u64 \<Rightarrow> 'a ktime \<Rightarrow> 'a ktime" where
  "time_set_ticks t s = s\<lparr>ticks := t\<rparr>"

section \<open>The log\<close>

text \<open>The cast of the ticks to \<^verbatim>\<open>int\<close> keeps the low 32 bits.\<close>

definition print_timestamp :: "'a ktime \<Rightarrow> 'a ktime option" where
  "print_timestamp s =
     do { let t = time_get_ticks s;
          s \<leftarrow> printf ''['' [] s;
          s \<leftarrow> printf ''%d'' [Word (ucast t)] s;
          printf ''] '' [] s }"

definition log_info :: "string \<Rightarrow> va_arg list \<Rightarrow> 'a ktime \<Rightarrow> 'a ktime option" where
  "log_info fmt args s =
     do { s \<leftarrow> print_timestamp s;
          s \<leftarrow> printf (CHR 0x1B # ''[32m[INFO] '') [] s;
          s \<leftarrow> vprintf fmt args s;
          printf (CHR 0x1B # ''[0m\<newline>'') [] s }"

definition log_warn :: "string \<Rightarrow> va_arg list \<Rightarrow> 'a ktime \<Rightarrow> 'a ktime option" where
  "log_warn fmt args s =
     do { s \<leftarrow> print_timestamp s;
          s \<leftarrow> printf (CHR 0x1B # ''[33m[WARN] '') [] s;
          s \<leftarrow> vprintf fmt args s;
          printf (CHR 0x1B # ''[0m\<newline>'') [] s }"

definition log_error :: "string \<Rightarrow> va_arg list \<Rightarrow> 'a ktime \<Rightarrow> 'a ktime option" where
  "log_error fmt args s =
     do { s \<leftarrow> print_timestamp s;
          s \<leftarrow> printf (CHR 0x1B # ''[31m[ERROR] '') [] s;
          s \<leftarrow> vprintf fmt args s;
          printf (CHR 0x1B # ''[0m\<newline>'') [] s }"

section \<open>The stubs\<close>

definition log_debug :: "string \<Rightarrow> 'a ktime \<Rightarrow> 'a ktime" where
  "log_debug msg s = s"

definition log_fatal :: "string \<Rightarrow> 'a ktime \<Rightarrow> 'a ktime" where
  "log_fatal msg s = s"

definition vga_clear_screen :: "'a ktime \<Rightarrow> 'a ktime" where
  "vga_clear_screen s = s"

definition vga_set_cursor :: "int \<Rightarrow> int \<Rightarrow> 'a ktime \<Rightarrow> 'a ktime" where
  "vga_set_cursor x y s = s"

definition tfp_format :: "string \<Rightarrow> 'a vga \<Rightarrow> int \<times> 'a vga" where
  "tfp_format fmt s = (0, s)"

definition vga_printf :: "string \<Rightarrow> 'a vga \<Rightarrow> 'a vga" where
  "vga_printf format s = snd (tfp_format format s)"

section \<open>Log lines\<close>

definition log_actions :: "nat \<Rightarrow> string \<Rightarrow> u64 \<Rightarrow> action list \<Rightarrow> action list" where
  "log_actions code label t body =
     map Put (''['' @ decimal (sint (ucast t :: u32)) @ ''] '') @
     (case ansi_color (int code) of Some b \<Rightarrow> [Color b] | None \<Rightarrow> []) @ map Put label @ body @
     [Color 0x0F, Put CHR ''\<newline>'']"

lemma unparse_Lits: "unparse (map Lit cs) = cs"
  by (induction cs) (simp_all add: unparse_def)

lemma render_Lits: "render (map Lit cs) [] = Some (map Put cs)"
  by (induction cs) simp_all

lemma printf_plain:
  "list_all (\<lambda>c. c \<notin> {CHR 0x00, CHR 0x1B, CHR ''%''}) cs \<Longrightarrow> printf cs [] s = act (map Put cs) s"
  using vprintf_pieces [of "map Lit cs" "[]" "map Put cs" s]
  by (simp add: printf_def unparse_Lits render_Lits list_all_iff)

lemma printf_ansi:
  assumes "int n \<le> 2147483647" "list_all (\<lambda>c. c \<notin> {CHR 0x00, CHR 0x1B, CHR ''%''}) cs"
  shows "printf (CHR 0x1B # CHR ''['' # radix 10 n @ CHR ''m'' # cs) [] s =
    act ((case ansi_color (int n) of Some b \<Rightarrow> [Color b] | None \<Rightarrow> []) @ map Put cs) s"
proof -
  have "list_all piece_ok (Ansi n # map Lit cs)" using assms by (simp add: list_all_iff)
  moreover have "unparse (Ansi n # map Lit cs) = CHR 0x1B # CHR ''['' # radix 10 n @ CHR ''m'' # cs"
    using unparse_Lits [of cs] by (simp add: unparse_def)
  ultimately show ?thesis
    using vprintf_pieces [of "Ansi n # map Lit cs" "[]" _ s] by (simp add: printf_def render_Lits)
qed

lemma radix_two_digits: "radix 10 (3 * 10 + d) = CHR ''3'' # [digit d]" if "d < 10"
proof -
  have "(30 + d) div 10 = 3" "(30 + d) mod 10 = d" using that by presburger+
  then show ?thesis by (simp add: radix.simps [of 10 "30 + d"] radix.simps [of 10 3] digit_def)
qed

lemma print_timestamp_act:
  "print_timestamp s = act (map Put (''['' @ decimal (sint (ucast (ticks s) :: u32)) @ ''] '')) s"
proof -
  have "printf ''%d'' [Word w] s = act (map Put (decimal (sint w))) s" for w and s :: "'a ktime"
    using vprintf_pieces [of "[Dec]" "[Word w]" _ s] by (simp add: printf_def unparse_def)
  moreover have "printf ''['' [] = (act (map Put ''['') :: 'a ktime \<Rightarrow> _)" "printf ''] '' [] = (act (map Put ''] '') :: 'a ktime \<Rightarrow> _)"
    by (rule ext, rule printf_plain, simp)+
  ultimately show ?thesis
    by (simp only: print_timestamp_def time_get_ticks_def Let_def map_append perform_seq bind_assoc)
qed

lemma log_line_act:
  fixes s :: "'a ktime"
  assumes "list_all piece_ok ps" "render ps args = Some body" "d < 10"
    and label: "list_all (\<lambda>c. c \<notin> {CHR 0x00, CHR 0x1B, CHR ''%''}) label"
  shows "do { s \<leftarrow> print_timestamp s;
          s \<leftarrow> printf (CHR 0x1B # CHR ''['' # CHR ''3'' # digit d # CHR ''m'' # label) [] s;
          s \<leftarrow> vprintf (unparse ps) args s;
          printf (CHR 0x1B # ''[0m\<newline>'') [] s } = act (log_actions (30 + d) label (ticks s) body) s"
proof -
  have c: "printf (CHR 0x1B # CHR ''['' # CHR ''3'' # digit d # CHR ''m'' # label) [] u =
      act ((case ansi_color (int (30 + d)) of Some b \<Rightarrow> [Color b] | None \<Rightarrow> []) @ map Put label) u" for u :: "'a ktime"
    using printf_ansi [of "3 * 10 + d" label u] radix_two_digits [OF assms(3)] label assms(3) by simp
  have z: "printf (CHR 0x1B # ''[0m\<newline>'') [] u = act [Color 0x0F, Put CHR ''\<newline>''] u" for u :: "'a ktime"
    using printf_ansi [of 0 "''\<newline>''" u] by (simp add: radix.simps [of 10 0] digit_def ansi_color_def)
  show ?thesis
    by (simp only: print_timestamp_act c z vprintf_pieces [OF assms(1,2)] log_actions_def perform_seq bind_assoc)
qed

lemma log_act:
  assumes "list_all piece_ok ps" "render ps args = Some body"
  shows "log_info (unparse ps) args s = act (log_actions 32 ''[INFO] '' (ticks s) body) s"
    and "log_warn (unparse ps) args s = act (log_actions 33 ''[WARN] '' (ticks s) body) s"
    and "log_error (unparse ps) args s = act (log_actions 31 ''[ERROR] '' (ticks s) body) s"
  using log_line_act [OF assms, of 2 "''[INFO] ''" s] log_line_act [OF assms, of 3 "''[WARN] ''" s]
    log_line_act [OF assms, of 1 "''[ERROR] ''" s]
  by (simp_all add: log_info_def log_warn_def log_error_def digit_def)

text \<open>What the console's frame says of the tick counter.\<close>

lemma only_console_ticks: "only_console s s' \<Longrightarrow> ticks s' = ticks (s :: 'a ktime)"
  by (cases s; cases s') (simp add: only_console_def vga_t.defs)

lemma log_ok:
  assumes "vga_ok s" "list_all piece_ok ps" "render ps args = Some body"
  shows "\<exists>s'. log_info (unparse ps) args s = Some s' \<and> vga_ok s' \<and> only_console s s'"
    and "\<exists>s'. log_warn (unparse ps) args s = Some s' \<and> vga_ok s' \<and> only_console s s'"
    and "\<exists>s'. log_error (unparse ps) args s = Some s' \<and> vga_ok s' \<and> only_console s s'"
  unfolding log_act [OF assms(2,3)] using vga.perform_ok [OF assms(1)] by blast+

lemma log_info_plain:
  "list_all (\<lambda>c. c \<notin> {CHR 0x00, CHR 0x1B, CHR ''%''}) cs \<Longrightarrow> vga_ok s \<Longrightarrow>
     \<exists>s'. log_info cs [] s = Some s' \<and> vga_ok s' \<and> only_console s s'"
  using log_ok(1) [of s "map Lit cs" "[]" "map Put cs"] by (simp add: unparse_Lits render_Lits list_all_iff)

section \<open>Literal formats\<close>

text \<open>The pieces of a format without colours and strings, and how many words it consumes.\<close>

fun parse_format :: "string \<Rightarrow> piece list" where
  "parse_format (c # d # cs) =
     (if c = CHR ''%'' then
        (if d = CHR ''d'' then Dec # parse_format cs else if d = CHR ''x'' then Hex # parse_format cs
         else if d = CHR ''p'' then Ptr # parse_format cs else if d = CHR ''c'' then Chr # parse_format cs
         else Percent d # parse_format cs)
      else Lit c # parse_format (d # cs))"
| "parse_format [c] = [Lit c]"
| "parse_format [] = []"

fun words_used :: "piece list \<Rightarrow> nat" where
  "words_used [] = 0"
| "words_used (Lit c # ps) = words_used ps"
| "words_used (Percent c # ps) = words_used ps"
| "words_used (Ansi n # ps) = words_used ps"
| "words_used (p # ps) = Suc (words_used ps)"

definition word_format :: "string \<Rightarrow> nat \<Rightarrow> bool" where
  "word_format fmt k \<longleftrightarrow> list_all piece_ok (parse_format fmt) \<and> words_used (parse_format fmt) = k"

lemma unparse_parse: "unparse (parse_format fmt) = fmt"
  by (induction fmt rule: parse_format.induct) (simp_all add: unparse_def)

lemma parse_no_text: "Text \<notin> set (parse_format fmt)"
  by (induction fmt rule: parse_format.induct) simp_all

lemma render_words:
  "Text \<notin> set ps \<Longrightarrow> words_used ps = length ws \<Longrightarrow> \<exists>body. render ps (map Word ws) = Some body"
proof (induction ps arbitrary: ws rule: words_used.induct)
  case (2 c ps)
  then show ?case by fastforce
next
  case (3 c ps)
  then show ?case by fastforce
next
  case (4 n ps)
  then show ?case by fastforce
qed (auto simp: length_Suc_conv Suc_length_conv)

lemma log_words:
  assumes "vga_ok s" "word_format fmt (length ws)"
  shows "\<exists>s'. log_info fmt (map Word ws) s = Some s' \<and> vga_ok s' \<and> only_console s s'"
    and "\<exists>s'. log_warn fmt (map Word ws) s = Some s' \<and> vga_ok s' \<and> only_console s s'"
    and "\<exists>s'. log_error fmt (map Word ws) s = Some s' \<and> vga_ok s' \<and> only_console s s'"
proof -
  obtain body where r: "render (parse_format fmt) (map Word ws) = Some body"
    using render_words [OF parse_no_text, of fmt ws] assms(2) by (auto simp: word_format_def)
  have p: "list_all piece_ok (parse_format fmt)" using assms(2) by (simp add: word_format_def)
  show "\<exists>s'. log_info fmt (map Word ws) s = Some s' \<and> vga_ok s' \<and> only_console s s'"
    "\<exists>s'. log_warn fmt (map Word ws) s = Some s' \<and> vga_ok s' \<and> only_console s s'"
    "\<exists>s'. log_error fmt (map Word ws) s = Some s' \<and> vga_ok s' \<and> only_console s s'"
    using log_ok [OF assms(1) p r] by (simp_all add: unparse_parse)
qed

section \<open>Main results\<close>

text \<open>
  A log line. On a console in order \<open>log_info\<close>, \<open>log_warn\<close> and \<open>log_error\<close> return; the terminal then
  shows the tick counter in brackets, the label in its colour, the formatted message and a line
  break, with the foreground white again; nothing else has changed, the tick counter included.
\<close>

theorem log_line_correct:
  fixes s :: "'a ktime"
  assumes "vga_ok s" "list_all piece_ok ps" "render ps args = Some body"
    "(log, code, label) \<in> {(log_info, 32, ''[INFO] ''), (log_warn, 33, ''[WARN] ''), (log_error, 31, ''[ERROR] '')}"
  shows "\<exists>s'. log (unparse ps) args s = Some s' \<and> vga_ok s' \<and> only_console s s' \<and> ticks s' = ticks s \<and>
    terminal_of s' = fold (vact term_put term_color) (log_actions code label (ticks s) body) (terminal_of s)"
proof -
  have "log (unparse ps) args s = act (log_actions code label (ticks s) body) s"
    using assms(4) log_act [OF assms(2,3), of s] by auto
  then show ?thesis
    using vga.perform_ok [OF assms(1), of "log_actions code label (ticks s) body"] only_console_ticks [of s] by auto
qed

definition quiet_clock :: "unit ktime" where
  "quiet_clock = \<lparr>io_trace = [], VGA_MEMORY = \<lambda>_. 0x0F20, cursor_row = 0, cursor_col = 0,
     current_color_byte = 0x0F, vga_lock = \<lparr>locked = 0\<rparr>, ticks = 7\<rparr>"

theorem log_line_correct_witness:
  "\<exists>s'. log_warn ''%c!'' [Word 65] quiet_clock = Some s' \<and> ticks s' = 7 \<and>
     terminal_of s' = fold (vact term_put term_color)
       (map Put ''[7] '' @ [Color 6] @ map Put ''[WARN] A!'' @ [Color 0x0F, Put CHR ''\<newline>'']) (terminal_of quiet_clock)"
proof -
  have ok: "vga_ok quiet_clock" and t: "ticks quiet_clock = 7"
    by (simp_all add: quiet_clock_def vga_ok_def cursor_ok_def)
  have u: "unparse [Chr, Lit CHR ''!''] = ''%c!''" by (simp add: unparse_def)
  have r: "render [Chr, Lit CHR ''!''] [Word 65] = Some (map Put ''A!'')" by (simp add: char_of_def bit_iff_odd)
  have a: "log_actions 33 ''[WARN] '' 7 (map Put ''A!'') =
      map Put ''[7] '' @ [Color 6] @ map Put ''[WARN] A!'' @ [Color 0x0F, Put CHR ''\<newline>'']"
    by (simp add: log_actions_def ansi_color_def decimal_def radix.simps [of 10 7] digit_def)
  have p: "list_all piece_ok [Chr, Lit CHR ''!'']" by simp
  show ?thesis using log_line_correct [OF ok p r, of log_warn 33 "''[WARN] ''"] unfolding u t a by auto
qed

end
