(* ===== verification/Pic.thy ===== *)
theory Pic
  imports Log
begin

text \<open>
  The interrupt controllers, \<^verbatim>\<open>pic/pic.c\<close>. The functions are the port accesses of the source, in
  order, with the log lines between them (the calls of \<open>log_debug\<close>, an empty function, are left
  out). What the accesses mean to the chips is stated against the data sheet of the 8259A: a state
  machine that reads the history of port writes. That a read of the data port gives the mask
  register, which the driver relies on, is the predicate \<open>pic_answers\<close> on the hardware parameter.
\<close>

section \<open>The driver\<close>

definition PIC1_CMD :: u16 where [c_const]: "PIC1_CMD = 0x20"
definition PIC1_DATA :: u16 where [c_const]: "PIC1_DATA = 0x21"
definition PIC2_CMD :: u16 where [c_const]: "PIC2_CMD = 0xA0"
definition PIC2_DATA :: u16 where [c_const]: "PIC2_DATA = 0xA1"
definition PIC_EOI :: u8 where [c_const]: "PIC_EOI = 0x20"
definition ICW1_INIT :: u8 where [c_const]: "ICW1_INIT = 0x11"
definition ICW4_8086 :: u8 where [c_const]: "ICW4_8086 = 0x01"

definition io_wait :: "'a io_state_scheme \<Rightarrow> 'a io_state_scheme" where
  "io_wait s = outb 0x80 0x00 s"

definition pic_init :: "hardware \<Rightarrow> 'a ktime \<Rightarrow> 'a ktime option" where
  "pic_init hw s =
     do { s \<leftarrow> log_info ''Initializing 8259 PICs...'' [] s;
          let (mask1, s) = inb hw PIC1_DATA s;
          let (mask2, s) = inb hw PIC2_DATA s;
          let s = io_wait (outb PIC1_CMD ICW1_INIT s);
          let s = io_wait (outb PIC2_CMD ICW1_INIT s);
          let s = io_wait (outb PIC1_DATA 0x20 s);
          let s = io_wait (outb PIC2_DATA 0x28 s);
          let s = io_wait (outb PIC1_DATA 0x04 s);
          let s = io_wait (outb PIC2_DATA 0x02 s);
          let s = io_wait (outb PIC1_DATA ICW4_8086 s);
          let s = io_wait (outb PIC2_DATA ICW4_8086 s);
          let s = outb PIC1_DATA mask1 s;
          let s = outb PIC2_DATA mask2 s;
          log_info ''8259 PICs initialized and remapped.'' [] s }"

definition pic_send_eoi :: "u8 \<Rightarrow> 'a io_state_scheme \<Rightarrow> 'a io_state_scheme" where
  "pic_send_eoi irq s =
     (let s = (if irq \<ge> 8 then outb PIC2_CMD PIC_EOI s else s) in outb PIC1_CMD PIC_EOI s)"

text \<open>
  The shift \<^verbatim>\<open>1 << irq\<close> is on \<^verbatim>\<open>int\<close>: by 32 or more it is undefined. The result is truncated to the
  byte that is written.
\<close>

definition pic_mask_irq :: "hardware \<Rightarrow> u8 \<Rightarrow> 'a io_state_scheme \<Rightarrow> 'a io_state_scheme option" where
  "pic_mask_irq hw irq s =
     (let (port, irq) = (if irq < 8 then (PIC1_DATA, irq) else (PIC2_DATA, irq - 8));
          (v, s) = inb hw port s
      in if unat irq \<ge> 32 then None
         else Some (outb port (v OR ucast (push_bit (unat irq) (1::u32))) s))"

definition pic_unmask_irq :: "hardware \<Rightarrow> u8 \<Rightarrow> 'a io_state_scheme \<Rightarrow> 'a io_state_scheme option" where
  "pic_unmask_irq hw irq s =
     (let (port, irq) = (if irq < 8 then (PIC1_DATA, irq) else (PIC2_DATA, irq - 8));
          (v, s) = inb hw port s
      in if unat irq \<ge> 32 then None
         else Some (outb port (v AND ucast (NOT (push_bit (unat irq) (1::u32)))) s))"

definition pic_mask_all :: "'a ktime \<Rightarrow> 'a ktime option" where
  "pic_mask_all s =
     (let s = outb PIC1_DATA 0xFF s; s = outb PIC2_DATA 0xFF s
      in log_info ''All IRQs on PICs masked.'' [] s)"

definition pic_unmask_all :: "'a ktime \<Rightarrow> 'a ktime option" where
  "pic_unmask_all s =
     (let s = outb PIC1_DATA 0x00 s; s = outb PIC2_DATA 0x00 s
      in log_info ''All IRQs on PICs unmasked (use with caution).'' [] s)"

section \<open>The chip\<close>

text \<open>
  A write to the command port with bit 4 set starts an initialisation: it clears the mask and
  announces the words that follow on the data port, the vector base, the cascade word unless the
  chip is alone (bit 1), and the mode word if bit 0 is set. Outside an initialisation a write to the
  data port sets the mask.
\<close>

record i8259 =
  expect :: nat
  single :: bool
  need_icw4 :: bool
  base_vector :: u8
  cascade :: u8
  mode :: u8
  imr :: u8

definition chip_cmd :: "u8 \<Rightarrow> i8259 \<Rightarrow> i8259" where
  "chip_cmd v c =
     (if bit v 4 then c\<lparr>expect := 2, single := bit v 1, need_icw4 := bit v 0, imr := 0\<rparr> else c)"

definition chip_data :: "u8 \<Rightarrow> i8259 \<Rightarrow> i8259" where
  "chip_data v c =
     (if expect c = 2 then c\<lparr>base_vector := v AND 0xF8,
        expect := (if \<not> single c then 3 else if need_icw4 c then 4 else 0)\<rparr>
      else if expect c = 3 then c\<lparr>cascade := v, expect := (if need_icw4 c then 4 else 0)\<rparr>
      else if expect c = 4 then c\<lparr>mode := v, expect := 0\<rparr>
      else c\<lparr>imr := v\<rparr>)"

fun chip_io :: "u16 \<Rightarrow> u16 \<Rightarrow> io \<Rightarrow> i8259 \<Rightarrow> i8259" where
  "chip_io cmd data (Outb p v) c = (if p = cmd then chip_cmd v c else if p = data then chip_data v c else c)"
| "chip_io cmd data (Inb p v) c = c"

text \<open>The two chips after a history, from their state when the kernel starts.\<close>

type_synonym chips = "i8259 \<times> i8259"

definition master :: "chips \<Rightarrow> io list \<Rightarrow> i8259" where
  "master c t = fold (chip_io 0x20 0x21) t (fst c)"

definition slave :: "chips \<Rightarrow> io list \<Rightarrow> i8259" where
  "slave c t = fold (chip_io 0xA0 0xA1) t (snd c)"

definition pic_idle :: "chips \<Rightarrow> io list \<Rightarrow> bool" where
  "pic_idle c t \<longleftrightarrow> expect (master c t) = 0 \<and> expect (slave c t) = 0"

definition pic_answers :: "hardware \<Rightarrow> chips \<Rightarrow> bool" where
  "pic_answers hw c \<longleftrightarrow> (\<forall>t. pic_idle c t \<longrightarrow>
     hw t 0x21 = imr (master c t) \<and> hw t 0xA1 = imr (slave c t))"

text \<open>Whether interrupt line \<open>i\<close> is masked, and the vector the line is delivered on.\<close>

definition masked :: "chips \<Rightarrow> io list \<Rightarrow> nat \<Rightarrow> bool" where
  "masked c t i = (if i < 8 then bit (imr (master c t)) i else bit (imr (slave c t)) (i - 8))"

definition vector :: "chips \<Rightarrow> io list \<Rightarrow> nat \<Rightarrow> nat" where
  "vector c t i = (if i < 8 then unat (base_vector (master c t)) + i
                   else unat (base_vector (slave c t)) + (i - 8))"

lemma chips_console [simp]:
  assumes "set u \<subseteq> {Outb p v | p v. p = 0x3D4 \<or> p = 0x3D5}"
  shows "master c (t @ u) = master c t" "slave c (t @ u) = slave c t"
proof -
  have "\<forall>a. fold (chip_io 0x20 0x21) u a = a \<and> fold (chip_io 0xA0 0xA1) u a = a"
    using assms by (induction u) auto
  then show "master c (t @ u) = master c t" "slave c (t @ u) = slave c t"
    by (simp_all add: master_def slave_def)
qed

lemma only_console_trace:
  assumes "only_console s s'"
  obtains u where "io_trace s' = io_trace s @ u" "set u \<subseteq> {Outb p v | p v. p = 0x3D4 \<or> p = 0x3D5}"
  using assms unfolding only_console_def by blast

lemma only_console_chips:
  assumes "only_console s s'"
  shows "master c (io_trace s') = master c (io_trace s)" "slave c (io_trace s') = slave c (io_trace s)"
proof -
  obtain u where "io_trace s' = io_trace s @ u" "set u \<subseteq> {Outb p v | p v. p = 0x3D4 \<or> p = 0x3D5}"
    using assms by (rule only_console_trace)
  then show "master c (io_trace s') = master c (io_trace s)" "slave c (io_trace s') = slave c (io_trace s)"
    by (simp_all only: chips_console)
qed

lemma only_console_more: "only_console s s' \<Longrightarrow> vga_t.more s' = vga_t.more s"
  unfolding only_console_def by blast

lemma vga_ok_io [simp]: "vga_ok (s\<lparr>io_trace := t\<rparr>) = vga_ok s"
  by (simp add: vga_ok_def cursor_ok_def)

lemma log_info_literal:
  assumes "list_all (\<lambda>c. c \<notin> {CHR 0x00, CHR 0x1B, CHR ''%''}) cs" "vga_ok s"
  shows "\<exists>s'. log_info cs [] s = Some s' \<and> vga_ok s' \<and> vga_t.more s' = vga_t.more s \<and>
     master c (io_trace s') = master c (io_trace s) \<and> slave c (io_trace s') = slave c (io_trace s)"
proof -
  obtain s' where "log_info cs [] s = Some s'" "vga_ok s'" "only_console s s'" using log_info_plain [OF assms] by blast
  then show ?thesis using only_console_chips [of s s' c] only_console_more [of s s'] by simp
qed

lemma chips_snoc [simp]:
  "master c (t @ [e]) = chip_io 0x20 0x21 e (master c t)" "slave c (t @ [e]) = chip_io 0xA0 0xA1 e (slave c t)"
  by (simp_all add: master_def slave_def)

lemma pic_write_mask:
  assumes "pic_idle c t"
  shows "pic_idle c (t @ [Inb p w, Outb 0x21 v])" "pic_idle c (t @ [Inb p w, Outb 0xA1 v])"
    "master c (t @ [Inb p w, Outb 0x21 v]) = (master c t)\<lparr>imr := v\<rparr>" "slave c (t @ [Inb p w, Outb 0x21 v]) = slave c t"
    "master c (t @ [Inb p w, Outb 0xA1 v]) = master c t" "slave c (t @ [Inb p w, Outb 0xA1 v]) = (slave c t)\<lparr>imr := v\<rparr>"
  using assms by (simp_all add: pic_idle_def master_def slave_def chip_data_def)

text \<open>A machine whose chips read as the data sheet says, as the firmware leaves them.\<close>

definition chip_hw :: "chips \<Rightarrow> hardware" where
  "chip_hw c t p = (if p = 0x21 then imr (master c t) else if p = 0xA1 then imr (slave c t) else 0)"

definition firmware_chips :: chips where
  "firmware_chips =
     (\<lparr>expect = 0, single = False, need_icw4 = True, base_vector = 0x08, cascade = 4, mode = 1, imr = 0xB8\<rparr>,
      \<lparr>expect = 0, single = False, need_icw4 = True, base_vector = 0x70, cascade = 2, mode = 1, imr = 0x8F\<rparr>)"

lemma chip_hw_answers: "pic_answers (chip_hw c) c"
  by (simp add: pic_answers_def chip_hw_def)

lemma firmware_idle: "pic_idle firmware_chips []"
  by (simp add: pic_idle_def firmware_chips_def master_def slave_def)

lemma bit_irq: "bit (ucast ((2::u32) ^ n) :: u8) i \<longleftrightarrow> i = n \<and> n < 8"
  by (auto simp: bit_simps)

lemma bit_not_irq: "bit (ucast (NOT ((2::u32) ^ n)) :: u8) i \<longleftrightarrow> i \<noteq> n \<and> i < 8"
  by (auto simp: bit_simps)

lemma pic_irq_trace:
  "pic_mask_irq hw irq s = Some s' \<or> pic_unmask_irq hw irq s = Some s' \<Longrightarrow>
     \<exists>p v w. p \<in> {0x21, 0xA1} \<and> s' = s\<lparr>io_trace := io_trace s @ [Inb p v, Outb p w]\<rparr>"
  by (auto simp: pic_mask_irq_def pic_unmask_irq_def inb_def outb_def Let_def c_const split: if_splits)

lemma pic_lines:
  assumes "irq < 16" "pic_idle c (io_trace s)" "pic_answers hw c"
  shows "(\<exists>s'. pic_mask_irq hw irq s = Some s' \<and> pic_idle c (io_trace s') \<and>
      (\<forall>i<16. masked c (io_trace s') i \<longleftrightarrow> i = unat irq \<or> masked c (io_trace s) i)) \<and>
    (\<exists>s'. pic_unmask_irq hw irq s = Some s' \<and> pic_idle c (io_trace s') \<and>
      (\<forall>i<16. masked c (io_trace s') i \<longleftrightarrow> i \<noteq> unat irq \<and> masked c (io_trace s) i))"
proof (cases "irq < 8")
  case True
  then have n: "unat irq < 8" by (simp add: word_less_nat_alt)
  have r: "hw (io_trace s) 0x21 = imr (master c (io_trace s))" using assms(2,3) by (simp add: pic_answers_def)
  show ?thesis using True n
    by (simp add: pic_mask_irq_def pic_unmask_irq_def inb_def outb_def Let_def c_const r pic_write_mask [OF assms(2)]
        masked_def bit_or_iff bit_and_iff bit_irq bit_not_irq) (auto dest: bit_imp_le_length)
next
  case False
  have u: "unat irq < 16" using assms(1) by (simp add: word_less_nat_alt)
  have ge: "8 \<le> unat irq" using False by (simp add: word_less_nat_alt)
  then have n: "unat (irq - 8) = unat irq - 8" by (simp add: unat_sub word_le_nat_alt)
  have r: "hw (io_trace s) 0xA1 = imr (slave c (io_trace s))" using assms(2,3) by (simp add: pic_answers_def)
  show ?thesis using False n u ge
    by (simp add: pic_mask_irq_def pic_unmask_irq_def inb_def outb_def Let_def c_const r pic_write_mask [OF assms(2)]
        masked_def bit_or_iff bit_and_iff bit_irq bit_not_irq) (auto dest: bit_imp_le_length)
qed

lemma pic_irq_vector:
  assumes "pic_mask_irq hw irq s = Some s' \<or> pic_unmask_irq hw irq s = Some s'" "pic_idle c (io_trace s)"
  shows "vector c (io_trace s') = vector c (io_trace s)"
proof -
  obtain p v w where p: "p \<in> {0x21, 0xA1}" "s' = s\<lparr>io_trace := io_trace s @ [Inb p v, Outb p w]\<rparr>"
    using pic_irq_trace [OF assms(1)] by blast
  have "base_vector (master c (io_trace s')) = base_vector (master c (io_trace s))"
    "base_vector (slave c (io_trace s')) = base_vector (slave c (io_trace s))"
    using p pic_write_mask(3-6) [OF assms(2)] by auto
  then show ?thesis by (simp add: vector_def fun_eq_iff)
qed

lemma pic_init_ok:
  assumes "vga_ok s" "pic_idle c (io_trace s)" "pic_answers hw c"
  shows "\<exists>s'. pic_init hw s = Some s' \<and> vga_ok s' \<and> vga_t.more s' = vga_t.more s \<and> pic_idle c (io_trace s') \<and>
    (\<forall>i<16. vector c (io_trace s') i = 32 + i) \<and> (\<forall>i. masked c (io_trace s') i = masked c (io_trace s) i) \<and>
    cascade (master c (io_trace s')) = push_bit 2 1 \<and> cascade (slave c (io_trace s')) = 2 \<and>
    mode (master c (io_trace s')) = ICW4_8086 \<and> mode (slave c (io_trace s')) = ICW4_8086"
proof -
  obtain s1 where s1: "log_info ''Initializing 8259 PICs...'' [] s = Some s1" "vga_ok s1"
    "vga_t.more s1 = vga_t.more s" "master c (io_trace s1) = master c (io_trace s)" "slave c (io_trace s1) = slave c (io_trace s)"
    using log_info_literal [OF _ assms(1), of "''Initializing 8259 PICs...''" c] by auto
  let ?m1 = "imr (master c (io_trace s))" and ?m2 = "imr (slave c (io_trace s))"
  let ?t1 = "io_trace s1 @ [Inb 0x21 ?m1]"
  have m1: "hw (io_trace s1) 0x21 = ?m1" and m2: "hw ?t1 0xA1 = ?m2"
    using assms(2,3) s1(4,5) by (auto simp: pic_answers_def pic_idle_def master_def slave_def)
  let ?t2 = "?t1 @ Inb 0xA1 ?m2 # [Outb 0x20 0x11, Outb 0x80 0, Outb 0xA0 0x11, Outb 0x80 0,
    Outb 0x21 0x20, Outb 0x80 0, Outb 0xA1 0x28, Outb 0x80 0, Outb 0x21 4, Outb 0x80 0, Outb 0xA1 2, Outb 0x80 0,
    Outb 0x21 1, Outb 0x80 0, Outb 0xA1 1, Outb 0x80 0, Outb 0x21 ?m1, Outb 0xA1 ?m2]"
  let ?s2 = "s1\<lparr>io_trace := ?t2\<rparr>"
  have run: "pic_init hw s = log_info ''8259 PICs initialized and remapped.'' [] ?s2"
    by (simp add: pic_init_def s1(1) inb_def outb_def io_wait_def c_const Let_def m1 m2)
  obtain s3 where s3: "pic_init hw s = Some s3" "vga_ok s3" "vga_t.more s3 = vga_t.more s1"
    "master c (io_trace s3) = master c ?t2" "slave c (io_trace s3) = slave c ?t2"
    unfolding run using log_info_literal [of "''8259 PICs initialized and remapped.''" ?s2 c] s1(2) by auto
  have chips: "master c ?t2 = (master c (io_trace s1))\<lparr>expect := 0, single := False, need_icw4 := True, imr := ?m1,
      base_vector := 0x20, cascade := 4, mode := 1\<rparr>"
    "slave c ?t2 = (slave c (io_trace s1))\<lparr>expect := 0, single := False, need_icw4 := True, imr := ?m2,
      base_vector := 0x28, cascade := 2, mode := 1\<rparr>"
    by (simp_all add: master_def slave_def chip_cmd_def chip_data_def bit_numeral_rec)
  show ?thesis using s3 s1(3-5) chips
    by (simp add: pic_idle_def vector_def masked_def c_const)
qed

section \<open>Main results\<close>

text \<open>
  C29. Remapping. If the console is in order and both chips are outside an initialisation and answer
  reads of their mask, \<open>pic_init\<close> returns with both chips initialised: lines 0 to 7 are delivered on
  vectors 32 to 39, lines 8 to 15 on 40 to 47, clear of the processor's exceptions; the master
  expects the slave on line 2 and the slave has identity 2; both are in 8086 mode; and every line is
  masked exactly as before.
\<close>

theorem pic_init_remaps:
  assumes "vga_ok s" "pic_idle c (io_trace s)" "pic_answers hw c"
  shows "\<exists>s'. pic_init hw s = Some s' \<and> vga_ok s' \<and> vga_t.more s' = vga_t.more s \<and> pic_idle c (io_trace s') \<and>
    (\<forall>i<16. vector c (io_trace s') i = 32 + i) \<and> (\<forall>i. masked c (io_trace s') i = masked c (io_trace s) i) \<and>
    cascade (master c (io_trace s')) = push_bit 2 1 \<and> cascade (slave c (io_trace s')) = 2 \<and>
    mode (master c (io_trace s')) = ICW4_8086 \<and> mode (slave c (io_trace s')) = ICW4_8086"
  using pic_init_ok [OF assms] .

theorem pic_init_remaps_witness:
  "vga_ok quiet_clock \<and> pic_idle firmware_chips (io_trace quiet_clock) \<and>
   (\<exists>s'. pic_init (chip_hw firmware_chips) quiet_clock = Some s' \<and>
      vector firmware_chips (io_trace s') 1 = 33 \<and> vector firmware_chips [] 1 = 9)"
proof -
  have ok: "vga_ok quiet_clock" "io_trace quiet_clock = []" by (simp_all add: quiet_clock_def vga_ok_def cursor_ok_def)
  have "vector firmware_chips [] 1 = 9" by (simp add: vector_def firmware_chips_def master_def)
  then show ?thesis
    using pic_init_remaps [OF ok(1) _ chip_hw_answers, of firmware_chips] ok firmware_idle by fastforce
qed

text \<open>
  Masking one line. For each of the sixteen lines, \<open>pic_mask_irq\<close> masks and \<open>pic_unmask_irq\<close> unmasks
  exactly that line, whatever the others are, and both chips stay outside an initialisation.
\<close>

theorem pic_mask_unmask:
  assumes "irq < 16" "pic_idle c (io_trace s)" "pic_answers hw c"
  shows "(\<exists>s'. pic_mask_irq hw irq s = Some s' \<and> pic_idle c (io_trace s') \<and>
      (\<forall>i<16. masked c (io_trace s') i \<longleftrightarrow> i = unat irq \<or> masked c (io_trace s) i)) \<and>
    (\<exists>s'. pic_unmask_irq hw irq s = Some s' \<and> pic_idle c (io_trace s') \<and>
      (\<forall>i<16. masked c (io_trace s') i \<longleftrightarrow> i \<noteq> unat irq \<and> masked c (io_trace s) i))"
  using pic_lines [OF assms] by blast

theorem pic_mask_unmask_witness:
  "masked firmware_chips [] 1 = False \<and>
   (\<exists>s'. pic_mask_irq (chip_hw firmware_chips) 1 \<lparr>io_trace = []\<rparr> = Some s' \<and> masked firmware_chips (io_trace s') 1)"
proof -
  have "masked firmware_chips [] 1 = False" by (simp add: masked_def firmware_chips_def master_def bit_numeral_rec)
  moreover have "unat (1 :: u8) = 1" "(1::u8) < 16" by simp_all
  ultimately show ?thesis
    using pic_mask_unmask [of 1 firmware_chips "\<lparr>io_trace = []\<rparr>", OF _ _ chip_hw_answers] firmware_idle by fastforce
qed

end
