(* ===== verification/Pit.thy ===== *)
theory Pit
  imports Pic
begin

text \<open>
  The interval timer, \<^verbatim>\<open>pit/pit.c\<close>, and the reload value that the port writes give channel 0 of the
  chip, by its data sheet: after a command byte that selects low byte then high byte, the next two
  data bytes are the reload value. The command byte also says how the counter counts.
\<close>

section \<open>The driver\<close>

definition PIT_BASE_FREQ :: u32 where [c_const]: "PIT_BASE_FREQ = 1193182"
definition PIT_MIN_FREQ :: u32 where [c_const]: "PIT_MIN_FREQ = 19"
definition PIT_MAX_FREQ :: u32 where [c_const]: "PIT_MAX_FREQ = 1193182"
definition PIT_DATA_CH0 :: u16 where [c_const]: "PIT_DATA_CH0 = 0x40"
definition PIT_CMD :: u16 where [c_const]: "PIT_CMD = 0x43"
definition PIT_CMD_BINARY_MODE3 :: u8 where [c_const]: "PIT_CMD_BINARY_MODE3 = 0x36"

record pit_t = time_t +
  current_pit_hz :: u32

type_synonym 'a pit = "'a pit_t_scheme"

definition pit_init :: "hardware \<Rightarrow> u32 \<Rightarrow> 'a pit \<Rightarrow> 'a pit option" where
  "pit_init hw hz s =
     (if hz = 0 then log_error ''PIT: Attempted to set frequency to 0 Hz. Aborting initialization.'' [] s
      else do {
        s \<leftarrow> (if hz < PIT_MIN_FREQ
              then log_warn ''PIT: Requested frequency %d Hz is very low (min recommended %d Hz).''
                     [Word hz, Word PIT_MIN_FREQ] s
              else Some s);
        (hz, s) \<leftarrow> (if hz > PIT_MAX_FREQ
              then do { s \<leftarrow> log_warn ''PIT: Requested frequency %d Hz exceeds maximum theoretical frequency %d Hz. Capping.''
                                [Word hz, Word PIT_MAX_FREQ] s;
                        Some (PIT_MAX_FREQ, s) }
              else Some (hz, s));
        let divisor = PIT_BASE_FREQ div hz;
        let divisor = (if divisor = 0 then 1 else divisor);
        let s = s\<lparr>current_pit_hz := PIT_BASE_FREQ div divisor\<rparr>;
        s \<leftarrow> log_info ''PIT: Initializing with desired frequency %d Hz (actual %d Hz, divisor %d).''
               [Word hz, Word (current_pit_hz s), Word divisor] s;
        let s = outb PIT_CMD PIT_CMD_BINARY_MODE3 s;
        let s = outb PIT_DATA_CH0 (ucast (divisor AND 0xFF)) s;
        let s = outb PIT_DATA_CH0 (ucast (drop_bit 8 divisor AND 0xFF)) s;
        s \<leftarrow> pic_unmask_irq hw 0 s;
        log_info ''PIT: Timer initialized and IRQ0 unmasked.'' [] s })"

definition pit_get_frequency :: "'a pit \<Rightarrow> u32" where
  "pit_get_frequency s = current_pit_hz s"

section \<open>The chip\<close>

text \<open>
  The state of channel 0: not programmed, waiting for one of the two bytes, or loaded; with the
  command byte it was programmed with. Bits 7 and 6 of a command select the channel, bits 5 and 4
  the access: 00 latches the counter for reading, 11 announces two bytes. The one-byte accesses are
  not followed further.
\<close>

datatype counter = Idle | Want_low u8 | Want_high u8 u8 | Loaded u8 nat

fun counter_io :: "io \<Rightarrow> counter \<Rightarrow> counter" where
  "counter_io (Outb p v) k =
     (if p = 0x43 then
        (if v AND 0xC0 \<noteq> 0 then k else if v AND 0x30 = 0x30 then Want_low v else if v AND 0x30 = 0 then k else Idle)
      else if p = 0x40 then
        (case k of Want_low c \<Rightarrow> Want_high c v | Want_high c l \<Rightarrow> Loaded c (unat l + 256 * unat v)
         | Loaded c n \<Rightarrow> Want_high c v | Idle \<Rightarrow> Idle)
      else k)"
| "counter_io (Inb p v) k = k"

definition pit_counter :: "io list \<Rightarrow> counter" where
  "pit_counter t = fold counter_io t Idle"

text \<open>
  The count that a reload value stands for: with bit 0 of the command set its four hexadecimal
  digits are read as decimal ones; 0 is the largest count. Modes 2 and 3, which bits 3 to 1 select
  with the first of them ignored, divide the clock by the count and need a count of at least 2.
\<close>

definition bcd_value :: "nat \<Rightarrow> nat" where
  "bcd_value n = n mod 16 + 10 * (n div 16 mod 16) + 100 * (n div 256 mod 16) + 1000 * (n div 4096 mod 16)"

definition reload_count :: "u8 \<Rightarrow> nat \<Rightarrow> nat" where
  "reload_count c n =
     (if c AND 0x01 \<noteq> 0 then (if n = 0 then 10000 else bcd_value n) else if n = 0 then 65536 else n)"

definition divides_clock :: "u8 \<Rightarrow> bool" where
  "divides_clock c \<longleftrightarrow> c AND 0x06 = 0x04 \<or> c AND 0x06 = 0x06"

text \<open>The number of timer clocks between two interrupts, if the chip raises them periodically.\<close>

definition pit_period :: "io list \<Rightarrow> nat option" where
  "pit_period t = (case pit_counter t of
       Loaded c n \<Rightarrow> if divides_clock c \<and> 2 \<le> reload_count c n then Some (reload_count c n) else None
     | _ \<Rightarrow> None)"

lemma pit_period_binary:
  "pit_counter t = Loaded 0x36 n \<Longrightarrow> n \<noteq> 0 \<Longrightarrow> pit_period t = (if n = 1 then None else Some n)"
  by (auto simp: pit_period_def divides_clock_def reload_count_def)

lemma pit_counter_console:
  "set u \<subseteq> {Outb p v | p v. p = 0x3D4 \<or> p = 0x3D5} \<Longrightarrow> pit_counter (t @ u) = pit_counter t"
proof -
  assume "set u \<subseteq> {Outb p v | p v. p = 0x3D4 \<or> p = 0x3D5}"
  then have "\<forall>k. fold counter_io u k = k" by (induction u) auto
  then show ?thesis by (simp add: pit_counter_def)
qed

lemma only_console_counter: "only_console s s' \<Longrightarrow> pit_counter (io_trace s') = pit_counter (io_trace s)"
  by (elim only_console_trace) (simp only: pit_counter_console)

section \<open>Running the driver\<close>

text \<open>What a log call keeps, for the proofs below.\<close>

definition logged :: "chips \<Rightarrow> 'a pit \<Rightarrow> 'a pit \<Rightarrow> bool" where
  "logged c s s' \<longleftrightarrow> vga_ok s' \<and> vga_t.more s' = vga_t.more s \<and> pit_counter (io_trace s') = pit_counter (io_trace s) \<and>
     master c (io_trace s') = master c (io_trace s) \<and> slave c (io_trace s') = slave c (io_trace s)"

lemma vector_cong:
  "master c t = master c u \<Longrightarrow> slave c t = slave c u \<Longrightarrow> vector c t = vector c u"
  by (simp add: vector_def fun_eq_iff)

lemma loggedI: "vga_ok s' \<Longrightarrow> only_console s s' \<Longrightarrow> logged c s s'"
  by (simp add: logged_def only_console_more only_console_chips only_console_counter)

lemma logged_hz:
  "logged c s s' \<Longrightarrow> current_pit_hz s' = current_pit_hz s \<and> ticks s' = ticks s \<and> pit_t.more s' = pit_t.more s"
  by (cases s; cases s') (simp add: logged_def vga_t.defs)

lemma log_logged:
  assumes "vga_ok s" "word_format fmt k" "length ws = k"
  shows "\<exists>s'. log_info fmt (map Word ws) s = Some s' \<and> logged c s s'"
    "\<exists>s'. log_warn fmt (map Word ws) s = Some s' \<and> logged c s s'"
    "\<exists>s'. log_error fmt (map Word ws) s = Some s' \<and> logged c s s'"
  using log_words [OF assms(1), of fmt ws] assms(2,3) loggedI by blast+

lemma pit_formats:
  "word_format ''PIT: Requested frequency %d Hz is very low (min recommended %d Hz).'' 2"
  "word_format ''PIT: Requested frequency %d Hz exceeds maximum theoretical frequency %d Hz. Capping.'' 2"
  "word_format ''PIT: Initializing with desired frequency %d Hz (actual %d Hz, divisor %d).'' 3"
  "word_format ''PIT: Timer initialized and IRQ0 unmasked.'' 0"
  "word_format ''PIT: Attempted to set frequency to 0 Hz. Aborting initialization.'' 0"
  by (simp_all add: word_format_def)

text \<open>The part of \<open>pit_init\<close> after the checks of the frequency.\<close>

definition pit_program :: "hardware \<Rightarrow> u32 \<Rightarrow> 'a pit \<Rightarrow> 'a pit option" where
  "pit_program hw hz s =
     do { let divisor = PIT_BASE_FREQ div hz;
        let divisor = (if divisor = 0 then 1 else divisor);
        let s = s\<lparr>current_pit_hz := PIT_BASE_FREQ div divisor\<rparr>;
        s \<leftarrow> log_info ''PIT: Initializing with desired frequency %d Hz (actual %d Hz, divisor %d).''
               [Word hz, Word (current_pit_hz s), Word divisor] s;
        let s = outb PIT_CMD PIT_CMD_BINARY_MODE3 s;
        let s = outb PIT_DATA_CH0 (ucast (divisor AND 0xFF)) s;
        let s = outb PIT_DATA_CH0 (ucast (drop_bit 8 divisor AND 0xFF)) s;
        s \<leftarrow> pic_unmask_irq hw 0 s;
        log_info ''PIT: Timer initialized and IRQ0 unmasked.'' [] s }"

lemma low_byte: "unat (ucast ((d::u32) AND 0xFF) :: u8) = unat d mod 256"
proof -
  have "d AND 0xFF = take_bit 8 d" by (simp add: take_bit_eq_mask mask_eq_exp_minus_1)
  then show ?thesis by (simp only: unsigned_ucast_eq unsigned_take_bit_eq) (simp add: take_bit_eq_mod)
qed

lemma two_bytes:
  "unat (ucast ((d::u32) AND 0xFF) :: u8) + 256 * unat (ucast (drop_bit 8 d AND 0xFF) :: u8) = unat d mod 65536"
proof -
  have "unat (drop_bit 8 d) = unat d div 256" by (simp only: unat_drop_bit_eq) (simp add: drop_bit_eq_div)
  then show ?thesis using mod_mult2_eq [of "unat d" 256 256] by (simp add: low_byte)
qed

lemma pit_counter_program:
  "pit_counter (t @ [Outb 0x43 0x36, Outb 0x40 l, Outb 0x40 h]) = Loaded 0x36 (unat l + 256 * unat h)"
  by (simp add: pit_counter_def)

lemma pit_program_ok:
  assumes "vga_ok s" "pic_idle c (io_trace s)" "pic_answers hw c" "0 < hz" "hz \<le> PIT_MAX_FREQ"
    and d: "d = PIT_BASE_FREQ div hz"
  shows "\<exists>s'. pit_program hw hz s = Some s' \<and> vga_ok s' \<and> pic_idle c (io_trace s') \<and> ticks s' = ticks s \<and>
    pit_t.more s' = pit_t.more s \<and> vector c (io_trace s') = vector c (io_trace s) \<and>
    pit_counter (io_trace s') = Loaded 0x36 (unat d mod 65536) \<and> current_pit_hz s' = PIT_BASE_FREQ div d \<and>
    (\<forall>i<16. masked c (io_trace s') i \<longleftrightarrow> i \<noteq> 0 \<and> masked c (io_trace s) i)"
proof -
  have "unat d = 1193182 div unat hz" using d by (simp add: c_const unat_div)
  moreover have "0 < unat hz" "unat hz \<le> 1193182" using assms(4,5) by (simp_all add: c_const word_less_nat_alt word_le_nat_alt)
  ultimately have "0 < unat d" by (simp add: div_greater_zero_iff)
  then have d0: "d \<noteq> 0" by auto
  let ?s1 = "s\<lparr>current_pit_hz := PIT_BASE_FREQ div d\<rparr>"
  obtain s2 where s2: "log_info ''PIT: Initializing with desired frequency %d Hz (actual %d Hz, divisor %d).''
      [Word hz, Word (PIT_BASE_FREQ div d), Word d] ?s1 = Some s2" "logged c ?s1 s2"
    using log_logged(1) [OF _ pit_formats(3), of ?s1 "[hz, PIT_BASE_FREQ div d, d]" c] assms(1)
    by (auto simp: vga_ok_def cursor_ok_def)
  let ?w = "[Outb 0x43 0x36, Outb 0x40 (ucast (d AND 0xFF)), Outb 0x40 (ucast (drop_bit 8 d AND 0xFF))]"
  let ?s3 = "s2\<lparr>io_trace := io_trace s2 @ ?w\<rparr>"
  have ch: "master c (io_trace ?s3) = master c (io_trace s)" "slave c (io_trace ?s3) = slave c (io_trace s)"
    using s2(2) by (simp_all add: logged_def master_def slave_def)
  have idle: "pic_idle c (io_trace ?s3)" using ch assms(2) by (simp only: pic_idle_def)
  obtain s4 where s4: "pic_unmask_irq hw 0 ?s3 = Some s4" "pic_idle c (io_trace s4)"
    "\<forall>i<16. masked c (io_trace s4) i \<longleftrightarrow> i \<noteq> 0 \<and> masked c (io_trace ?s3) i"
    using pic_lines [of 0, OF _ idle assms(3)] by auto
  obtain p v w where pv: "p \<in> {0x21, 0xA1}" "s4 = ?s3\<lparr>io_trace := io_trace ?s3 @ [Inb p v, Outb p w]\<rparr>"
    using pic_irq_trace [OF disjI2 [OF s4(1)]] by blast
  have ok4: "vga_ok s4" "current_pit_hz s4 = PIT_BASE_FREQ div d" "ticks s4 = ticks s" "pit_t.more s4 = pit_t.more s"
    using pv(2) s2(2) logged_hz [OF s2(2)] by (simp_all add: logged_def vga_ok_def cursor_ok_def)
  have cnt: "pit_counter (io_trace s4) = Loaded 0x36 (unat d mod 65536)"
    using pv pit_counter_program [of "io_trace s2"] two_bytes [of d] by (auto simp: pit_counter_def)
  obtain s5 where s5: "log_info ''PIT: Timer initialized and IRQ0 unmasked.'' [] s4 = Some s5" "logged c s4 s5"
    using log_logged(1) [OF ok4(1) pit_formats(4), of "[]" c] by auto
  have "1193182 div hz = d" using d by (simp add: c_const)
  then have "pit_program hw hz s = Some s5"
    using s2(1) s4(1) s5(1) d0 by (simp add: pit_program_def outb_def c_const Let_def)
  moreover have "masked c (io_trace ?s3) i = masked c (io_trace s) i" for i using ch by (simp only: masked_def)
  moreover have "masked c (io_trace s5) i = masked c (io_trace s4) i" "pic_idle c (io_trace s5)" for i
    using s5(2) s4(2) by (simp_all add: logged_def masked_def pic_idle_def)
  moreover have "vector c (io_trace s5) = vector c (io_trace s)"
    using pic_irq_vector [OF disjI2 [OF s4(1)] idle] vector_cong [OF ch]
      vector_cong [of c "io_trace s5" "io_trace s4"] s5(2) by (simp add: logged_def)
  moreover have "vga_ok s5" "pit_counter (io_trace s5) = Loaded 0x36 (unat d mod 65536)" using s5(2) cnt by (simp_all add: logged_def)
  ultimately show ?thesis using s4(3) ok4(2-4) logged_hz [OF s5(2)] by simp
qed

lemma pit_init_program:
  assumes "hz \<noteq> 0" "vga_ok s"
  shows "\<exists>s1. pit_init hw hz s = pit_program hw (if hz > PIT_MAX_FREQ then PIT_MAX_FREQ else hz) s1 \<and> logged c s s1"
proof -
  have l: "logged c s s" using assms(2) by (simp add: logged_def)
  consider "hz < 19" | "19 \<le> hz" "hz \<le> 1193182" | "1193182 < hz" by force
  then show ?thesis
  proof cases
    case 1
    then have "\<not> hz > 1193182" by (simp add: word_less_nat_alt)
    moreover obtain s1 where "log_warn ''PIT: Requested frequency %d Hz is very low (min recommended %d Hz).''
        [Word hz, Word 19] s = Some s1" "logged c s s1"
      using log_logged(2) [OF assms(2) pit_formats(1), of "[hz, 19]" c] by auto
    ultimately show ?thesis using 1 assms(1) by (auto simp: pit_init_def pit_program_def c_const)
  next
    case 2
    then show ?thesis using assms(1) l by (auto simp: pit_init_def pit_program_def c_const not_less)
  next
    case 3
    then have "\<not> hz < 19" by (simp add: word_less_nat_alt)
    moreover obtain s1 where "log_warn ''PIT: Requested frequency %d Hz exceeds maximum theoretical frequency %d Hz. Capping.''
        [Word hz, Word 1193182] s = Some s1" "logged c s s1"
      using log_logged(2) [OF assms(2) pit_formats(2), of "[hz, 1193182]" c] by auto
    ultimately show ?thesis using 3 assms(1) by (auto simp: pit_init_def pit_program_def c_const)
  qed
qed

lemma pit_init_ok:
  assumes "hz \<noteq> 0" "vga_ok s" "pic_idle c (io_trace s)" "pic_answers hw c"
    and d: "d = PIT_BASE_FREQ div (if hz > PIT_MAX_FREQ then PIT_MAX_FREQ else hz)"
  shows "\<exists>s'. pit_init hw hz s = Some s' \<and> vga_ok s' \<and> pic_idle c (io_trace s') \<and> ticks s' = ticks s \<and>
    pit_t.more s' = pit_t.more s \<and> vector c (io_trace s') = vector c (io_trace s) \<and>
    pit_counter (io_trace s') = Loaded 0x36 (unat d mod 65536) \<and> current_pit_hz s' = PIT_BASE_FREQ div d \<and>
    (\<forall>i<16. masked c (io_trace s') i \<longleftrightarrow> i \<noteq> 0 \<and> masked c (io_trace s) i)"
proof -
  let ?hz = "if hz > PIT_MAX_FREQ then PIT_MAX_FREQ else hz"
  obtain s1 where s1: "pit_init hw hz s = pit_program hw ?hz s1" "logged c s s1" using pit_init_program [OF assms(1,2)] by blast
  have ok: "vga_ok s1" "pic_idle c (io_trace s1)" "ticks s1 = ticks s" "masked c (io_trace s1) = masked c (io_trace s)"
    "pit_t.more s1 = pit_t.more s" "vector c (io_trace s1) = vector c (io_trace s)"
    using s1(2) assms(3) logged_hz [OF s1(2)] by (simp_all add: logged_def pic_idle_def masked_def vector_def fun_eq_iff)
  have "0 < ?hz" "?hz \<le> PIT_MAX_FREQ" using assms(1) by (auto simp: c_const word_greater_zero_iff not_less)
  from pit_program_ok [OF ok(1,2) assms(4) this d] show ?thesis unfolding s1(1) ok(3-6) .
qed

lemma low_divisors:
  "list_all (\<lambda>h. 2 \<le> 1193182 div h mod 65536 \<and> 19 \<le> 1193182 div (1193182 div h mod 65536) \<and>
     1193182 div (1193182 div h) \<le> (18::nat)) [1..<19]"
  by (simp add: upt_rec numeral_2_eq_2 [symmetric])

lemma divisor_one: "19 \<le> m \<Longrightarrow> 1193182 div min m 1193182 = (1::nat) \<longleftrightarrow> \<not> m \<le> 596591"
proof -
  assume m: "19 \<le> m"
  have "2 * 596591 = (1193182 :: nat)" by simp
  moreover have "1193182 div k = (1::nat) \<longleftrightarrow> \<not> k \<le> 596591" if "0 < k" "k \<le> 1193182" for k :: nat
    using that div_le_mono2 [of k 596591 1193182] div_nat_eqI [of k 1 1193182] by auto
  ultimately show ?thesis using m by (cases "m \<le> 1193182") (auto simp: min_def)
qed

lemma unat_clamp:
  "unat (if (hz::u32) > PIT_MAX_FREQ then PIT_MAX_FREQ else hz) = min (unat hz) 1193182"
  by (simp add: c_const word_less_nat_alt)

section \<open>Main results\<close>

text \<open>
  C30. Programming the timer. For every frequency from 19 Hz up, \<open>pit_init\<close> returns having sent channel
  0 the divisor 1193182 / hz, at least 1 and below 65536, with the request capped at the input clock;
  of all interrupt lines exactly line 0 has changed: it is open. Up to 596591 Hz the divisor is at
  least 2; the chip then interrupts every that many clocks, in binary and periodically, and
  \<open>pit_get_frequency\<close> returns the rate it really has. Above, the divisor is 1, which is less than
  the chip accepts in mode 3: no rate is defined, although \<open>PIT_MAX_FREQ\<close> allows it and
  \<open>pit_get_frequency\<close> reports 1193182 Hz.
\<close>

theorem pit_init_correct:
  fixes s :: "'a pit"
  assumes "19 \<le> unat hz" "vga_ok s" "pic_idle c (io_trace s)" "pic_answers hw c"
  shows "\<exists>s' n. pit_init hw hz s = Some s' \<and> vga_ok s' \<and> n = 1193182 div min (unat hz) 1193182 \<and>
    1 \<le> n \<and> n < 65536 \<and> pit_counter (io_trace s') = Loaded 0x36 n \<and>
    pit_period (io_trace s') = (if unat hz \<le> 596591 then Some n else None) \<and>
    unat (pit_get_frequency s') = 1193182 div n \<and>
    (\<forall>i<16. masked c (io_trace s') i \<longleftrightarrow> i \<noteq> 0 \<and> masked c (io_trace s) i)"
proof -
  let ?m = "min (unat hz) 1193182"
  define d where "d = PIT_BASE_FREQ div (if hz > PIT_MAX_FREQ then PIT_MAX_FREQ else hz)"
  have n: "unat d = 1193182 div ?m" by (simp only: d_def unat_div unat_clamp) (simp add: c_const)
  have "1 \<le> 1193182 div ?m" using assms(1) by (simp add: Suc_le_eq div_greater_zero_iff)
  moreover have "1193182 div ?m \<le> 1193182 div 19" using assms(1) by (intro div_le_mono2) auto
  ultimately have b: "1 \<le> unat d" "unat d < 65536" using n by simp_all
  have one: "unat d = 1 \<longleftrightarrow> \<not> unat hz \<le> 596591" unfolding n using assms(1) by (rule divisor_one)
  have "hz \<noteq> 0" using assms(1) by auto
  from pit_init_ok [OF this assms(2-4) d_def] obtain s' where s': "pit_init hw hz s = Some s'" "vga_ok s'"
    "pit_counter (io_trace s') = Loaded 0x36 (unat d mod 65536)" "current_pit_hz s' = PIT_BASE_FREQ div d"
    "\<forall>i<16. masked c (io_trace s') i \<longleftrightarrow> i \<noteq> 0 \<and> masked c (io_trace s) i" by blast
  have "pit_period (io_trace s') = (if unat hz \<le> 596591 then Some (unat d) else None)"
    using pit_period_binary [of "io_trace s'" "unat d"] s'(3) b one by auto
  moreover have "unat (pit_get_frequency s') = 1193182 div unat d"
    using s'(4) by (simp add: pit_get_frequency_def c_const unat_div)
  ultimately show ?thesis using s' b n by (intro exI [of _ s'] exI [of _ "unat d"]) simp
qed

definition quiet_pit :: "unit pit" where
  "quiet_pit = \<lparr>io_trace = [], VGA_MEMORY = \<lambda>_. 0x0F20, cursor_row = 0, cursor_col = 0,
     current_color_byte = 0x0F, vga_lock = \<lparr>locked = 0\<rparr>, ticks = 0, current_pit_hz = 0\<rparr>"

lemma quiet_pit_ok: "vga_ok quiet_pit" "pic_idle firmware_chips (io_trace quiet_pit)"
  using firmware_idle by (simp_all add: quiet_pit_def vga_ok_def cursor_ok_def)

theorem pit_init_correct_witness:
  "(\<exists>s'. pit_init (chip_hw firmware_chips) 100 quiet_pit = Some s' \<and> pit_period (io_trace s') = Some 11931 \<and>
      pit_get_frequency s' = 100) \<and>
   (\<exists>s'. pit_init (chip_hw firmware_chips) 700000 quiet_pit = Some s' \<and> pit_period (io_trace s') = None \<and>
      pit_get_frequency s' = 1193182)"
  using pit_init_correct [of 100, OF _ quiet_pit_ok chip_hw_answers] pit_init_correct [of 700000, OF _ quiet_pit_ok chip_hw_answers]
  by (intro conjI; fastforce simp: word_unat_eq_iff)

text \<open>
  Frequencies below 19 Hz. The check only warns: the divisor does not fit the two bytes that are
  sent, the chip runs at 19 Hz or more, and \<open>pit_get_frequency\<close> reports the rate that was asked for.
\<close>

theorem pit_init_low_frequency:
  fixes s :: "'a pit"
  assumes "0 < unat hz" "unat hz < 19" "vga_ok s" "pic_idle c (io_trace s)" "pic_answers hw c"
  shows "\<exists>s' n. pit_init hw hz s = Some s' \<and> pit_period (io_trace s') = Some n \<and>
    unat (pit_get_frequency s') \<le> 18 \<and> 19 \<le> 1193182 div n"
proof -
  define d where "d = PIT_BASE_FREQ div (if hz > PIT_MAX_FREQ then PIT_MAX_FREQ else hz)"
  have "unat (if hz > PIT_MAX_FREQ then PIT_MAX_FREQ else hz) = unat hz" using assms(2) unat_clamp [of hz] by simp
  then have n: "unat d = 1193182 div unat hz" by (simp only: d_def unat_div) (simp add: c_const)
  have "unat hz \<in> set [1..<19]" using assms(1,2) by (simp only: set_upt atLeastLessThan_iff) simp
  then have "2 \<le> unat d mod 65536 \<and> 19 \<le> 1193182 div (unat d mod 65536) \<and> 1193182 div unat d \<le> 18"
    unfolding n using low_divisors by (auto simp only: list_all_iff)
  moreover have "hz \<noteq> 0" using assms(1) by auto
  moreover have "unat (PIT_BASE_FREQ div d) = 1193182 div unat d" by (simp add: c_const unat_div)
  ultimately show ?thesis using pit_init_ok [OF _ assms(3-5) d_def] pit_period_binary [of _ "unat d mod 65536"]
    by (fastforce simp: pit_get_frequency_def)
qed

theorem pit_init_low_frequency_witness:
  "\<exists>s' n. pit_init (chip_hw firmware_chips) 18 quiet_pit = Some s' \<and> pit_period (io_trace s') = Some n \<and>
    unat (pit_get_frequency s') \<le> 18 \<and> 19 \<le> 1193182 div n"
  using pit_init_low_frequency [of 18, OF _ _ quiet_pit_ok chip_hw_answers] by simp

end
