(* ===== verification/Idt.thy ===== *)
theory Idt
  imports Pit
begin

text \<open>
  The interrupt table, \<^verbatim>\<open>gdt_and_idt/idt.c\<close> with \<^verbatim>\<open>idt.h\<close> and \<^verbatim>\<open>idt_flush.asm\<close>. The addresses of the
  assembly stubs and of the table, which the linker assigns, are parameters. A C handler is named
  by the constructor of \<open>isr_handler\<close> that stands for the function.
\<close>

section \<open>Gates\<close>

record idt_entry_t =
  offset_low :: u16
  selector :: u16
  zero :: u8
  type_attr :: u8
  offset_high :: u16

definition IDT_FLAG_PRESENT :: u8 where [c_const]: "IDT_FLAG_PRESENT = push_bit 7 1"
definition IDT_FLAG_RING0 :: u8 where [c_const]: "IDT_FLAG_RING0 = push_bit 5 0"
definition IDT_GATE_INTERRUPT_32 :: u8 where [c_const]: "IDT_GATE_INTERRUPT_32 = 0x0E"
definition IDT_GATE_TRAP_32 :: u8 where [c_const]: "IDT_GATE_TRAP_32 = 0x0F"

definition IDT_KERNEL_INTERRUPT :: u8 where
  [c_const]: "IDT_KERNEL_INTERRUPT = IDT_FLAG_PRESENT OR IDT_FLAG_RING0 OR IDT_GATE_INTERRUPT_32"

definition IDT_KERNEL_TRAP :: u8 where
  [c_const]: "IDT_KERNEL_TRAP = IDT_FLAG_PRESENT OR IDT_FLAG_RING0 OR IDT_GATE_TRAP_32"

definition IDT_ENTRY_COUNT :: nat where [c_const]: "IDT_ENTRY_COUNT = 256"

record idt_ptr_t =
  idt_limit :: u16
  idt_base :: u32

datatype isr_handler =
    Isr_divide_by_zero | Isr_invalid_opcode | Isr_double_fault | Isr_general_protection
  | Isr_page_fault | Irq0_timer_handler | Isr_unhandled_interrupt | Keyboard_handler

section \<open>State and operations\<close>

text \<open>The three variables of the file, the table register and the interrupt flag.\<close>

record idt_t = pit_t +
  idt :: "idt_entry_t list"
  idt_ptr :: idt_ptr_t
  isr_handlers :: "isr_handler option list"
  idtr :: idt_ptr_t
  int_flag :: bool

type_synonym 'a kernel = "'a idt_t_scheme"

definition idt_set_entry :: "u8 \<Rightarrow> u32 \<Rightarrow> u16 \<Rightarrow> u8 \<Rightarrow> 'a kernel \<Rightarrow> 'a kernel" where
  "idt_set_entry v handler sel attr s =
     (let e = idt s ! unat v;
          e = e\<lparr>offset_low := ucast (handler AND 0xFFFF)\<rparr>;
          e = e\<lparr>offset_high := ucast (drop_bit 16 handler AND 0xFFFF)\<rparr>;
          e = e\<lparr>selector := sel\<rparr>;
          e = e\<lparr>zero := 0\<rparr>;
          e = e\<lparr>type_attr := attr\<rparr>
      in s\<lparr>idt := (idt s)[unat v := e]\<rparr>)"

definition idt_register_handler :: "u8 \<Rightarrow> isr_handler \<Rightarrow> 'a kernel \<Rightarrow> 'a kernel" where
  "idt_register_handler v fn s = s\<lparr>isr_handlers := (isr_handlers s)[unat v := Some fn]\<rparr>"

definition idt_flush :: "'a kernel \<Rightarrow> 'a kernel" where
  "idt_flush s = s\<lparr>idtr := idt_ptr s, int_flag := True\<rparr>"

text \<open>The calls of \<open>idt_set_entry\<close> in \<open>idt_init\<close>, in order: vector, stub and gate type.\<close>

definition exception_gates :: "(nat \<Rightarrow> u32) \<Rightarrow> (u8 \<times> u32 \<times> u8) list" where
  "exception_gates isr =
     [(0, isr 0, IDT_KERNEL_INTERRUPT), (1, isr 1, IDT_KERNEL_TRAP), (2, isr 2, IDT_KERNEL_INTERRUPT),
      (3, isr 3, IDT_KERNEL_TRAP), (4, isr 4, IDT_KERNEL_INTERRUPT), (5, isr 5, IDT_KERNEL_INTERRUPT),
      (6, isr 6, IDT_KERNEL_INTERRUPT), (7, isr 7, IDT_KERNEL_INTERRUPT), (8, isr 8, IDT_KERNEL_INTERRUPT),
      (9, isr 9, IDT_KERNEL_INTERRUPT), (10, isr 10, IDT_KERNEL_INTERRUPT), (11, isr 11, IDT_KERNEL_INTERRUPT),
      (12, isr 12, IDT_KERNEL_INTERRUPT), (13, isr 13, IDT_KERNEL_INTERRUPT), (14, isr 14, IDT_KERNEL_INTERRUPT),
      (15, isr 15, IDT_KERNEL_INTERRUPT), (16, isr 16, IDT_KERNEL_INTERRUPT), (17, isr 17, IDT_KERNEL_INTERRUPT),
      (18, isr 18, IDT_KERNEL_INTERRUPT), (19, isr 19, IDT_KERNEL_INTERRUPT), (20, isr 20, IDT_KERNEL_INTERRUPT),
      (21, isr 21, IDT_KERNEL_INTERRUPT)]"

definition irq_gates :: "(nat \<Rightarrow> u32) \<Rightarrow> (u8 \<times> u32 \<times> u8) list" where
  "irq_gates irq =
     [(32, irq 0, IDT_KERNEL_INTERRUPT), (33, irq 1, IDT_KERNEL_INTERRUPT), (34, irq 2, IDT_KERNEL_INTERRUPT),
      (35, irq 3, IDT_KERNEL_INTERRUPT), (36, irq 4, IDT_KERNEL_INTERRUPT), (37, irq 5, IDT_KERNEL_INTERRUPT),
      (38, irq 6, IDT_KERNEL_INTERRUPT), (39, irq 7, IDT_KERNEL_INTERRUPT), (40, irq 8, IDT_KERNEL_INTERRUPT),
      (41, irq 9, IDT_KERNEL_INTERRUPT), (42, irq 10, IDT_KERNEL_INTERRUPT), (43, irq 11, IDT_KERNEL_INTERRUPT),
      (44, irq 12, IDT_KERNEL_INTERRUPT), (45, irq 13, IDT_KERNEL_INTERRUPT), (46, irq 14, IDT_KERNEL_INTERRUPT),
      (47, irq 15, IDT_KERNEL_INTERRUPT)]"

definition init_handlers :: "(u8 \<times> isr_handler) list" where
  "init_handlers =
     [(0, Isr_divide_by_zero), (6, Isr_invalid_opcode), (8, Isr_double_fault),
      (13, Isr_general_protection), (14, Isr_page_fault), (32, Irq0_timer_handler)]"

definition fill_handlers :: "'a kernel \<Rightarrow> 'a kernel" where
  "fill_handlers s =
     fold (\<lambda>i s. if isr_handlers s ! i = None
                  then s\<lparr>isr_handlers := (isr_handlers s)[i := Some Isr_unhandled_interrupt]\<rparr> else s)
       [0..<IDT_ENTRY_COUNT] s"

definition idt_init :: "(nat \<Rightarrow> u32) \<Rightarrow> (nat \<Rightarrow> u32) \<Rightarrow> u32 \<Rightarrow> 'a kernel \<Rightarrow> 'a kernel" where
  "idt_init isr irq idt_address s =
     (let s = s\<lparr>idt := replicate IDT_ENTRY_COUNT
                 \<lparr>offset_low = 0, selector = 0, zero = 0, type_attr = 0, offset_high = 0\<rparr>\<rparr>;
          s = s\<lparr>isr_handlers := replicate IDT_ENTRY_COUNT None\<rparr>;
          s = s\<lparr>idt_ptr := \<lparr>idt_limit = of_nat (8 * IDT_ENTRY_COUNT - 1), idt_base = idt_address\<rparr>\<rparr>;
          s = fold (\<lambda>(v, handler, attr). idt_set_entry v handler 0x08 attr) (exception_gates isr) s;
          s = fold (\<lambda>(v, handler, attr). idt_set_entry v handler 0x08 attr) (irq_gates irq) s;
          s = fold (\<lambda>(v, fn). idt_register_handler v fn) init_handlers s;
          s = fill_handlers s
      in idt_flush s)"

section \<open>What the processor reads\<close>

definition gate_offset :: "idt_entry_t \<Rightarrow> nat" where
  "gate_offset e = unat (offset_low e) + 2 ^ 16 * unat (offset_high e)"

definition gate_present :: "idt_entry_t \<Rightarrow> bool" where
  "gate_present e \<longleftrightarrow> bit (type_attr e) 7"

text \<open>An interrupt gate turns interrupts off on entry, a trap gate does not.\<close>

definition clears_if :: "idt_entry_t \<Rightarrow> bool" where
  "clears_if e \<longleftrightarrow> unat (type_attr e) mod 16 = 0x0E"

definition gate :: "u32 \<Rightarrow> u8 \<Rightarrow> idt_entry_t" where
  "gate h attr = \<lparr>offset_low = ucast (h AND 0xFFFF), selector = 0x08, zero = 0, type_attr = attr,
     offset_high = ucast (drop_bit 16 h AND 0xFFFF)\<rparr>"

lemma idt_set_entry_gate: "idt_set_entry v h 0x08 attr s = s\<lparr>idt := (idt s)[unat v := gate h attr]\<rparr>"
  by (cases "idt s ! unat v") (simp add: idt_set_entry_def gate_def)

lemma gate_offset_gate: "gate_offset (gate h attr) = unat h"
proof -
  have half: "unat (ucast ((x::u32) AND 0xFFFF) :: u16) = unat x mod 65536" for x
  proof -
    have "x AND 0xFFFF = take_bit 16 x" by (simp add: take_bit_eq_mask mask_eq_exp_minus_1)
    then show ?thesis by (simp only: unsigned_ucast_eq unsigned_take_bit_eq) (simp add: take_bit_eq_mod)
  qed
  have "unat (drop_bit 16 h) = unat h div 65536" by (simp only: unat_drop_bit_eq) (simp add: drop_bit_eq_div)
  moreover have "unat h div 65536 < 65536" using unat_less_32 [of h] by (simp add: div_less_iff_less_mult)
  ultimately show ?thesis by (simp add: gate_offset_def gate_def half)
qed

section \<open>Tables of updates\<close>

lemma fold_set_entries:
  "fold (\<lambda>(v, h, attr). idt_set_entry v h 0x08 attr) gs s =
     s\<lparr>idt := fold (\<lambda>(v, h, attr) tab. tab[unat v := gate h attr]) gs (idt s)\<rparr>"
  by (induction gs arbitrary: s) (auto simp: idt_set_entry_gate)

lemma fold_register:
  "fold (\<lambda>(v, fn). idt_register_handler v fn) hs s =
     s\<lparr>isr_handlers := fold (\<lambda>(v, fn) tab. tab[unat v := Some fn]) hs (isr_handlers s)\<rparr>"
  by (induction hs arbitrary: s) (auto simp: idt_register_handler_def)

lemma fold_update_nth:
  "i < length tab \<Longrightarrow> distinct (map fst us) \<Longrightarrow>
     length (fold (\<lambda>(v, x) tab. tab[unat v := f x]) us tab) = length tab \<and>
     fold (\<lambda>(v, x) tab. tab[unat v := f x]) us tab ! i =
       (case map_of us (of_nat i) of Some x \<Rightarrow> if i < 256 then f x else tab ! i | None \<Rightarrow> tab ! i)"
  for us :: "(u8 \<times> 'x) list"
proof (induction us arbitrary: tab)
  case (Cons u us)
  obtain v x where u: "u = (v, x)" by fastforce
  have v: "v = of_nat i \<longleftrightarrow> unat v = i" if "i < 256" using that by (auto simp: unat_of_nat)
  have "unat v < 256" using unat_less_pow [of v] by simp
  moreover have "map_of us v = None" using Cons.prems(2) u by (simp add: map_of_eq_None_iff)
  ultimately show ?case using Cons.IH [of "tab[unat v := f x]"] Cons.prems u v
    by (cases "unat v = i") (auto simp: nth_list_update split: option.splits)
qed simp

lemma fill_loop_handlers:
  "n \<le> length hs \<Longrightarrow>
     fold (\<lambda>i hs. if hs ! i = None then hs[i := Some u] else hs) [0..<n] hs =
       map (\<lambda>h. case h of None \<Rightarrow> Some u | Some g \<Rightarrow> Some g) (take n hs) @ drop n hs"
proof (induction n)
  case (Suc n)
  let ?f = "\<lambda>h. case h of None \<Rightarrow> Some u | Some g \<Rightarrow> Some g"
  have t: "take (Suc n) hs = take n hs @ [hs ! n]" and d: "drop n hs = hs ! n # drop (Suc n) hs"
    using Suc.prems by (simp_all add: take_Suc_conv_app_nth Cons_nth_drop_Suc)
  have n: "(map ?f (take n hs) @ drop n hs) ! n = hs ! n" using Suc.prems by (simp add: nth_append)
  have "fold (\<lambda>i hs. if hs ! i = None then hs[i := Some u] else hs) [0..<Suc n] hs =
      (let r = map ?f (take n hs) @ drop n hs in if r ! n = None then r[n := Some u] else r)"
    using Suc by (simp add: Let_def)
  also have "\<dots> = map ?f (take (Suc n) hs) @ drop (Suc n) hs"
    unfolding Let_def n t d using Suc.prems by (auto simp: list_update_append nth_append split: option.splits)
  finally show ?case .
qed simp

lemma fill_handlers_eq:
  "length (isr_handlers s) = IDT_ENTRY_COUNT \<Longrightarrow>
   fill_handlers s = s\<lparr>isr_handlers := map (\<lambda>h. case h of None \<Rightarrow> Some Isr_unhandled_interrupt | Some g \<Rightarrow> Some g) (isr_handlers s)\<rparr>"
proof -
  have "fold (\<lambda>i s. if isr_handlers s ! i = None then s\<lparr>isr_handlers := (isr_handlers s)[i := Some u]\<rparr> else s) is s =
      s\<lparr>isr_handlers := fold (\<lambda>i hs. if hs ! i = None then hs[i := Some u] else hs) is (isr_handlers s)\<rparr>" for u "is"
    by (induction "is" arbitrary: s) auto
  then show "length (isr_handlers s) = IDT_ENTRY_COUNT \<Longrightarrow> ?thesis"
    using fill_loop_handlers [of IDT_ENTRY_COUNT "isr_handlers s"] by (simp add: fill_handlers_def)
qed

section \<open>The table after initialisation\<close>

definition init_gates :: "(nat \<Rightarrow> u32) \<Rightarrow> (nat \<Rightarrow> u32) \<Rightarrow> (u8 \<times> u32 \<times> u8) list" where
  "init_gates isr irq = exception_gates isr @ irq_gates irq"

lemma idt_init_eq:
  "idt_init isr irq a s = s\<lparr>
     idt := fold (\<lambda>(v, x) tab. tab[unat v := (case x of (h, attr) \<Rightarrow> gate h attr)]) (init_gates isr irq)
       (replicate 256 \<lparr>offset_low = 0, selector = 0, zero = 0, type_attr = 0, offset_high = 0\<rparr>),
     idt_ptr := \<lparr>idt_limit = 2047, idt_base = a\<rparr>,
     isr_handlers := map (\<lambda>h. case h of None \<Rightarrow> Some Isr_unhandled_interrupt | Some g \<Rightarrow> Some g)
       (fold (\<lambda>(v, fn) tab. tab[unat v := Some fn]) init_handlers (replicate 256 None)),
     idtr := \<lparr>idt_limit = 2047, idt_base = a\<rparr>, int_flag := True\<rparr>"
proof -
  have c: "(\<lambda>(v, x) tab. tab[unat (v::u8) := (case x of (h, attr) \<Rightarrow> gate h attr)]) = (\<lambda>(v, h, attr) tab. tab[unat v := gate h attr])"
    by (auto simp: fun_eq_iff)
  have len: "length (fold (\<lambda>(v, fn) tab. tab[unat v := Some fn]) hs tab) = length tab" for hs :: "(u8 \<times> 'x) list" and tab
    by (induction hs arbitrary: tab) auto
  show ?thesis unfolding c
    by (simp add: idt_init_def fold_set_entries fold_register fill_handlers_eq len idt_flush_def init_gates_def IDT_ENTRY_COUNT_def)
qed

lemma gates_distinct: "distinct (map fst (init_gates isr irq))" "distinct (map fst init_handlers)"
  by (simp_all add: init_gates_def exception_gates_def irq_gates_def init_handlers_def)

lemma idt_init_nth:
  assumes "i < 256"
  shows "idt (idt_init isr irq a s) ! i = (case map_of (init_gates isr irq) (of_nat i) of
      Some (h, attr) \<Rightarrow> gate h attr | None \<Rightarrow> \<lparr>offset_low = 0, selector = 0, zero = 0, type_attr = 0, offset_high = 0\<rparr>)"
    and "isr_handlers (idt_init isr irq a s) ! i = Some (case map_of init_handlers (of_nat i) of
      Some fn \<Rightarrow> fn | None \<Rightarrow> Isr_unhandled_interrupt)"
    and "length (idt (idt_init isr irq a s)) = 256" "length (isr_handlers (idt_init isr irq a s)) = 256"
  using assms
    fold_update_nth [of i "replicate 256 \<lparr>offset_low = 0, selector = 0, zero = 0, type_attr = 0, offset_high = 0\<rparr>"
      "init_gates isr irq" "\<lambda>x. case x of (h, attr) \<Rightarrow> gate h attr", OF _ gates_distinct(1)]
    fold_update_nth [of i "replicate 256 None" init_handlers Some, OF _ gates_distinct(2)]
  by (auto simp: idt_init_eq split: option.splits)

lemma map_of_vectors:
  "set xs \<subseteq> {..<256} \<Longrightarrow> j < 256 \<Longrightarrow>
     map_of (map (\<lambda>i. (of_nat i :: u8, f i)) xs) (of_nat j) = (if j \<in> set xs then Some (f j) else None)"
proof (induction xs)
  case (Cons i xs)
  then have "(of_nat i :: u8) = of_nat j \<longleftrightarrow> i = j" by (auto simp: word_unat_eq_iff unat_of_nat)
  then show ?case using Cons by auto
qed simp

lemma exception_gates_map:
  "exception_gates isr = map (\<lambda>i. (of_nat i, isr i, if i \<in> {1, 3} then IDT_KERNEL_TRAP else IDT_KERNEL_INTERRUPT)) [0..<22]"
  by (simp add: exception_gates_def upt_rec numeral_eq_Suc)

lemma irq_gates_map: "irq_gates irq = map (\<lambda>i. (of_nat i, irq (i - 32), IDT_KERNEL_INTERRUPT)) [32..<48]"
  by (simp add: irq_gates_def upt_rec numeral_eq_Suc)

lemma gate_vector:
  assumes "i < 256"
  shows "map_of (init_gates isr irq) (of_nat i) =
    (if i < 22 then Some (isr i, if i \<in> {1, 3} then IDT_KERNEL_TRAP else IDT_KERNEL_INTERRUPT)
     else if 32 \<le> i \<and> i < 48 then Some (irq (i - 32), IDT_KERNEL_INTERRUPT) else None)"
proof -
  have "set [0..<22] \<subseteq> {..<256::nat}" "set [32..<48] \<subseteq> {..<256::nat}" by (simp_all only: set_upt) auto
  note m = this [THEN map_of_vectors, OF assms]
  have "map_of (exception_gates isr) (of_nat i) = (if i \<in> set [0..<22] then
        Some (isr i, if i \<in> {1, 3} then IDT_KERNEL_TRAP else IDT_KERNEL_INTERRUPT) else None)"
    "map_of (irq_gates irq) (of_nat i) = (if i \<in> set [32..<48] then Some (irq (i - 32), IDT_KERNEL_INTERRUPT) else None)"
    unfolding exception_gates_map irq_gates_map by (rule m)+
  then show ?thesis by (simp only: init_gates_def map_of_append map_add_def set_upt atLeastLessThan_iff) auto
qed


definition raw_kernel :: "unit kernel" where
  "raw_kernel = \<lparr>io_trace = [], VGA_MEMORY = \<lambda>_. 0x0F20, cursor_row = 0, cursor_col = 0,
     current_color_byte = 0x0F, vga_lock = \<lparr>locked = 0\<rparr>, ticks = 0, current_pit_hz = 0,
     idt = [], idt_ptr = \<lparr>idt_limit = 0, idt_base = 0\<rparr>, isr_handlers = [],
     idtr = \<lparr>idt_limit = 0, idt_base = 0\<rparr>, int_flag = False\<rparr>"


end
