(* ===== verification/Isr.thy ===== *)
theory Isr
  imports Idt
begin

text \<open>
  Interrupt service routines: \<^verbatim>\<open>cpu/isr.c\<close>, the panic routine \<^verbatim>\<open>kernel/panic.c\<close>, the keyboard handler
  \<^verbatim>\<open>drivers/keyboard/keyboard.c\<close> and the dispatcher \<open>isr_common_handler\<close> of \<^verbatim>\<open>idt.c\<close>. The dispatcher gets
  a pointer to the frame that \<^verbatim>\<open>isr_stubs.asm\<close> builds and hands it on; the routines of \<^verbatim>\<open>isr.c\<close> read the
  same memory as a \<^verbatim>\<open>registers_t\<close>, which has no field for the saved data segment.
\<close>

section \<open>Frames\<close>

record interrupt_frame_t =
  f_ds :: u32
  f_edi :: u32
  f_esi :: u32
  f_ebp :: u32
  f_esp :: u32
  f_ebx :: u32
  f_edx :: u32
  f_ecx :: u32
  f_eax :: u32
  f_int_no :: u32
  f_err_code :: u32
  f_eip :: u32
  f_cs :: u32
  f_eflags :: u32
  f_useresp :: u32
  f_ss :: u32

record registers_t =
  r_edi :: u32
  r_esi :: u32
  r_ebp :: u32
  r_esp :: u32
  r_ebx :: u32
  r_edx :: u32
  r_ecx :: u32
  r_eax :: u32
  r_int_no :: u32
  r_err_code :: u32
  r_eip :: u32
  r_cs :: u32
  r_eflags :: u32
  r_user_esp :: u32
  r_ss :: u32

text \<open>The words of a frame in memory order, and what a \<^verbatim>\<open>registers_t\<close> at the same address reads.\<close>

definition frame_words :: "interrupt_frame_t \<Rightarrow> u32 list" where
  "frame_words f = [f_ds f, f_edi f, f_esi f, f_ebp f, f_esp f, f_ebx f, f_edx f, f_ecx f, f_eax f,
     f_int_no f, f_err_code f, f_eip f, f_cs f, f_eflags f, f_useresp f, f_ss f]"

definition registers_at :: "u32 list \<Rightarrow> registers_t" where
  "registers_at w = \<lparr>r_edi = w ! 0, r_esi = w ! 1, r_ebp = w ! 2, r_esp = w ! 3, r_ebx = w ! 4, r_edx = w ! 5,
     r_ecx = w ! 6, r_eax = w ! 7, r_int_no = w ! 8, r_err_code = w ! 9, r_eip = w ! 10, r_cs = w ! 11,
     r_eflags = w ! 12, r_user_esp = w ! 13, r_ss = w ! 14\<rparr>"

text \<open>A routine returns, halts the processor for good, or has no defined end (\<open>Stuck\<close>: it spins on a
  lock that is never released, or indexes outside an array).\<close>

datatype 's outcome = Returns 's | Halts 's | Stuck

fun returning :: "'s option \<Rightarrow> 's outcome" where
  "returning (Some s) = Returns s"
| "returning None = Stuck"

section \<open>Panic and exceptions\<close>

text \<open>
  The calls of \<open>log_fatal\<close>, \<open>vga_clear_screen\<close> and \<open>vga_set_cursor\<close> are calls of the empty functions of
  \<^verbatim>\<open>stubs.c\<close>.
\<close>

definition kernel_panic :: "string \<Rightarrow> registers_t option \<Rightarrow> 'a kernel \<Rightarrow> 'a kernel outcome" where
  "kernel_panic msg regs s =
     (let s = s\<lparr>int_flag := False\<rparr>
      in case vga_set_colors VGA_COLOR_WHITE VGA_COLOR_RED s of
           None \<Rightarrow> Stuck
         | Some s \<Rightarrow>
             let s = vga_clear_screen s;
                 s = vga_set_cursor 0 0 s;
                 s = log_fatal ''KERNEL PANIC!'' s;
                 s = log_fatal ''Message: %s'' s;
                 s = (if regs \<noteq> None
                      then (let s = log_fatal ''  EIP: 0x%x, CS: 0x%x, EFLAGS: 0x%x'' s;
                                s = log_fatal ''  ESP: 0x%x, SS: 0x%x'' s;
                                s = log_fatal ''  EAX: 0x%x, EBX: 0x%x, ECX: 0x%x, EDX: 0x%x'' s;
                                s = log_fatal ''  ESI: 0x%x, EDI: 0x%x, EBP: 0x%x'' s
                            in log_fatal ''  Interrupt No: 0x%x, Error Code: 0x%x'' s)
                      else log_fatal ''  No CPU state available (panic not interrupt-driven).'' s)
             in Halts (log_fatal ''System Halted.'' s))"

definition isr_unhandled_interrupt :: "registers_t \<Rightarrow> 'a kernel \<Rightarrow> 'a kernel outcome" where
  "isr_unhandled_interrupt regs s =
     (case log_warn ''Unhandled Interrupt (Vector: 0x%x, Error Code: 0x%x, EIP: 0x%x)''
             [Word (r_int_no regs), Word (r_err_code regs), Word (r_eip regs)] s of
        None \<Rightarrow> Stuck
      | Some s \<Rightarrow> Returns (if r_int_no regs \<ge> 32 \<and> r_int_no regs \<le> 47
                            then pic_send_eoi (ucast (r_int_no regs - 32)) s else s))"

definition isr_divide_by_zero :: "registers_t \<Rightarrow> 'a kernel \<Rightarrow> 'a kernel outcome" where
  "isr_divide_by_zero regs s = kernel_panic ''EXCEPTION #0: Divide By Zero'' (Some regs) s"

definition isr_invalid_opcode :: "registers_t \<Rightarrow> 'a kernel \<Rightarrow> 'a kernel outcome" where
  "isr_invalid_opcode regs s = kernel_panic ''EXCEPTION #6: Invalid Opcode'' (Some regs) s"

definition isr_double_fault :: "registers_t \<Rightarrow> 'a kernel \<Rightarrow> 'a kernel outcome" where
  "isr_double_fault regs s = kernel_panic ''EXCEPTION #8: Double Fault'' (Some regs) s"

definition isr_general_protection :: "registers_t \<Rightarrow> 'a kernel \<Rightarrow> 'a kernel outcome" where
  "isr_general_protection regs s = kernel_panic ''EXCEPTION #13: General Protection Fault'' (Some regs) s"

definition isr_page_fault :: "registers_t \<Rightarrow> 'a kernel \<Rightarrow> 'a kernel outcome" where
  "isr_page_fault regs s = kernel_panic ''EXCEPTION #14: Page Fault'' (Some regs) s"

definition irq0_timer_handler :: "registers_t \<Rightarrow> 'a kernel \<Rightarrow> 'a kernel outcome" where
  "irq0_timer_handler regs s =
     (let s = time_set_ticks (time_get_ticks s + 1) s in Returns (pic_send_eoi 0 s))"

section \<open>The keyboard\<close>

definition KEYBOARD_DATA_PORT :: u16 where [c_const]: "KEYBOARD_DATA_PORT = 0x60"

definition scancode_to_ascii :: string where
  "scancode_to_ascii =
     [CHR 0x00, CHR 0x00] @ ''1234567890-='' @ [CHR 0x00] @
     [CHR 0x09] @ ''qwertyuiop[]'' @ [CHR ''\<newline>''] @
     [CHR 0x00] @ ''asdfghjkl;'' @ [CHR 0x27] @ ''`'' @
     [CHR 0x00] @ [CHR 0x5C] @ ''zxcvbnm,./'' @ [CHR 0x00] @
     ''*'' @ [CHR 0x00] @ '' ''"

definition SCANCODE_TABLE_SIZE :: nat where
  "SCANCODE_TABLE_SIZE = length scancode_to_ascii"

definition keyboard_handler :: "hardware \<Rightarrow> interrupt_frame_t \<Rightarrow> 'a kernel \<Rightarrow> 'a kernel outcome" where
  "keyboard_handler hw frame s =
     (let (scancode, s) = inb hw KEYBOARD_DATA_PORT s
      in if scancode AND 0x80 \<noteq> 0 then Returns (outb 0x20 0x20 s)
         else returning (do {
           s \<leftarrow> (if unat scancode < SCANCODE_TABLE_SIZE \<and> scancode_to_ascii ! unat scancode \<noteq> CHR 0x00
                 then (let c = scancode_to_ascii ! unat scancode
                       in do { s \<leftarrow> log_info (''Key: '' @ [CHR 0x27] @ ''%c'' @ [CHR 0x27] @ '' (scancode=0x%x)'')
                                      [Word (of_char c), Word (ucast scancode)] s;
                               vga_put_char c s })
                 else log_info ''Key: (special, scancode=0x%x)'' [Word (ucast scancode)] s);
           Some (outb 0x20 0x20 s) }))"

definition keyboard_init :: "'a kernel \<Rightarrow> 'a kernel option" where
  "keyboard_init s =
     (let s = idt_register_handler 33 Keyboard_handler s in log_info ''Keyboard driver initialized.'' [] s)"

section \<open>Dispatch\<close>

definition call_handler :: "hardware \<Rightarrow> isr_handler \<Rightarrow> interrupt_frame_t \<Rightarrow> 'a kernel \<Rightarrow> 'a kernel outcome" where
  "call_handler hw h frame s =
     (let regs = registers_at (frame_words frame) in
      case h of
        Isr_divide_by_zero \<Rightarrow> isr_divide_by_zero regs s
      | Isr_invalid_opcode \<Rightarrow> isr_invalid_opcode regs s
      | Isr_double_fault \<Rightarrow> isr_double_fault regs s
      | Isr_general_protection \<Rightarrow> isr_general_protection regs s
      | Isr_page_fault \<Rightarrow> isr_page_fault regs s
      | Irq0_timer_handler \<Rightarrow> irq0_timer_handler regs s
      | Isr_unhandled_interrupt \<Rightarrow> isr_unhandled_interrupt regs s
      | Keyboard_handler \<Rightarrow> keyboard_handler hw frame s)"

text \<open>The vector indexes the table of handlers without a check.\<close>

definition isr_common_handler :: "hardware \<Rightarrow> interrupt_frame_t \<Rightarrow> 'a kernel \<Rightarrow> 'a kernel outcome" where
  "isr_common_handler hw frame s =
     (if unat (f_int_no frame) \<ge> length (isr_handlers s) then Stuck
      else case isr_handlers s ! unat (f_int_no frame) of
             Some h \<Rightarrow> call_handler hw h frame s
           | None \<Rightarrow> isr_unhandled_interrupt (registers_at (frame_words frame)) s)"

end
