(* ===== verification/Isr_Properties.thy ===== *)
theory Isr_Properties
  imports Isr
begin

text \<open>
  What the interrupt routines do when they are reached through the dispatcher with the tables that
  \<open>idt_init\<close> and \<open>keyboard_init\<close> build.
\<close>

abbreviation pic_ports :: "u16 set" where
  "pic_ports \<equiv> {0x20, 0x21, 0xA0, 0xA1}"

lemma writes_console:
  "set u \<subseteq> {Outb p v | p v. p = 0x3D4 \<or> p = 0x3D5} \<Longrightarrow> writes_to pic_ports u = []"
  by (induction u) auto

lemma only_console_writes: "only_console s s' \<Longrightarrow> writes_to pic_ports (io_trace s') = writes_to pic_ports (io_trace s)"
  by (elim only_console_trace) (simp add: writes_console)

lemma registers_of_frame [simp]:
  "r_int_no (registers_at (frame_words f)) = f_eax f" "r_err_code (registers_at (frame_words f)) = f_int_no f"
  "r_eip (registers_at (frame_words f)) = f_err_code f"
  by (simp_all add: registers_at_def frame_words_def)

lemma dispatch_idt:
  assumes "isr_handlers s ! v = Some h" "v < length (isr_handlers s)" "f_int_no f = of_nat v" "v < 2 ^ 32"
  shows "isr_common_handler hw f s = call_handler hw h f s"
  using assms by (simp add: isr_common_handler_def unat_of_nat)

lemma isr_formats:
  "word_format ''Unhandled Interrupt (Vector: 0x%x, Error Code: 0x%x, EIP: 0x%x)'' 3"
  "word_format (''Key: '' @ [CHR 0x27] @ ''%c'' @ [CHR 0x27] @ '' (scancode=0x%x)'') 2"
  "word_format ''Key: (special, scancode=0x%x)'' 1"
  by (simp_all add: word_format_def)

lemma log_words_k:
  assumes "vga_ok s" "word_format fmt k" "length ws = k"
  shows "\<exists>s'. log_info fmt (map Word ws) s = Some s' \<and> vga_ok s' \<and> only_console s s'"
    and "\<exists>s'. log_warn fmt (map Word ws) s = Some s' \<and> vga_ok s' \<and> only_console s s'"
  using log_words [OF assms(1), of fmt ws] assms(2,3) by blast+

section \<open>The timer\<close>

text \<open>\<open>n\<close> interrupts, one after the other, with the frames the stub builds.\<close>

primrec interrupts :: "hardware \<Rightarrow> interrupt_frame_t list \<Rightarrow> 'a kernel \<Rightarrow> 'a kernel outcome" where
  "interrupts hw [] s = Returns s"
| "interrupts hw (f # fs) s =
     (case isr_common_handler hw f s of Returns s \<Rightarrow> interrupts hw fs s | Halts s \<Rightarrow> Halts s | Stuck \<Rightarrow> Stuck)"

lemma timer_interrupts:
  assumes "isr_handlers s ! 32 = Some Irq0_timer_handler" "32 < length (isr_handlers s)"
    "\<forall>f \<in> set fs. f_int_no f = 32"
  shows "interrupts hw fs s = Returns (s\<lparr>ticks := ticks s + of_nat (length fs),
    io_trace := io_trace s @ replicate (length fs) (Outb 0x20 0x20)\<rparr>)"
  using assms
proof (induction fs arbitrary: s)
  case (Cons f fs)
  let ?s = "s\<lparr>ticks := ticks s + 1, io_trace := io_trace s @ [Outb 0x20 0x20]\<rparr>"
  have "isr_common_handler hw f s = Returns ?s"
    using dispatch_idt [OF Cons.prems(1,2), of f hw] Cons.prems(3)
    by (simp add: call_handler_def irq0_timer_handler_def time_set_ticks_def time_get_ticks_def pic_send_eoi_def
        outb_def c_const Let_def)
  then show ?case using Cons.IH [of ?s] Cons.prems by (simp add: add.assoc)
qed simp

section \<open>Keyboard messages\<close>

definition key_message :: "char \<Rightarrow> u8 \<Rightarrow> string" where
  "key_message c sc = ''Key: '' @ [CHR 0x27, c, CHR 0x27] @ '' (scancode=0x'' @ radix 16 (unat sc) @ '')''"

definition special_message :: "u8 \<Rightarrow> string" where
  "special_message sc = ''Key: (special, scancode=0x'' @ radix 16 (unat sc) @ '')''"

lemma char_of_word: "char_of (unat (of_char c :: u32)) = c"
proof -
  have "of_char c < (256::nat)" by (cases c) simp
  then have "of_char c mod 4294967296 = (of_char c :: nat)" by (intro mod_less) linarith
  then have "unat (of_nat (of_char c) :: u32) = of_char c" by (simp only: unat_of_nat) simp
  then show ?thesis by (simp add: of_nat_of_char)
qed

lemma key_log:
  "log_info (''Key: '' @ [CHR 0x27] @ ''%c'' @ [CHR 0x27] @ '' (scancode=0x%x)'') [Word (of_char c), Word (ucast sc)] s =
     act (log_actions 32 ''[INFO] '' (ticks s) (map Put (key_message c sc))) s"
  "log_info ''Key: (special, scancode=0x%x)'' [Word (ucast sc)] s =
     act (log_actions 32 ''[INFO] '' (ticks s) (map Put (special_message sc))) s"
proof -
  have u: "unat (ucast sc :: u32) = unat sc" by (simp add: unsigned_ucast_eq take_bit_eq_mod unat_less_pow [THEN order_less_trans])
  let ?f1 = "''Key: '' @ [CHR 0x27] @ ''%c'' @ [CHR 0x27] @ '' (scancode=0x%x)''" and ?f2 = "''Key: (special, scancode=0x%x)''"
  have "render (parse_format ?f1) [Word (of_char c), Word (ucast sc)] = Some (map Put (key_message c sc))"
    "render (parse_format ?f2) [Word (ucast sc)] = Some (map Put (special_message sc))"
    by (simp_all add: key_message_def special_message_def char_of_word u)
  moreover have "list_all piece_ok (parse_format ?f1)" "list_all piece_ok (parse_format ?f2)" by simp_all
  ultimately show
    "log_info ?f1 [Word (of_char c), Word (ucast sc)] s = act (log_actions 32 ''[INFO] '' (ticks s) (map Put (key_message c sc))) s"
    "log_info ?f2 [Word (ucast sc)] s = act (log_actions 32 ''[INFO] '' (ticks s) (map Put (special_message sc))) s"
    using log_act(1) [of "parse_format ?f1"] log_act(1) [of "parse_format ?f2"] unparse_parse by metis+
qed

text \<open>What a key press prints: the log line, and for a mapped key its character after it.\<close>

definition key_output :: "u64 \<Rightarrow> u8 \<Rightarrow> action list" where
  "key_output t sc =
     (let c = scancode_to_ascii ! unat sc in
      if unat sc < SCANCODE_TABLE_SIZE \<and> c \<noteq> CHR 0x00
      then log_actions 32 ''[INFO] '' t (map Put (key_message c sc)) @ [Put c]
      else log_actions 32 ''[INFO] '' t (map Put (special_message sc)))"

lemma keyboard_handler_act:
  fixes s :: "'a kernel"
  assumes "sc = hw (io_trace s) 0x60" "sc < 0x80"
  shows "keyboard_handler hw f s =
    returning (map_option (outb 0x20 0x20) (act (key_output (ticks s) sc) (s\<lparr>io_trace := io_trace s @ [Inb 0x60 sc]\<rparr>)))"
proof -
  let ?u = "s\<lparr>io_trace := io_trace s @ [Inb 0x60 sc]\<rparr>"
  have "sc AND 0x80 = 0"
  proof (rule bit_word_eqI)
    fix n assume "n < LENGTH(8)"
    have "bit (push_bit 7 1 :: u8) n \<longleftrightarrow> n = 7"
      using \<open>n < LENGTH(8)\<close> by (simp only: bit_push_bit_iff bit_1_iff) auto
    then have "bit (0x80 :: u8) n \<longleftrightarrow> n = 7" by simp
    then show "bit (sc AND 0x80) n \<longleftrightarrow> bit (0::u8) n" using assms(2) u8_sign_bit [of sc]
      by (cases "n = 7") (simp_all add: bit_and_iff)
  qed
  then have "keyboard_handler hw f s = returning (do {
      s \<leftarrow> (if unat sc < SCANCODE_TABLE_SIZE \<and> scancode_to_ascii ! unat sc \<noteq> CHR 0x00
            then act (log_actions 32 ''[INFO] '' (ticks s) (map Put (key_message (scancode_to_ascii ! unat sc) sc))) ?u
                   \<bind> vga_put_char (scancode_to_ascii ! unat sc)
            else act (log_actions 32 ''[INFO] '' (ticks s) (map Put (special_message sc))) ?u);
      Some (outb 0x20 0x20 s) })"
    using assms(1) by (simp only: keyboard_handler_def inb_def c_const Let_def key_log) simp
  then show ?thesis by (simp add: key_output_def Let_def perform_append map_option_case split: option.splits bind_splits)
qed

section \<open>Main results\<close>

text \<open>
  C22. The clock. Once \<open>idt_init\<close> has run, \<open>n\<close> timer interrupts in a row all return, whatever else the state
  is, even while the console is locked; the tick counter has grown by \<open>n\<close> modulo \<open>2 ^ 64\<close>, each
  interrupt has been acknowledged to the master controller alone, and nothing else has changed.
\<close>

theorem timer_counts:
  assumes "\<forall>f \<in> set fs. f_int_no f = 32"
  shows "interrupts hw fs (idt_init isr irq a s) = Returns ((idt_init isr irq a s)
    \<lparr>ticks := ticks s + of_nat (length fs), io_trace := io_trace s @ replicate (length fs) (Outb 0x20 0x20)\<rparr>)"
proof -
  let ?s = "idt_init isr irq a s"
  have "ticks ?s = ticks s" "io_trace ?s = io_trace s" by (simp_all add: idt_init_eq)
  moreover have "isr_handlers ?s ! 32 = Some Irq0_timer_handler" "32 < length (isr_handlers ?s)"
    using idt_init_nth(2,4) [of 32 isr irq a s] by (simp_all add: init_handlers_def)
  ultimately show ?thesis using timer_interrupts [of ?s fs hw] assms by simp
qed

definition timer_frame :: interrupt_frame_t where
  "timer_frame = \<lparr>f_ds = 0x10, f_edi = 0, f_esi = 0, f_ebp = 0, f_esp = 0, f_ebx = 0, f_edx = 0, f_ecx = 0, f_eax = 7,
     f_int_no = 32, f_err_code = 0, f_eip = 0x100000, f_cs = 0x08, f_eflags = 0x202, f_useresp = 0, f_ss = 0\<rparr>"

theorem timer_counts_witness:
  "\<exists>s'. interrupts (\<lambda>_ _. 0) [timer_frame, timer_frame] (idt_init (\<lambda>_. 0) (\<lambda>_. 0) 0 raw_kernel) = Returns s' \<and> ticks s' = 2"
  using timer_counts [of "[timer_frame, timer_frame]" "\<lambda>_ _. 0" "\<lambda>_. 0" "\<lambda>_. 0" 0 raw_kernel]
  by (simp add: timer_frame_def raw_kernel_def)

text \<open>
  C36. Exceptions stop the machine. Once \<open>idt_init\<close> has run, the five exceptions with a handler of their own
  (0, 6, 8, 13 and 14) halt with interrupts off; but no character of the report is on the screen:
  the screen is unchanged, and only the colour for later output is white on red. If the exception
  arises while the console is locked, the handler spins instead.
\<close>

theorem exceptions_halt:
  assumes "v \<in> {0, 6, 8, 13, 14 :: nat}" "f_int_no f = of_nat v"
  shows "let u = idt_init isr irq a s in isr_common_handler hw f u =
    (if locked (vga_lock s) = 0 then Halts (u\<lparr>int_flag := False, current_color_byte := 0x4F\<rparr>) else Stuck)"
proof -
  let ?u = "idt_init isr irq a s"
  obtain h where h: "map_of init_handlers (of_nat v) = Some h"
    "h \<in> {Isr_divide_by_zero, Isr_invalid_opcode, Isr_double_fault, Isr_general_protection, Isr_page_fault}"
    using assms(1) by (auto simp: init_handlers_def)
  have n: "v < 256" using assms(1) by auto
  have l: "vga_lock ?u = vga_lock s" by (simp add: idt_init_eq)
  have panic: "kernel_panic msg regs ?u = (if locked (vga_lock s) = 0
      then Halts (?u\<lparr>int_flag := False, current_color_byte := 0x4F\<rparr>) else Stuck)" for msg regs
    by (simp add: kernel_panic_def vga_set_colors_def vga_acquire_eq l vga_release_def spinlock_release_def spinlock_eta
        log_fatal_def vga_clear_screen_def vga_set_cursor_def Let_def)
  have "isr_common_handler hw f ?u = call_handler hw h f ?u"
    using idt_init_nth(2,4) [OF n, of isr irq a s] h(1) assms(2) n by (intro dispatch_idt [of _ v]) simp_all
  then show ?thesis using h(2)
    by (auto simp: Let_def call_handler_def panic isr_divide_by_zero_def isr_invalid_opcode_def isr_double_fault_def
        isr_general_protection_def isr_page_fault_def)
qed

theorem exceptions_halt_witness:
  "\<exists>s'. isr_common_handler (\<lambda>_ _. 0) (timer_frame\<lparr>f_int_no := 14\<rparr>) (idt_init (\<lambda>_. 0) (\<lambda>_. 0) 0 raw_kernel) = Halts s' \<and>
     \<not> int_flag s' \<and> VGA_MEMORY s' = VGA_MEMORY raw_kernel"
  using exceptions_halt [of 14 "timer_frame\<lparr>f_int_no := 14\<rparr>" "\<lambda>_. 0" "\<lambda>_. 0" 0 raw_kernel "\<lambda>_ _. 0"]
  by (simp add: raw_kernel_def Let_def idt_init_eq)

text \<open>
  C39. Interrupts without a handler of their own. The routine reads its frame shifted by one word: what it
  prints as the vector is the interrupted program's EAX, and it acknowledges the interrupt to the
  controllers exactly when EAX happens to lie between 32 and 47, to the controller of line EAX - 32;
  the real vector plays no part. An interrupt line that is not acknowledged stays blocked.
\<close>

theorem unhandled_decides_by_eax:
  assumes "vga_ok s" "v < 256" "map_of init_handlers (of_nat v) = None" "f_int_no f = of_nat v"
  shows "let u = idt_init isr irq a s in \<exists>s'. isr_common_handler hw f u = Returns s' \<and> ticks s' = ticks s \<and>
    writes_to pic_ports (io_trace s') = writes_to pic_ports (io_trace s) @
      (if f_eax f \<ge> 32 \<and> f_eax f \<le> 47 then
         (if f_eax f \<ge> 40 then [(0xA0, 0x20), (0x20, 0x20)] else [(0x20, 0x20)]) else [])"
proof -
  let ?u = "idt_init isr irq a s"
  have d: "isr_common_handler hw f ?u = isr_unhandled_interrupt (registers_at (frame_words f)) ?u"
    using idt_init_nth(2,4) [OF assms(2), of isr irq a s] assms(2-4) dispatch_idt [of ?u v Isr_unhandled_interrupt f hw]
    by (simp add: call_handler_def)
  have ok: "vga_ok ?u" using assms(1) by (simp add: idt_init_eq vga_ok_def cursor_ok_def)
  obtain s1 where s1: "log_warn ''Unhandled Interrupt (Vector: 0x%x, Error Code: 0x%x, EIP: 0x%x)''
      [Word (f_eax f), Word (f_int_no f), Word (f_err_code f)] ?u = Some s1" "only_console ?u s1"
    using log_words_k(2) [OF ok isr_formats(1), of "[f_eax f, f_int_no f, f_err_code f]"] by auto
  have t: "ticks s1 = ticks s" "writes_to pic_ports (io_trace s1) = writes_to pic_ports (io_trace s)"
    using only_console_ticks [OF s1(2)] only_console_writes [OF s1(2)] by (simp_all add: idt_init_eq)
  have ge: "ucast (f_eax f - 32) \<ge> (8::u8) \<longleftrightarrow> f_eax f \<ge> 40" if "f_eax f \<ge> 32" "f_eax f \<le> 47"
  proof -
    have u: "unat (f_eax f - 32) = unat (f_eax f) - 32" "unat (f_eax f) \<le> 47" "32 \<le> unat (f_eax f)"
      using that by (simp_all add: unat_sub word_le_nat_alt)
    then have "unat (ucast (f_eax f - 32) :: u8) = unat (f_eax f) - 32"
      by (simp add: unsigned_ucast_eq take_bit_eq_mod)
    then show ?thesis using u by (simp add: word_le_nat_alt) arith
  qed
  show ?thesis
    using s1(1) t ge by (auto simp: Let_def d isr_unhandled_interrupt_def pic_send_eoi_def outb_def c_const)
qed

theorem unhandled_decides_by_eax_witness:
  "\<exists>s'. isr_common_handler (\<lambda>_ _. 0) (timer_frame\<lparr>f_int_no := 39\<rparr>) (idt_init (\<lambda>_. 0) (\<lambda>_. 0) 0 raw_kernel) = Returns s' \<and>
     writes_to pic_ports (io_trace s') = []"
proof -
  have "vga_ok raw_kernel" by (simp add: raw_kernel_def vga_ok_def cursor_ok_def)
  then show ?thesis
    using unhandled_decides_by_eax [of raw_kernel 39 "timer_frame\<lparr>f_int_no := 39\<rparr>" "\<lambda>_. 0" "\<lambda>_. 0" 0 "\<lambda>_ _. 0"]
    by (auto simp: Let_def init_handlers_def timer_frame_def raw_kernel_def)
qed

text \<open>
  C31. The keyboard. On a console in order the handler reads the scan code once and returns; a release
  changes nothing on the screen; a press logs the key and, when the table has a character for it,
  puts that character; and every interrupt is acknowledged exactly once, to the master.
\<close>

theorem keyboard_handler_correct:
  fixes s :: "'a kernel"
  assumes "vga_ok s" "sc = hw (io_trace s) 0x60"
  shows "\<exists>s'. keyboard_handler hw f s = Returns s' \<and> vga_ok s' \<and> ticks s' = ticks s \<and>
    writes_to pic_ports (io_trace s') = writes_to pic_ports (io_trace s) @ [(0x20, 0x20)] \<and>
    terminal_of s' = (if sc < 0x80 then fold (vact term_put term_color) (key_output (ticks s) sc) (terminal_of s)
      else terminal_of s)"
proof (cases "sc < 0x80")
  case True
  let ?u = "s\<lparr>io_trace := io_trace s @ [Inb 0x60 sc]\<rparr>"
  have ok: "vga_ok ?u" using assms(1) by simp
  obtain s1 where s1: "act (key_output (ticks s) sc) ?u = Some s1" "vga_ok s1" "only_console ?u s1"
    "terminal_of s1 = fold (vact term_put term_color) (key_output (ticks s) sc) (terminal_of ?u)"
    using vga.perform_ok [OF ok, of "key_output (ticks s) sc"] by blast
  have "keyboard_handler hw f s = Returns (outb 0x20 0x20 s1)"
    using keyboard_handler_act [of sc hw s f] assms(2) True s1(1) by simp
  then show ?thesis
    using True s1(2,4) only_console_ticks [OF s1(3)] only_console_writes [OF s1(3)] by (simp add: outb_def terminal_of_def)
next
  case False
  then have "bit sc 7" by (simp add: u8_sign_bit)
  moreover have "bit (0x80 :: u8) 7" by (simp add: bit_numeral_rec)
  ultimately have "bit (sc AND 0x80) 7" by (simp add: bit_and_iff)
  then have "sc AND 0x80 \<noteq> 0" by auto
  then have "keyboard_handler hw f s = Returns (s\<lparr>io_trace := io_trace s @ [Inb 0x60 sc, Outb 0x20 0x20]\<rparr>)"
    using assms(2) by (simp add: keyboard_handler_def inb_def outb_def c_const Let_def)
  then show ?thesis using False assms(1) by (simp add: terminal_of_def)
qed

theorem keyboard_handler_correct_witness:
  "\<exists>s'. keyboard_handler (\<lambda>_ _. 0x1E) timer_frame raw_kernel = Returns s' \<and>
     terminal_of s' = fold (vact term_put term_color)
       (log_actions 32 ''[INFO] '' 0 (map Put (''Key: '' @ [CHR 0x27, CHR ''a'', CHR 0x27] @ '' (scancode=0x1E)'')) @ [Put CHR ''a''])
       (terminal_of raw_kernel)"
proof -
  have ok: "vga_ok raw_kernel" and t: "ticks raw_kernel = 0" by (simp_all add: raw_kernel_def vga_ok_def cursor_ok_def)
  have k: "key_output 0 0x1E = log_actions 32 ''[INFO] '' 0
      (map Put (''Key: '' @ [CHR 0x27, CHR ''a'', CHR 0x27] @ '' (scancode=0x1E)'')) @ [Put CHR ''a'']"
    by (simp add: key_output_def scancode_to_ascii_def SCANCODE_TABLE_SIZE_def key_message_def
        Let_def radix.simps [of 16 30] radix.simps [of 16 "Suc 0"] digit_def)
  have lt: "(0x1E::u8) < 0x80" by simp
  show ?thesis
    using keyboard_handler_correct [OF ok, of "0x1E" "\<lambda>_ _. 0x1E" timer_frame] unfolding t k if_P [OF lt] by blast
qed

text \<open>
  C40. A key press can hang the kernel. If the keyboard interrupt arrives while the interrupted code is
  inside the console driver, and so holds its lock, the handler spins on the lock forever: it
  neither returns nor acknowledges the interrupt.
\<close>

theorem keyboard_press_deadlocks:
  assumes "locked (vga_lock s) \<noteq> 0" "hw (io_trace s) 0x60 < 0x80"
  shows "keyboard_handler hw f s = Stuck"
proof -
  let ?u = "s\<lparr>io_trace := io_trace s @ [Inb 0x60 (hw (io_trace s) 0x60)]\<rparr>"
  have "\<exists>as. key_output t sc = Put CHR ''['' # as" for t sc by (auto simp: key_output_def log_actions_def Let_def)
  then obtain as where "key_output (ticks s) (hw (io_trace s) 0x60) = Put CHR ''['' # as" by blast
  moreover have "vga_put_char c ?u = None" for c using assms(1) by (simp add: vga_put_char_body vga_acquire_eq)
  ultimately show ?thesis using keyboard_handler_act [of "hw (io_trace s) 0x60" hw s f] assms(2) by simp
qed

theorem keyboard_press_deadlocks_witness:
  "\<exists>s. vga_acquire raw_kernel = Some s \<and> keyboard_handler (\<lambda>_ _. 0x1E) timer_frame s = Stuck"
  using keyboard_press_deadlocks [of "raw_kernel\<lparr>vga_lock := \<lparr>locked = 1\<rparr>\<rparr>" "\<lambda>_ _. 0x1E" timer_frame]
  by (simp add: vga_acquire_eq raw_kernel_def)

end
