(* ===== verification/Isr_Stubs.thy ===== *)
theory Isr_Stubs
  imports Isr_Properties Lib_Memory
begin

text \<open>
  The assembly around the C code: \<^verbatim>\<open>gdt_and_idt/isr_stubs.asm\<close>, through which every interrupt enters and
  leaves the kernel, and \<^verbatim>\<open>boot/boot.asm\<close>, the entry point. A program is its list of instructions, run
  one after the other on the registers and the byte memory of the processor. The dispatcher that the
  stubs call is \<open>isr_common_handler\<close>; what its compiled code does to registers and memory is a parameter,
  of which the stubs need what the calling convention promises.
\<close>

section \<open>The processor\<close>

datatype reg32 = EAX | ECX | EDX | EBX | ESP | EBP | ESI | EDI
datatype sreg = DS | ES | FS | GS

record x86 =
  gpr :: "reg32 \<Rightarrow> u32"
  seg :: "sreg \<Rightarrow> u16"
  cs_reg :: u16
  eip_reg :: u32
  eflags_reg :: u32
  ram :: mem32

datatype instr = PUSHA | POPA | PUSH reg32 | PUSH_DWORD u32 | POP reg32
  | MOV reg32 reg32 | MOV_DWORD reg32 u32 | MOV_FROM_SEG reg32 sreg | MOV_AX u16 | MOV_SEG_AX sreg
  | ADD_ESP u32 | CALL | IRET | CLI

definition push :: "u32 \<Rightarrow> x86 \<Rightarrow> x86" where
  "push v m = m\<lparr>gpr := (gpr m)(ESP := gpr m ESP - 4), ram := store_le (ram m) (gpr m ESP - 4) 4 v\<rparr>"

definition top_word :: "x86 \<Rightarrow> u32" where
  "top_word m = load_le (ram m) (gpr m ESP) 4"

definition drop_words :: "u32 \<Rightarrow> x86 \<Rightarrow> x86" where
  "drop_words n m = m\<lparr>gpr := (gpr m)(ESP := gpr m ESP + n)\<rparr>"

definition pop :: "reg32 \<Rightarrow> x86 \<Rightarrow> x86" where
  "pop r m = (drop_words 4 m)\<lparr>gpr := (gpr (drop_words 4 m))(r := top_word m)\<rparr>"

text \<open>\<^verbatim>\<open>pusha\<close> stores the stack pointer from before, \<^verbatim>\<open>popa\<close> skips it. A segment register is read with
  zeros in the upper half. \<^verbatim>\<open>iret\<close> is the return within the kernel, which pops three words.\<close>

fun exec :: "(x86 \<times> 's \<Rightarrow> (x86 \<times> 's) outcome) \<Rightarrow> u32 \<Rightarrow> instr \<Rightarrow> x86 \<times> 's \<Rightarrow> (x86 \<times> 's) outcome" where
  "exec callee ra PUSHA (m, s) = Returns (fold push (map (gpr m) [EAX, ECX, EDX, EBX, ESP, EBP, ESI, EDI]) m, s)"
| "exec callee ra POPA (m, s) = Returns ((pop EAX \<circ> pop ECX \<circ> pop EDX \<circ> pop EBX \<circ> drop_words 4 \<circ> pop EBP \<circ> pop ESI \<circ> pop EDI) m, s)"
| "exec callee ra (PUSH r) (m, s) = Returns (push (gpr m r) m, s)"
| "exec callee ra (PUSH_DWORD v) (m, s) = Returns (push v m, s)"
| "exec callee ra (POP r) (m, s) = Returns (pop r m, s)"
| "exec callee ra (MOV r q) (m, s) = Returns (m\<lparr>gpr := (gpr m)(r := gpr m q)\<rparr>, s)"
| "exec callee ra (MOV_DWORD r v) (m, s) = Returns (m\<lparr>gpr := (gpr m)(r := v)\<rparr>, s)"
| "exec callee ra (MOV_FROM_SEG r q) (m, s) = Returns (m\<lparr>gpr := (gpr m)(r := ucast (seg m q))\<rparr>, s)"
| "exec callee ra (MOV_AX v) (m, s) = Returns (m\<lparr>gpr := (gpr m)(EAX := gpr m EAX AND NOT 0xFFFF OR ucast v)\<rparr>, s)"
| "exec callee ra (MOV_SEG_AX q) (m, s) = Returns (m\<lparr>seg := (seg m)(q := ucast (gpr m EAX))\<rparr>, s)"
| "exec callee ra (ADD_ESP n) (m, s) = Returns (drop_words n m, s)"
| "exec callee ra CALL (m, s) = callee (push ra m, s)"
| "exec callee ra IRET (m, s) =
     (let w0 = top_word m; w1 = top_word (drop_words 4 m); w2 = top_word (drop_words 8 m)
      in Returns ((drop_words 12 m)\<lparr>eip_reg := w0, cs_reg := ucast w1, eflags_reg := w2\<rparr>, s))"
| "exec callee ra CLI (m, s) = Returns (m\<lparr>eflags_reg := eflags_reg m AND NOT 0x200\<rparr>, s)"

fun run :: "(x86 \<times> 's \<Rightarrow> (x86 \<times> 's) outcome) \<Rightarrow> u32 \<Rightarrow> instr list \<Rightarrow> x86 \<times> 's \<Rightarrow> (x86 \<times> 's) outcome" where
  "run callee ra [] st = Returns st"
| "run callee ra (i # is) st =
     (case exec callee ra i st of Returns st' \<Rightarrow> run callee ra is st' | Halts st' \<Rightarrow> Halts st' | Stuck \<Rightarrow> Stuck)"

section \<open>The interrupt stubs\<close>

definition isr_common_stub :: "instr list" where
  "isr_common_stub =
    [PUSHA,
     MOV_FROM_SEG EAX DS, PUSH EAX,
     MOV_AX 0x10, MOV_SEG_AX DS, MOV_SEG_AX ES, MOV_SEG_AX FS, MOV_SEG_AX GS,
     PUSH ESP, CALL, ADD_ESP 4,
     POP EAX, MOV_SEG_AX DS, MOV_SEG_AX ES, MOV_SEG_AX FS, MOV_SEG_AX GS,
     POPA,
     ADD_ESP 8,
     IRET]"

datatype stub = ISR_NO_ERR u32 | ISR_ERR u32 | IRQ u32 u32

fun stub_code :: "stub \<Rightarrow> instr list" where
  "stub_code (ISR_NO_ERR v) = [PUSH_DWORD 0, PUSH_DWORD v]"
| "stub_code (ISR_ERR v) = [PUSH_DWORD v]"
| "stub_code (IRQ i v) = [PUSH_DWORD 0, PUSH_DWORD v]"

fun stub_vector :: "stub \<Rightarrow> u32" where
  "stub_vector (ISR_NO_ERR v) = v"
| "stub_vector (ISR_ERR v) = v"
| "stub_vector (IRQ i v) = v"

definition isr_stubs :: "stub list" where
  "isr_stubs =
    [ISR_NO_ERR 0, ISR_NO_ERR 1, ISR_NO_ERR 2, ISR_NO_ERR 3, ISR_NO_ERR 4, ISR_NO_ERR 5, ISR_NO_ERR 6, ISR_NO_ERR 7,
     ISR_ERR 8, ISR_NO_ERR 9, ISR_ERR 10, ISR_ERR 11, ISR_ERR 12, ISR_ERR 13, ISR_ERR 14, ISR_NO_ERR 15,
     ISR_NO_ERR 16, ISR_ERR 17, ISR_NO_ERR 18, ISR_NO_ERR 19, ISR_NO_ERR 20, ISR_NO_ERR 21,
     IRQ 0 32, IRQ 1 33, IRQ 2 34, IRQ 3 35, IRQ 4 36, IRQ 5 37, IRQ 6 38, IRQ 7 39,
     IRQ 8 40, IRQ 9 41, IRQ 10 42, IRQ 11 43, IRQ 12 44, IRQ 13 45, IRQ 14 46, IRQ 15 47]"

text \<open>The frame that the dispatcher finds at the address it is given.\<close>

definition frame_at :: "mem32 \<Rightarrow> u32 \<Rightarrow> interrupt_frame_t" where
  "frame_at m p = \<lparr>f_ds = load_le m p 4, f_edi = load_le m (p + 4) 4, f_esi = load_le m (p + 8) 4, f_ebp = load_le m (p + 12) 4,
     f_esp = load_le m (p + 16) 4, f_ebx = load_le m (p + 20) 4, f_edx = load_le m (p + 24) 4, f_ecx = load_le m (p + 28) 4,
     f_eax = load_le m (p + 32) 4, f_int_no = load_le m (p + 36) 4, f_err_code = load_le m (p + 40) 4,
     f_eip = load_le m (p + 44) 4, f_cs = load_le m (p + 48) 4, f_eflags = load_le m (p + 52) 4,
     f_useresp = load_le m (p + 56) 4, f_ss = load_le m (p + 60) 4\<rparr>"

text \<open>
  The call of the dispatcher: its argument lies above the return address. \<open>cc\<close> is what the compiled
  code has done to the processor when it returns.
\<close>

definition call_dispatcher :: "hardware \<Rightarrow> (x86 \<Rightarrow> x86) \<Rightarrow> x86 \<times> 'a kernel \<Rightarrow> (x86 \<times> 'a kernel) outcome" where
  "call_dispatcher hw cc = (\<lambda>(m, s).
     case isr_common_handler hw (frame_at (ram m) (load_le (ram m) (gpr m ESP + 4) 4)) s of
       Returns s' \<Rightarrow> Returns (cc m, s')
     | Halts s' \<Rightarrow> Halts (m, s')
     | Stuck \<Rightarrow> Stuck)"

text \<open>
  The processor's part, by its manual: through an interrupt gate and within the kernel it pushes
  flags, code segment and instruction pointer, for some exceptions an error code, and clears the
  trap and interrupt flags.
\<close>

definition pushes_error_code :: "u32 \<Rightarrow> bool" where
  "pushes_error_code v \<longleftrightarrow> v \<in> {8, 10, 11, 12, 13, 14, 17}"

definition deliver :: "u32 \<Rightarrow> u32 \<Rightarrow> x86 \<Rightarrow> x86" where
  "deliver v err m =
     (let m' = fold push ([eflags_reg m, ucast (cs_reg m), eip_reg m] @ (if pushes_error_code v then [err] else [])) m
      in m'\<lparr>eflags_reg := eflags_reg m' AND NOT 0x300\<rparr>)"

definition take_interrupt :: "hardware \<Rightarrow> (x86 \<Rightarrow> x86) \<Rightarrow> u32 \<Rightarrow> stub \<Rightarrow> u32 \<Rightarrow> x86 \<times> 'a kernel \<Rightarrow> (x86 \<times> 'a kernel) outcome" where
  "take_interrupt hw cc ra t err = (\<lambda>(m, s).
     run (call_dispatcher hw cc) ra (stub_code t @ isr_common_stub) (deliver (stub_vector t) err m, s))"

text \<open>
  The calling convention, for a caller with \<open>n\<close> bytes of stack above the argument: the return address
  has been popped, the registers that a callee saves and the segments have their values, and the
  caller's stack is as it was. The argument itself belongs to the callee.
\<close>

definition cdecl :: "nat \<Rightarrow> (x86 \<Rightarrow> x86) \<Rightarrow> bool" where
  "cdecl n cc \<longleftrightarrow> (\<forall>m. gpr (cc m) ESP = gpr m ESP + 4 \<and>
     gpr (cc m) EBX = gpr m EBX \<and> gpr (cc m) EBP = gpr m EBP \<and> gpr (cc m) ESI = gpr m ESI \<and> gpr (cc m) EDI = gpr m EDI \<and>
     seg (cc m) = seg m \<and> cs_reg (cc m) = cs_reg m \<and>
     (\<forall>x \<in> region (gpr m ESP + 8) n. ram (cc m) x = ram m x))"

section \<open>Stacks of words\<close>

primrec words_at :: "mem32 \<Rightarrow> u32 \<Rightarrow> u32 list \<Rightarrow> bool" where
  "words_at m p [] \<longleftrightarrow> True"
| "words_at m p (w # ws) \<longleftrightarrow> load_le m p 4 = w \<and> words_at m (p + 4) ws"

lemma words_at_cong:
  "(\<And>x. x \<in> region p (4 * length ws) \<Longrightarrow> m x = m' x) \<Longrightarrow> 4 * length ws < 2 ^ 32 \<Longrightarrow> words_at m p ws = words_at m' p ws"
proof (induction ws arbitrary: p)
  case Nil
  then show ?case by simp
next
  case (Cons w ws)
  have r: "x \<in> region p (4 * length (w # ws))" if "x \<in> region p 4 \<or> x \<in> region (p + 4) (4 * length ws)" for x
  proof -
    from that consider "unat (x - p) < 4" | i where "i < 4 * length ws" "x = p + 4 + of_nat i"
      by (auto simp: region_def [of p] mem_region_offset)
    then show ?thesis
    proof cases
      case 2
      then have "x = p + of_nat (i + 4)" "i + 4 < 4 * length (w # ws)" by simp_all
      then show ?thesis by blast
    qed (simp add: region_def)
  qed
  have "load_le m p 4 = (load_le m' p 4 :: u32)" using Cons.prems(1) r by (intro load_le_cong) blast
  moreover have "words_at m (p + 4) ws = words_at m' (p + 4) ws" using Cons.prems r by (intro Cons.IH) auto
  ultimately show ?case by simp
qed

lemma words_at_append: "words_at m p (vs @ ws) \<longleftrightarrow> words_at m p vs \<and> words_at m (p + 4 * of_nat (length vs)) ws"
  by (induction vs arbitrary: p) (simp_all add: algebra_simps)

abbreviation stack :: "x86 \<Rightarrow> u32 list \<Rightarrow> bool" where
  "stack m ws \<equiv> words_at (ram m) (gpr m ESP) ws"

lemma push_fields [simp]:
  "seg (push v m) = seg m" "cs_reg (push v m) = cs_reg m" "eip_reg (push v m) = eip_reg m" "eflags_reg (push v m) = eflags_reg m"
  "gpr (push v m) = (gpr m)(ESP := gpr m ESP - 4)"
  by (simp_all add: push_def)

lemma drop_words_fields [simp]:
  "seg (drop_words n m) = seg m" "cs_reg (drop_words n m) = cs_reg m" "eip_reg (drop_words n m) = eip_reg m"
  "eflags_reg (drop_words n m) = eflags_reg m" "ram (drop_words n m) = ram m"
  "gpr (drop_words n m) = (gpr m)(ESP := gpr m ESP + n)"
  by (simp_all add: drop_words_def)

lemma pop_fields [simp]:
  "seg (pop r m) = seg m" "cs_reg (pop r m) = cs_reg m" "eip_reg (pop r m) = eip_reg m" "eflags_reg (pop r m) = eflags_reg m"
  "ram (pop r m) = ram m" "gpr (pop r m) = (gpr m)(ESP := gpr m ESP + 4, r := top_word m)"
  by (simp_all add: pop_def)

lemma region_below: "n + k \<le> 2 ^ 32 \<Longrightarrow> region (p - of_nat k) k \<inter> region (p :: u32) n = {}"
proof -
  assume nk: "n + k \<le> 2 ^ 32"
  show ?thesis
  proof (rule ccontr)
    assume "region (p - of_nat k) k \<inter> region p n \<noteq> {}"
    then obtain i j where ij: "i < k" "j < n" "p - of_nat k + of_nat i = p + of_nat j"
      by (auto simp: mem_region_offset)
    then have "unat (of_nat i :: u32) = unat (of_nat (k + j) :: u32)" by (simp add: algebra_simps)
    then have "i = k + j" using ij nk by (simp only: unat_of_nat) simp
    with ij show False by simp
  qed
qed

lemma region_shift:
  assumes "x \<in> region (p :: u32) n"
  shows "x \<in> region (p - of_nat k) (n + k)"
proof -
  obtain i where i: "i < n" "x = p + of_nat i" using assms by (auto simp: mem_region_offset)
  then have "x = p - of_nat k + of_nat (i + k)" by simp
  then show ?thesis using i(1) by (metis add_less_cancel_right region_member)
qed

lemma stack_push:
  assumes "stack m ws" "4 * length ws + 4 < 2 ^ 32"
  shows "stack (push v m) (v # ws)"
proof -
  have "words_at (store_le (ram m) (gpr m ESP - 4) 4 v) (gpr m ESP) ws = words_at (ram m) (gpr m ESP) ws"
    using region_below [of "4 * length ws" 4 "gpr m ESP"] assms(2)
    by (intro words_at_cong store_le_outside) auto
  then show ?thesis using assms(1) by (simp add: push_def load_store_same)
qed

lemma stack_pushes:
  "stack m ws \<Longrightarrow> 4 * (length vs + length ws) < 2 ^ 32 \<Longrightarrow> stack (fold push vs m) (rev vs @ ws)"
proof (induction vs arbitrary: m ws)
  case (Cons v vs)
  then show ?case using Cons.IH [OF stack_push [of m ws v]] by simp
qed simp

lemma pushes_fields [simp]:
  "seg (fold push vs m) = seg m" "cs_reg (fold push vs m) = cs_reg m" "eip_reg (fold push vs m) = eip_reg m"
  "eflags_reg (fold push vs m) = eflags_reg m"
  "gpr (fold push vs m) = (gpr m)(ESP := gpr m ESP - 4 * of_nat (length vs))"
  by (induction vs arbitrary: m) (simp_all add: algebra_simps)

lemma push_above:
  assumes "x \<in> region (gpr m ESP) n" "n + 4 \<le> 2 ^ 32"
  shows "ram (push v m) x = ram m x"
  using assms region_below [of n 4 "gpr m ESP"] by (auto simp: push_def intro: store_le_outside)

lemma pushes_above:
  "x \<in> region (gpr m ESP) n \<Longrightarrow> n + 4 * length vs \<le> 2 ^ 32 \<Longrightarrow> ram (fold push vs m) x = ram m x"
proof (induction vs arbitrary: m n)
  case (Cons v vs)
  have "x \<in> region (gpr (push v m) ESP) (n + 4)" using region_shift [OF Cons.prems(1), of 4] by simp
  then have "ram (fold push (v # vs) m) x = ram (push v m) x" using Cons.IH [of "push v m" "n + 4"] Cons.prems(2) by simp
  then show ?case using push_above [OF Cons.prems(1)] Cons.prems(2) by simp
qed simp

section \<open>Running the stubs\<close>

lemma run_append:
  "run callee ra (xs @ ys) st =
     (case run callee ra xs st of Returns st' \<Rightarrow> run callee ra ys st' | Halts st' \<Rightarrow> Halts st' | Stuck \<Rightarrow> Stuck)"
  by (induction xs arbitrary: st) (simp_all split: outcome.split)

lemma frame_at_words: "words_at m p (frame_words f) \<Longrightarrow> frame_at m p = f"
  by (simp add: frame_words_def frame_at_def add.commute)

lemma stub_vectors: "map stub_vector isr_stubs = map of_nat ([0..<22] @ [32..<48])"
  by (simp add: isr_stubs_def upt_rec)

text \<open>Whatever the vector, the common part finds an error code and the vector on the stack.\<close>

lemma stub_entry:
  assumes "t \<in> set isr_stubs"
  shows "run callee ra (stub_code t @ is) (deliver (stub_vector t) err m, s) =
    run callee ra is ((fold push [eflags_reg m, ucast (cs_reg m), eip_reg m,
        if pushes_error_code (stub_vector t) then err else 0, stub_vector t] m)\<lparr>eflags_reg := eflags_reg m AND NOT 0x300\<rparr>, s)"
proof -
  have e: "(push v m)\<lparr>eflags_reg := e\<rparr> = push v (m\<lparr>eflags_reg := e\<rparr>)" for v e and m :: x86 by (simp add: push_def)
  from assms have "case t of ISR_ERR v \<Rightarrow> pushes_error_code v | ISR_NO_ERR v \<Rightarrow> \<not> pushes_error_code v | IRQ i v \<Rightarrow> \<not> pushes_error_code v"
    unfolding isr_stubs_def by (auto simp: pushes_error_code_def)
  then show ?thesis by (cases t) (simp_all add: deliver_def Let_def e)
qed

lemma popw_eq:
  "pop r \<lparr>gpr = g, seg = q, cs_reg = c, eip_reg = i, eflags_reg = f, ram = a\<rparr> =
     \<lparr>gpr = g(ESP := g ESP + 4, r := load_le a (g ESP) 4), seg = q, cs_reg = c, eip_reg = i, eflags_reg = f, ram = a\<rparr>"
  by (simp add: pop_def drop_words_def top_word_def)

lemma dropw_eq:
  "drop_words n \<lparr>gpr = g, seg = q, cs_reg = c, eip_reg = i, eflags_reg = f, ram = a\<rparr> =
     \<lparr>gpr = g(ESP := g ESP + n), seg = q, cs_reg = c, eip_reg = i, eflags_reg = f, ram = a\<rparr>"
  by (simp add: drop_words_def)

lemma all_segments: "(\<lambda>_. v) = q(DS := v, ES := v, FS := v, GS := v)"
  by (rule ext, rename_tac r, case_tac r) simp_all

lemma stub_exit:
  assumes "words_at (ram m) p [d, di, si, bp, x, bx, dx, cx, ax, i, e, ip, c, fl]" "gpr m ESP = p - 4"
  shows "run callee ra [ADD_ESP 4, POP EAX, MOV_SEG_AX DS, MOV_SEG_AX ES, MOV_SEG_AX FS, MOV_SEG_AX GS, POPA, ADD_ESP 8, IRET] (m, s) =
    Returns (m\<lparr>gpr := case_reg32 ax cx dx bx (p + 56) bp si di, seg := \<lambda>_. ucast d,
      cs_reg := ucast c, eip_reg := ip, eflags_reg := fl\<rparr>, s)"
proof -
  obtain g q cs ip' fl' a where m: "m = \<lparr>gpr = g, seg = q, cs_reg = cs, eip_reg = ip', eflags_reg = fl', ram = a\<rparr>" by (cases m)
  have g: "g ESP = p - 4" and h: "words_at a p [d, di, si, bp, x, bx, dx, cx, ax, i, e, ip, c, fl]" using assms m by simp_all
  have "case_reg32 ax cx dx bx (p + 56) bp si di = g(EDI := di, ESI := si, EBP := bp, EBX := bx, EDX := dx, ECX := cx, EAX := ax, ESP := p + 56)"
    by (rule ext, rename_tac r, case_tac r) simp_all
  then show ?thesis unfolding m using h all_segments [of "ucast d" q]
    by (simp add: popw_eq dropw_eq g top_word_def Let_def fun_upd_twist add.commute)
qed

text \<open>The processor when the dispatcher is entered, and that it is entered with the frame.\<close>

definition at_call :: "u32 \<Rightarrow> x86 \<Rightarrow> x86" where
  "at_call ra m =
     (let m = fold push (map (gpr m) [EAX, ECX, EDX, EBX, ESP, EBP, ESI, EDI] @ [ucast (seg m DS)]) m
      in fold push [gpr m ESP, ra] (m\<lparr>gpr := (gpr m)(EAX := ucast (seg m DS) AND NOT 0xFFFF OR 0x10), seg := \<lambda>_. 0x10\<rparr>))"

lemma low_word_set: "(ucast ((x :: u32) AND NOT 0xFFFF OR 0x10) :: u16) = 0x10"
proof -
  have m: "(0xFFFF :: u32) = mask 16" by (simp add: mask_eq_exp_minus_1)
  show ?thesis unfolding m by (auto intro!: bit_word_eqI simp: bit_simps)
qed

lemma switch_segments:
  "run callee ra [MOV_FROM_SEG EAX DS, PUSH EAX, MOV_AX 0x10, MOV_SEG_AX DS, MOV_SEG_AX ES, MOV_SEG_AX FS, MOV_SEG_AX GS, PUSH ESP] (m, s) =
     (let m = push (ucast (seg m DS)) m
      in Returns (push (gpr m ESP) (m\<lparr>gpr := (gpr m)(EAX := ucast (seg m DS) AND NOT 0xFFFF OR 0x10), seg := \<lambda>_. 0x10\<rparr>), s))"
  unfolding all_segments [of "0x10" "seg m"]
  by (cases m) (simp add: push_def low_word_set [simplified] fun_upd_twist)

lemma common_stub_runs:
  "run callee ra isr_common_stub (m, s) =
     (case callee (at_call ra m, s) of
        Returns st \<Rightarrow> run callee ra [ADD_ESP 4, POP EAX, MOV_SEG_AX DS, MOV_SEG_AX ES, MOV_SEG_AX FS, MOV_SEG_AX GS, POPA, ADD_ESP 8, IRET] st
      | Halts st \<Rightarrow> Halts st | Stuck \<Rightarrow> Stuck)"
proof -
  let ?m = "fold push (map (gpr m) [EAX, ECX, EDX, EBX, ESP, EBP, ESI, EDI]) m"
  have c: "isr_common_stub = [PUSHA] @ [MOV_FROM_SEG EAX DS, PUSH EAX, MOV_AX 0x10, MOV_SEG_AX DS, MOV_SEG_AX ES, MOV_SEG_AX FS, MOV_SEG_AX GS, PUSH ESP] @
      [CALL, ADD_ESP 4, POP EAX, MOV_SEG_AX DS, MOV_SEG_AX ES, MOV_SEG_AX FS, MOV_SEG_AX GS, POPA, ADD_ESP 8, IRET]"
    by (simp add: isr_common_stub_def)
  have p: "run callee ra [PUSHA] (m, s) = Returns (?m, s)" by simp
  show ?thesis unfolding c run_append p outcome.case switch_segments by (simp add: Let_def at_call_def)
qed

lemma at_call_esp: "gpr (at_call ra m) ESP = gpr m ESP - 44"
  by (simp add: at_call_def Let_def)

lemma at_call_stack:
  assumes "stack m ws" "4 * length ws + 44 < 2 ^ 32"
  shows "stack (at_call ra m) ([ra, gpr m ESP - 36, ucast (seg m DS)] @ map (gpr m) [EDI, ESI, EBP, ESP, EBX, EDX, ECX, EAX] @ ws)"
proof -
  let ?vs = "map (gpr m) [EAX, ECX, EDX, EBX, ESP, EBP, ESI, EDI] @ [ucast (seg m DS)]"
  let ?m = "fold push ?vs m"
  let ?n = "?m\<lparr>gpr := (gpr ?m)(EAX := ucast (seg ?m DS) AND NOT 0xFFFF OR 0x10), seg := \<lambda>_. 0x10\<rparr>"
  have "stack ?m (rev ?vs @ ws)" using assms by (intro stack_pushes) simp_all
  then have "stack ?n (rev ?vs @ ws)" by (simp del: fold_simps)
  then have "stack (fold push [gpr ?m ESP, ra] ?n) (rev [gpr ?m ESP, ra] @ rev ?vs @ ws)"
    using assms(2) by (intro stack_pushes) simp_all
  moreover have "gpr ?m ESP = gpr m ESP - 36" by (simp del: fold_simps)
  ultimately show ?thesis by (simp add: at_call_def Let_def del: fold_simps)
qed

lemma at_call_above:
  assumes "x \<in> region (gpr m ESP) n" "n + 44 \<le> 2 ^ 32"
  shows "ram (at_call ra m) x = ram m x"
proof -
  let ?vs = "map (gpr m) [EAX, ECX, EDX, EBX, ESP, EBP, ESI, EDI] @ [ucast (seg m DS)]"
  let ?m = "fold push ?vs m"
  let ?n = "?m\<lparr>gpr := (gpr ?m)(EAX := ucast (seg ?m DS) AND NOT 0xFFFF OR 0x10), seg := \<lambda>_. 0x10\<rparr>"
  have "x \<in> region (gpr ?n ESP) (n + 36)" using region_shift [OF assms(1), of 36] by (simp del: fold_simps)
  moreover have "n + 36 + 4 * length [gpr ?m ESP, ra] \<le> 2 ^ 32" using assms(2) by simp
  ultimately have "ram (fold push [gpr ?m ESP, ra] ?n) x = ram ?n x" by (rule pushes_above)
  also have "\<dots> = ram m x" using pushes_above [OF assms(1), of ?vs] assms(2) by (simp del: fold_simps)
  finally show ?thesis by (simp add: at_call_def Let_def del: fold_simps)
qed

text \<open>The frame of an interrupt, in terms of what was interrupted.\<close>

definition interrupt_frame :: "u32 \<Rightarrow> u32 \<Rightarrow> x86 \<Rightarrow> interrupt_frame_t" where
  "interrupt_frame v err m = \<lparr>f_ds = ucast (seg m DS), f_edi = gpr m EDI, f_esi = gpr m ESI, f_ebp = gpr m EBP,
     f_esp = gpr m ESP - 20, f_ebx = gpr m EBX, f_edx = gpr m EDX, f_ecx = gpr m ECX, f_eax = gpr m EAX,
     f_int_no = v, f_err_code = (if pushes_error_code v then err else 0),
     f_eip = eip_reg m, f_cs = ucast (cs_reg m), f_eflags = eflags_reg m,
     f_useresp = load_le (ram m) (gpr m ESP) 4, f_ss = load_le (ram m) (gpr m ESP + 4) 4\<rparr>"

definition entered :: "u32 \<Rightarrow> u32 \<Rightarrow> x86 \<Rightarrow> x86" where
  "entered v err m = (fold push [eflags_reg m, ucast (cs_reg m), eip_reg m, if pushes_error_code v then err else 0, v] m)
     \<lparr>eflags_reg := eflags_reg m AND NOT 0x300\<rparr>"

lemma entered_fields: "gpr (entered v err m) = (gpr m)(ESP := gpr m ESP - 20)" "seg (entered v err m) = seg m"
  by (simp_all add: entered_def)

lemma entered_frame:
  "stack (at_call ra (entered v err m)) ([ra, gpr m ESP - 56] @ frame_words (interrupt_frame v err m))"
proof -
  have "stack m [load_le (ram m) (gpr m ESP) 4, load_le (ram m) (gpr m ESP + 4) 4]" by simp
  from stack_pushes [OF this, of "[eflags_reg m, ucast (cs_reg m), eip_reg m, if pushes_error_code v then err else 0, v]"]
  have "stack (entered v err m) [v, if pushes_error_code v then err else 0, eip_reg m, ucast (cs_reg m), eflags_reg m,
      load_le (ram m) (gpr m ESP) 4, load_le (ram m) (gpr m ESP + 4) 4]" by (simp add: entered_def)
  from at_call_stack [OF this, of ra] show ?thesis
    by (simp add: entered_fields frame_words_def interrupt_frame_def del: words_at.simps)
qed

lemma take_interrupt_runs:
  assumes "t \<in> set isr_stubs"
  shows "take_interrupt hw cc ra t err (m, s) =
    (let c = at_call ra (entered (stub_vector t) err m) in
     case isr_common_handler hw (interrupt_frame (stub_vector t) err m) s of
       Returns s' \<Rightarrow> run (call_dispatcher hw cc) ra
         [ADD_ESP 4, POP EAX, MOV_SEG_AX DS, MOV_SEG_AX ES, MOV_SEG_AX FS, MOV_SEG_AX GS, POPA, ADD_ESP 8, IRET] (cc c, s')
     | Halts s' \<Rightarrow> Halts (c, s')
     | Stuck \<Rightarrow> Stuck)"
proof -
  let ?v = "stub_vector t"
  let ?c = "at_call ra (entered ?v err m)"
  have p: "load_le (ram ?c) (gpr ?c ESP + 4) 4 = gpr m ESP - 56" using entered_frame [of ra ?v err m] by simp
  have e: "gpr ?c ESP + 8 = gpr m ESP - 56" by (simp add: at_call_esp entered_fields)
  have "words_at (ram ?c) (gpr m ESP - 56) (frame_words (interrupt_frame ?v err m))"
    using entered_frame [of ra ?v err m] e by (simp add: words_at_append add.assoc del: add_uminus_conv_diff)
  then have "frame_at (ram ?c) (gpr m ESP - 56) = interrupt_frame ?v err m" by (rule frame_at_words)
  with p show ?thesis
    unfolding take_interrupt_def prod.case stub_entry [OF assms] entered_def [symmetric] common_stub_runs
    by (simp add: call_dispatcher_def Let_def split: outcome.split)
qed

lemma interrupted_memory:
  assumes "x \<in> region (gpr m ESP) n" "n + 64 \<le> 2 ^ 32"
  shows "ram (at_call ra (entered v err m)) x = ram m x"
proof -
  have "x \<in> region (gpr (entered v err m) ESP) (n + 20)" using region_shift [OF assms(1), of 20] by (simp add: entered_fields)
  moreover have "n + 20 + 44 \<le> 2 ^ 32" using assms(2) by simp
  ultimately have "ram (at_call ra (entered v err m)) x = ram (entered v err m) x" by (rule at_call_above)
  also have "\<dots> = ram m x"
    using pushes_above [OF assms(1), of "[eflags_reg m, ucast (cs_reg m), eip_reg m, if pushes_error_code v then err else 0, v]"] assms(2)
    by (simp add: entered_def)
  finally show ?thesis .
qed

lemma selector_cast [simp]: "(ucast (ucast (x :: u16) :: u32) :: u16) = x"
  by (rule bit_word_eqI) (auto simp: bit_ucast_iff dest: bit_imp_le_length)

lemma interrupt_returns:
  assumes "t \<in> set isr_stubs" "cdecl n cc" "56 \<le> n" "n + 8 \<le> 2 ^ 32"
    "isr_common_handler hw (interrupt_frame (stub_vector t) err m) s = Returns s'"
  shows "\<exists>m'. take_interrupt hw cc ra t err (m, s) = Returns (m', s') \<and> gpr m' = gpr m \<and> seg m' = (\<lambda>_. seg m DS) \<and>
    cs_reg m' = cs_reg m \<and> eip_reg m' = eip_reg m \<and> eflags_reg m' = eflags_reg m \<and>
    (\<forall>x \<in> region (gpr m ESP) (n - 56). ram m' x = ram m x)"
proof -
  let ?v = "stub_vector t" and ?p = "gpr m ESP - 56"
  let ?w = "entered ?v err m"
  let ?c = "at_call ra ?w"
  let ?f = "interrupt_frame ?v err m"
  have e: "gpr ?c ESP + 8 = ?p" by (simp add: at_call_esp entered_fields)
  have cc: "gpr (cc ?c) ESP = ?p - 4" "\<And>x. x \<in> region ?p n \<Longrightarrow> ram (cc ?c) x = ram ?c x"
    using assms(2) unfolding cdecl_def e [symmetric] by simp_all
  have "words_at (ram ?c) ?p (take 14 (frame_words ?f) @ drop 14 (frame_words ?f))"
    using entered_frame [of ra ?v err m] e unfolding append_take_drop_id by (simp add: add.assoc del: add_uminus_conv_diff)
  then have "words_at (ram ?c) ?p (take 14 (frame_words ?f))" unfolding words_at_append by blast
  moreover have "ram (cc ?c) x = ram ?c x" if "x \<in> region ?p (4 * length (take 14 (frame_words ?f)))" for x
    using cc(2) [of x] that assms(3) by (simp add: region_def frame_words_def)
  ultimately have "words_at (ram (cc ?c)) ?p (take 14 (frame_words ?f))"
    using words_at_cong [of ?p "take 14 (frame_words ?f)" "ram (cc ?c)" "ram ?c"] by (simp add: frame_words_def)
  then have h: "words_at (ram (cc ?c)) ?p [ucast (seg m DS), gpr m EDI, gpr m ESI, gpr m EBP, gpr m ESP - 20, gpr m EBX, gpr m EDX,
      gpr m ECX, gpr m EAX, ?v, if pushes_error_code ?v then err else 0, eip_reg m, ucast (cs_reg m), eflags_reg m]"
    by (simp add: frame_words_def interrupt_frame_def del: words_at.simps)
  have g: "case_reg32 (gpr m EAX) (gpr m ECX) (gpr m EDX) (gpr m EBX) (?p + 56) (gpr m EBP) (gpr m ESI) (gpr m EDI) = gpr m"
    by (rule ext, rename_tac r, case_tac r) simp_all
  have "ram (cc ?c) x = ram m x" if "x \<in> region (gpr m ESP) (n - 56)" for x
    using interrupted_memory [OF that, of ra ?v err] cc(2) [of x] region_shift [OF that, of 56] assms(3,4) by simp
  then show ?thesis
    using stub_exit [OF h cc(1), of "call_dispatcher hw cc" ra s'] assms(5)
    unfolding take_interrupt_runs [OF assms(1)] g by (simp add: Let_def del: run.simps)
qed

text \<open>
  C5. Interrupts are transparent. Whatever the vector, the stubs hand the dispatcher the frame that
  describes the interrupted program: its registers, its instruction pointer and flags, the vector,
  and the error code where the processor supplies one, else 0. When the dispatcher returns, all
  general registers, the stack pointer included, the instruction pointer, code segment and flags,
  with them the interrupt flag, and the stack of the interrupted program are what they were, whatever
  the compiled dispatcher did within the calling convention; the other data segments become equal
  to the data segment. When the dispatcher halts or hangs, so does the interrupt.
\<close>

theorem interrupt_transparent:
  assumes "t \<in> set isr_stubs" "cdecl n cc" "56 \<le> n" "n + 8 \<le> 2 ^ 32"
  shows "case isr_common_handler hw (interrupt_frame (stub_vector t) err m) s of
      Returns s' \<Rightarrow> \<exists>m'. take_interrupt hw cc ra t err (m, s) = Returns (m', s') \<and> gpr m' = gpr m \<and> seg m' = (\<lambda>_. seg m DS) \<and>
        cs_reg m' = cs_reg m \<and> eip_reg m' = eip_reg m \<and> eflags_reg m' = eflags_reg m \<and>
        (\<forall>x \<in> region (gpr m ESP) (n - 56). ram m' x = ram m x)
    | Halts s' \<Rightarrow> \<exists>m'. take_interrupt hw cc ra t err (m, s) = Halts (m', s')
    | Stuck \<Rightarrow> take_interrupt hw cc ra t err (m, s) = Stuck"
proof (cases "isr_common_handler hw (interrupt_frame (stub_vector t) err m) s")
  case (Returns s')
  then show ?thesis using interrupt_returns [OF assms Returns, of ra] by simp
next
  case (Halts s')
  then show ?thesis using take_interrupt_runs [OF assms(1), of hw cc ra err m s] by (simp add: Let_def)
next
  case Stuck
  then show ?thesis using take_interrupt_runs [OF assms(1), of hw cc ra err m s] by simp
qed

definition sample_compiled :: "x86 \<Rightarrow> x86" where
  "sample_compiled m = m\<lparr>gpr := (gpr m)(ESP := gpr m ESP + 4, EAX := 7, ECX := 8), eflags_reg := 0,
     ram := store_le (ram m) (gpr m ESP + 4) 4 (0 :: u32)\<rparr>"

definition sample_machine :: x86 where
  "sample_machine = \<lparr>gpr = (\<lambda>_. 0x10F000), seg = (\<lambda>_. 0x10), cs_reg = 0x08, eip_reg = 0x100000, eflags_reg = 0x202, ram = (\<lambda>_. 0xAB)\<rparr>"

theorem interrupt_transparent_witness:
  "cdecl 120 sample_compiled \<and>
   (\<exists>m' s'. take_interrupt (\<lambda>_ _. 0) sample_compiled 0x101000 (IRQ 0 32) 0 (sample_machine, idt_init (\<lambda>_. 0) (\<lambda>_. 0) 0 raw_kernel) =
     Returns (m', s') \<and> ticks s' = ticks raw_kernel + 1 \<and> gpr m' = gpr sample_machine \<and> eflags_reg m' = 0x202)"
proof -
  let ?u = "idt_init (\<lambda>_. 0) (\<lambda>_. 0) 0 raw_kernel"
  let ?f = "interrupt_frame 32 0 sample_machine"
  have "store_le a (p + 4) 4 (0 :: u32) x = a x" if x: "x \<in> region (p + 8 :: u32) 120" for a p x
  proof (rule store_le_outside)
    have "region (p + 8 - of_nat 4) 4 \<inter> region (p + 8) 120 = {}" by (rule region_below) simp
    moreover have "p + 8 - of_nat 4 = p + 4" by simp
    ultimately show "x \<notin> region (p + 4) 4" using x by (metis disjoint_iff)
  qed simp
  then have c: "cdecl 120 sample_compiled" by (simp add: cdecl_def sample_compiled_def)
  have "isr_handlers ?u ! 32 = Some Irq0_timer_handler" "32 < length (isr_handlers ?u)"
    using idt_init_nth(2,4) [of 32 "\<lambda>_. 0" "\<lambda>_. 0" 0 raw_kernel] by (simp_all add: init_handlers_def)
  then have "isr_common_handler (\<lambda>_ _. 0) ?f ?u = call_handler (\<lambda>_ _. 0) Irq0_timer_handler ?f ?u"
    by (intro dispatch_idt [of _ 32]) (simp_all add: interrupt_frame_def)
  then have d: "isr_common_handler (\<lambda>_ _. 0) ?f ?u = Returns (pic_send_eoi 0 (time_set_ticks (time_get_ticks ?u + 1) ?u))"
    by (simp add: call_handler_def irq0_timer_handler_def Let_def)
  have "IRQ 0 32 \<in> set isr_stubs" by (simp add: isr_stubs_def)
  from interrupt_transparent [OF this c, where hw = "\<lambda>_ _. 0" and err = 0 and m = sample_machine and s = ?u and ra = "0x101000"] d c
  show ?thesis
    by (auto simp: pic_send_eoi_def time_set_ticks_def time_get_ticks_def idt_init_eq sample_machine_def outb_def)
qed

section \<open>The entry point\<close>

definition MULTIBOOT_MAGIC :: u32 where [c_const]: "MULTIBOOT_MAGIC = 0x1BADB002"
definition MULTIBOOT_FLAGS :: u32 where [c_const]: "MULTIBOOT_FLAGS = 0x00000003"
definition MULTIBOOT_CHECKSUM :: u32 where [c_const]: "MULTIBOOT_CHECKSUM = - (MULTIBOOT_MAGIC + MULTIBOOT_FLAGS)"

definition multiboot_header :: "u32 list" where
  "multiboot_header = [MULTIBOOT_MAGIC, MULTIBOOT_FLAGS, MULTIBOOT_CHECKSUM]"

text \<open>\<^verbatim>\<open>_start\<close> calls \<open>kernel_main\<close> and, should it return, halts for good with interrupts off.\<close>

definition start :: "(x86 \<times> 's \<Rightarrow> (x86 \<times> 's) outcome) \<Rightarrow> u32 \<Rightarrow> u32 \<Rightarrow> x86 \<times> 's \<Rightarrow> (x86 \<times> 's) outcome" where
  "start kernel_main ra stack_top st =
     (case run kernel_main ra [CLI, MOV_DWORD ESP stack_top, MOV EBP ESP, PUSH EBX, PUSH EAX, CALL, CLI] st of
        Returns st' \<Rightarrow> Halts st' | Halts st' \<Rightarrow> Halts st' | Stuck \<Rightarrow> Stuck)"

lemma multiboot_header_ok: "hd multiboot_header = 0x1BADB002 \<and> sum_list multiboot_header = 0"
  by (simp add: multiboot_header_def c_const)

text \<open>The kernel is entered with interrupts off, on a fresh stack that holds the loader's two values.\<close>

lemma start_enters:
  fixes m :: x86 and ra stack_top :: u32
  defines "m' \<equiv> fold push [gpr m EBX, gpr m EAX, ra]
     (m\<lparr>eflags_reg := eflags_reg m AND NOT 0x200, gpr := (gpr m)(ESP := stack_top, EBP := stack_top)\<rparr>)"
  shows "start kernel_main ra stack_top (m, s) =
      (case kernel_main (m', s) of
         Returns (m2, s2) \<Rightarrow> Halts (m2\<lparr>eflags_reg := eflags_reg m2 AND NOT 0x200\<rparr>, s2)
       | Halts st \<Rightarrow> Halts st | Stuck \<Rightarrow> Stuck)"
    and "stack m' [ra, gpr m EAX, gpr m EBX]" and "gpr m' ESP = stack_top - 12" and "\<not> bit (eflags_reg m') 9"
proof -
  show "start kernel_main ra stack_top (m, s) =
      (case kernel_main (m', s) of
         Returns (m2, s2) \<Rightarrow> Halts (m2\<lparr>eflags_reg := eflags_reg m2 AND NOT 0x200\<rparr>, s2)
       | Halts st \<Rightarrow> Halts st | Stuck \<Rightarrow> Stuck)"
    by (simp add: start_def m'_def fun_upd_twist split: outcome.split prod.split)
  show "stack m' [ra, gpr m EAX, gpr m EBX]"
    using stack_pushes [of "m\<lparr>eflags_reg := eflags_reg m AND NOT 0x200, gpr := (gpr m)(ESP := stack_top, EBP := stack_top)\<rparr>"
        "[]" "[gpr m EBX, gpr m EAX, ra]"] by (simp add: m'_def)
  have "(0x200 :: u32) = push_bit 9 1" by simp
  then show "\<not> bit (eflags_reg m') 9" by (simp add: m'_def bit_simps)
qed (simp add: m'_def)

end
