(* ===== verification/Gdt.thy ===== *)
theory Gdt
  imports Prelude
begin

text \<open>
  The segment table, \<^verbatim>\<open>gdt_and_idt/gdt.c\<close> with \<^verbatim>\<open>gdt.h\<close> and the loading of the table by
  \<^verbatim>\<open>gdt_flush.asm\<close>. A descriptor is the packed structure of the header; what the processor reads
  out of it is given by the decoding functions. The address of the table is a parameter.
\<close>

section \<open>Descriptors\<close>

record gdt_entry_t =
  limit_low :: u16
  base_low :: u16
  base_mid :: u8
  access :: u8
  granularity :: u8
  base_high :: u8

record gdt_ptr_t =
  limit :: u16
  base :: u32

definition GDT_ACCESS_PRESENT :: u8 where [c_const]: "GDT_ACCESS_PRESENT = push_bit 7 1"
definition GDT_ACCESS_RING0 :: u8 where [c_const]: "GDT_ACCESS_RING0 = push_bit 5 0"
definition GDT_ACCESS_RING3 :: u8 where [c_const]: "GDT_ACCESS_RING3 = push_bit 5 3"
definition GDT_ACCESS_DESCRIPTOR :: u8 where [c_const]: "GDT_ACCESS_DESCRIPTOR = push_bit 4 1"
definition GDT_ACCESS_EXECUTABLE :: u8 where [c_const]: "GDT_ACCESS_EXECUTABLE = push_bit 3 1"
definition GDT_ACCESS_RW :: u8 where [c_const]: "GDT_ACCESS_RW = push_bit 1 1"

definition GDT_KERNEL_CODE_ACCESS :: u8 where
  [c_const]: "GDT_KERNEL_CODE_ACCESS =
     GDT_ACCESS_PRESENT OR GDT_ACCESS_RING0 OR GDT_ACCESS_DESCRIPTOR OR GDT_ACCESS_EXECUTABLE OR GDT_ACCESS_RW"

definition GDT_KERNEL_DATA_ACCESS :: u8 where
  [c_const]: "GDT_KERNEL_DATA_ACCESS =
     GDT_ACCESS_PRESENT OR GDT_ACCESS_RING0 OR GDT_ACCESS_DESCRIPTOR OR GDT_ACCESS_RW"

definition GDT_USER_CODE_ACCESS :: u8 where
  [c_const]: "GDT_USER_CODE_ACCESS =
     GDT_ACCESS_PRESENT OR GDT_ACCESS_RING3 OR GDT_ACCESS_DESCRIPTOR OR GDT_ACCESS_EXECUTABLE OR GDT_ACCESS_RW"

definition GDT_USER_DATA_ACCESS :: u8 where
  [c_const]: "GDT_USER_DATA_ACCESS =
     GDT_ACCESS_PRESENT OR GDT_ACCESS_RING3 OR GDT_ACCESS_DESCRIPTOR OR GDT_ACCESS_RW"

definition GDT_GRAN_4K :: u8 where [c_const]: "GDT_GRAN_4K = push_bit 7 1"
definition GDT_GRAN_32BIT :: u8 where [c_const]: "GDT_GRAN_32BIT = push_bit 6 1"
definition GDT_FLAGS :: u8 where [c_const]: "GDT_FLAGS = GDT_GRAN_4K OR GDT_GRAN_32BIT"

definition SEG_KERNEL_CODE :: u16 where [c_const]: "SEG_KERNEL_CODE = 0x08"
definition SEG_KERNEL_DATA :: u16 where [c_const]: "SEG_KERNEL_DATA = 0x10"
definition SEG_USER_CODE :: u16 where [c_const]: "SEG_USER_CODE = 0x18"
definition SEG_USER_DATA :: u16 where [c_const]: "SEG_USER_DATA = 0x20"
definition GDT_ENTRY_COUNT :: nat where [c_const]: "GDT_ENTRY_COUNT = 5"

section \<open>State and operations\<close>

text \<open>The two variables of the file, and the registers that \<open>gdt_flush\<close> loads.\<close>

record gdt_t =
  gdt :: "gdt_entry_t list"
  gdt_ptr :: gdt_ptr_t
  gdtr :: gdt_ptr_t
  reg_cs :: u16
  reg_ds :: u16
  reg_es :: u16
  reg_fs :: u16
  reg_gs :: u16
  reg_ss :: u16

definition gdt_set_entry :: "int \<Rightarrow> u32 \<Rightarrow> u32 \<Rightarrow> u8 \<Rightarrow> u8 \<Rightarrow> gdt_t \<Rightarrow> gdt_t option" where
  "gdt_set_entry index b l acc gran s =
     (if index < 0 \<or> index \<ge> int (length (gdt s)) then None
      else
        let e = gdt s ! nat index;
            e = e\<lparr>base_low := ucast (b AND 0xFFFF)\<rparr>;
            e = e\<lparr>base_mid := ucast (drop_bit 16 b AND 0xFF)\<rparr>;
            e = e\<lparr>base_high := ucast (drop_bit 24 b AND 0xFF)\<rparr>;
            e = e\<lparr>limit_low := ucast (l AND 0xFFFF)\<rparr>;
            e = e\<lparr>granularity := ucast (drop_bit 16 l AND 0x0F)\<rparr>;
            e = e\<lparr>granularity := granularity e OR (gran AND 0xF0)\<rparr>;
            e = e\<lparr>access := acc\<rparr>
        in Some (s\<lparr>gdt := (gdt s)[nat index := e]\<rparr>))"

definition gdt_flush :: "gdt_t \<Rightarrow> gdt_t" where
  "gdt_flush s = s\<lparr>gdtr := gdt_ptr s, reg_cs := 0x08, reg_ds := 0x10, reg_es := 0x10,
     reg_fs := 0x10, reg_gs := 0x10, reg_ss := 0x10\<rparr>"

definition gdt_init :: "u32 \<Rightarrow> gdt_t \<Rightarrow> gdt_t option" where
  "gdt_init gdt_address s =
     do { let s = s\<lparr>gdt_ptr := \<lparr>limit = of_nat (8 * GDT_ENTRY_COUNT - 1), base = gdt_address\<rparr>\<rparr>;
          s \<leftarrow> gdt_set_entry 0 0x00000000 0x00000000 0x00 0x00 s;
          s \<leftarrow> gdt_set_entry 1 0x00000000 0x000FFFFF GDT_KERNEL_CODE_ACCESS GDT_FLAGS s;
          s \<leftarrow> gdt_set_entry 2 0x00000000 0x000FFFFF GDT_KERNEL_DATA_ACCESS GDT_FLAGS s;
          s \<leftarrow> gdt_set_entry 3 0x00000000 0x000FFFFF GDT_USER_CODE_ACCESS GDT_FLAGS s;
          s \<leftarrow> gdt_set_entry 4 0x00000000 0x000FFFFF GDT_USER_DATA_ACCESS GDT_FLAGS s;
          Some (gdt_flush s) }"

section \<open>What the processor reads\<close>

definition segment_base :: "gdt_entry_t \<Rightarrow> nat" where
  "segment_base e = unat (base_low e) + 2 ^ 16 * unat (base_mid e) + 2 ^ 24 * unat (base_high e)"

definition segment_limit :: "gdt_entry_t \<Rightarrow> nat" where
  "segment_limit e = unat (limit_low e) + 2 ^ 16 * (unat (granularity e) mod 16)"

definition segment_flags :: "gdt_entry_t \<Rightarrow> nat" where
  "segment_flags e = unat (granularity e) div 16"

text \<open>The number of bytes: the limit counts pages when bit 3 of the flags is set.\<close>

definition segment_bytes :: "gdt_entry_t \<Rightarrow> nat" where
  "segment_bytes e = (segment_limit e + 1) * (if bit (granularity e) 7 then 4096 else 1)"

definition present :: "gdt_entry_t \<Rightarrow> bool" where "present e \<longleftrightarrow> bit (access e) 7"
definition privilege :: "gdt_entry_t \<Rightarrow> nat" where "privilege e = unat (access e) div 32 mod 4"
definition executable :: "gdt_entry_t \<Rightarrow> bool" where "executable e \<longleftrightarrow> bit (access e) 3"
definition rw_access :: "gdt_entry_t \<Rightarrow> bool" where "rw_access e \<longleftrightarrow> bit (access e) 1"

text \<open>The descriptor a selector stands for.\<close>

definition segment :: "gdt_t \<Rightarrow> u16 \<Rightarrow> gdt_entry_t" where
  "segment s sel = gdt s ! unat (drop_bit 3 sel)"

lemma unat_mask_byte:
  "unat (ucast ((x::u32) AND 0xFFFF) :: u16) = unat x mod 2 ^ 16"
  "unat (ucast (x AND 0xFF) :: u8) = unat x mod 2 ^ 8"
  "unat (ucast (x AND 0x0F) :: u8) = unat x mod 2 ^ 4"
proof -
  have "x AND 0xFFFF = take_bit 16 x" "x AND 0xFF = take_bit 8 x" "x AND 0x0F = take_bit 4 x"
    by (simp_all add: take_bit_eq_mask mask_eq_exp_minus_1)
  then show "unat (ucast (x AND 0xFFFF) :: u16) = unat x mod 2 ^ 16"
    "unat (ucast (x AND 0xFF) :: u8) = unat x mod 2 ^ 8" "unat (ucast (x AND 0x0F) :: u8) = unat x mod 2 ^ 4"
    by (simp_all only: unsigned_ucast_eq unsigned_take_bit_eq)
      (simp_all add: take_bit_eq_mod mod_mod_cancel)
qed

lemma unat_shift: "unat (drop_bit n (x::u32)) = unat x div 2 ^ n"
  by (simp only: unat_drop_bit_eq) (simp add: drop_bit_eq_div)

lemma nibbles:
  assumes "unat (a::u8) < 16"
  shows "unat (a OR (b AND 0xF0)) = unat a + 16 * (unat b div 16)"
proof -
  have "b AND 0xF0 = push_bit 4 (drop_bit 4 b)"
  proof -
    have "(0xF0 :: u8) = NOT (2 ^ 4 - 1)" by simp
    then show ?thesis by (simp only: and_not_low_mask)
  qed
  then have hi: "unat (b AND 0xF0) = 16 * (unat b div 16)" using unat_push_drop [of 4 b] by simp
  have "unat (a OR (b AND 0xF0)) = unat a OR unat (b AND 0xF0)" by (simp add: unsigned_or_eq)
  also have "unat (b AND 0xF0) = push_bit 4 (unat b div 16)" by (simp add: hi push_bit_eq_mult)
  also have "unat a OR push_bit 4 (unat b div 16) = unat a + push_bit 4 (unat b div 16)"
  proof (rule disjunctive_add_eq_or [symmetric])
    have "unat a = take_bit 4 (unat a)" using assms by (simp add: take_bit_eq_mod)
    then have "bit (unat a) n \<Longrightarrow> n < 4" for n by (metis bit_take_bit_iff)
    then have "\<not> (bit (unat a) n \<and> 4 \<le> n)" for n by force
    then show "unat a AND push_bit 4 (unat b div 16) = 0" unfolding bit_eq_iff bit_and_iff bit_push_bit_iff by auto
  qed
  finally show ?thesis by (simp add: push_bit_eq_mult)
qed

lemma split_nat:
  assumes "(n::nat) < 2 ^ 32"
  shows "n mod 2 ^ 16 + 2 ^ 16 * (n div 2 ^ 16 mod 2 ^ 8) + 2 ^ 24 * (n div 2 ^ 24 mod 2 ^ 8) = n"
proof -
  have "n div 16777216 mod 256 = n div 65536 div 256" using assms by (simp add: div_mult2_eq [symmetric])
  moreover have "n div 65536 = n div 65536 mod 256 + 256 * (n div 65536 div 256)" by simp
  moreover have "n = n mod 65536 + 65536 * (n div 65536)" by simp
  ultimately have "n mod 65536 + 65536 * (n div 65536 mod 256) + 16777216 * (n div 16777216 mod 256) = n" by linarith
  moreover have "(2::nat) ^ 16 = 65536" "(2::nat) ^ 24 = 16777216" "(2::nat) ^ 8 = 256" by simp_all
  ultimately show ?thesis by (simp only:)
qed

lemma limit_nat: "(n::nat) mod 2 ^ 16 + 2 ^ 16 * (n div 2 ^ 16 mod 2 ^ 4) = n mod 2 ^ 20"
  using mod_mult2_eq [of n "2 ^ 16" "2 ^ 4"] by simp

lemma gdt_init_ok:
  assumes "length (gdt s) = GDT_ENTRY_COUNT"
  shows "\<exists>s'. gdt_init a s = Some s' \<and> length (gdt s') = 5 \<and>
    unat (limit (gdtr s')) + 1 = 8 * length (gdt s') \<and> base (gdtr s') = a \<and>
    \<not> present (gdt s' ! 0) \<and> segment_base (gdt s' ! 0) = 0 \<and> segment_limit (gdt s' ! 0) = 0 \<and>
    list_all (\<lambda>(sel, ring, code). segment_base (segment s' sel) = 0 \<and> segment_bytes (segment s' sel) = 2 ^ 32 \<and>
        present (segment s' sel) \<and> privilege (segment s' sel) = ring \<and> executable (segment s' sel) = code \<and>
        rw_access (segment s' sel))
      [(SEG_KERNEL_CODE, 0, True), (SEG_KERNEL_DATA, 0, False), (SEG_USER_CODE, 3, True), (SEG_USER_DATA, 3, False)] \<and>
    reg_cs s' = SEG_KERNEL_CODE \<and>
    list_all (\<lambda>r. r s' = SEG_KERNEL_DATA) [reg_ds, reg_es, reg_fs, reg_gs, reg_ss]"
proof -
  obtain d0 d1 d2 d3 d4 where g: "gdt s = [d0, d1, d2, d3, d4]"
    using assms by (auto simp: c_const length_Suc_conv numeral_eq_Suc)
  show ?thesis
    by (simp add: gdt_init_def gdt_set_entry_def g gdt_flush_def c_const segment_def Let_def
        segment_base_def segment_bytes_def segment_limit_def present_def privilege_def executable_def rw_access_def
        bit_numeral_rec)
qed

section \<open>Main results\<close>

text \<open>
  Encoding a descriptor loses nothing. For an index in the table, \<open>gdt_set_entry\<close> writes a
  descriptor in which the processor reads back the whole base, the low 20 bits of the limit, the
  access byte and the upper four flag bits, and no other descriptor changes; outside the table
  there is no such store.
\<close>

theorem gdt_set_entry_roundtrip:
  "if 0 \<le> index \<and> index < int (length (gdt s)) then
     (\<exists>s' e. gdt_set_entry index b l acc gran s = Some s' \<and> s' = s\<lparr>gdt := (gdt s)[nat index := e]\<rparr> \<and>
        segment_base e = unat b \<and> segment_limit e = unat l mod 2 ^ 20 \<and> access e = acc \<and>
        segment_flags e = unat gran div 16)
   else gdt_set_entry index b l acc gran s = None"
proof (cases "0 \<le> index \<and> index < int (length (gdt s))")
  case True
  define e where "e = (gdt s ! nat index)\<lparr>base_low := ucast (b AND 0xFFFF), base_mid := ucast (drop_bit 16 b AND 0xFF),
    base_high := ucast (drop_bit 24 b AND 0xFF), limit_low := ucast (l AND 0xFFFF),
    granularity := ucast (drop_bit 16 l AND 0x0F) OR (gran AND 0xF0), access := acc\<rparr>"
  have "gdt_set_entry index b l acc gran s = Some (s\<lparr>gdt := (gdt s)[nat index := e]\<rparr>)"
    using True by (simp add: gdt_set_entry_def e_def Let_def)
  moreover have "unat (granularity e) = unat l div 2 ^ 16 mod 2 ^ 4 + 16 * (unat gran div 16)"
    using nibbles [of "ucast (drop_bit 16 l AND 0x0F)" gran] unat_mask_byte(3) [of "drop_bit 16 l"]
    by (simp add: e_def unat_shift)
  moreover have "segment_base e = unat b"
    using split_nat [of "unat b"] unat_less_32 [of b]
    by (simp add: segment_base_def e_def unat_mask_byte unat_shift del: power_numeral)
  ultimately show ?thesis using True limit_nat [of "unat l"]
    by (auto simp: segment_limit_def segment_flags_def unat_mask_byte e_def)
next
  case False
  then show ?thesis by (auto simp: gdt_set_entry_def)
qed


definition raw_gdt :: gdt_t where
  "raw_gdt = \<lparr>gdt = replicate 5 \<lparr>limit_low = 0xAAAA, base_low = 0, base_mid = 0, access = 0, granularity = 0xFF, base_high = 1\<rparr>,
     gdt_ptr = \<lparr>limit = 0, base = 0\<rparr>, gdtr = \<lparr>limit = 0, base = 0\<rparr>, reg_cs = 0, reg_ds = 0, reg_es = 0, reg_fs = 0,
     reg_gs = 0, reg_ss = 0\<rparr>"


end
