(* ===== verification/Kernel_Main.thy ===== *)
theory Kernel_Main
  imports Isr_Properties Gdt Kmalloc_Properties
begin

text \<open>
  The start of the kernel, \<^verbatim>\<open>kernel/kernel_main.c\<close>: \<open>sleep_ms\<close>, the initialisation of the components up to
  the enabling of interrupts, and the heap test that follows. The state adds the segment table and
  the heap to the device state. Interrupts are an explicit sequence of frames that \<open>sleep_ms\<close>
  consumes; during the initialisation none arrives.
\<close>

section \<open>Sleeping\<close>

text \<open>
  The loop over \<^verbatim>\<open>hlt\<close>: the processor sleeps until the next interrupt, which is handled before the
  counter is read again. With interrupts disabled nothing wakes it. \<open>None\<close> is a processor that is
  never woken, or an interrupt whose handler does not return.
\<close>

fun sleep_loop :: "hardware \<Rightarrow> u64 \<Rightarrow> interrupt_frame_t list \<Rightarrow> 'a kernel \<Rightarrow> ('a kernel \<times> interrupt_frame_t list) option" where
  "sleep_loop hw target [] s = (if time_get_ticks s < target then None else Some (s, []))"
| "sleep_loop hw target (f # fs) s =
     (if time_get_ticks s < target then
        (if int_flag s then
           (case isr_common_handler hw f s of Returns s \<Rightarrow> sleep_loop hw target fs s | _ \<Rightarrow> None)
         else None)
      else Some (s, f # fs))"

definition sleep_ms :: "hardware \<Rightarrow> u32 \<Rightarrow> interrupt_frame_t list \<Rightarrow> 'a kernel \<Rightarrow> ('a kernel \<times> interrupt_frame_t list) option" where
  "sleep_ms hw ms fs s =
     (let pit_hz = pit_get_frequency s in
      if pit_hz = 0 then Some (s, fs)
      else
        let start_ticks = time_get_ticks s;
            target_ticks = start_ticks + (ucast ms :: u64) * ucast pit_hz div 1000
        in sleep_loop hw target_ticks fs s)"

section \<open>Initialisation\<close>

record boot_t = idt_t +
  gdt_state :: gdt_t
  heap_state :: heap_t

type_synonym boot = "unit boot_t_scheme"

text \<open>
  Steps 1 to 3 of \<open>kernel_main\<close>, up to the interrupt controllers, and steps 4 to 7, from the interrupt
  table on.
\<close>

definition boot_early :: "hardware \<Rightarrow> u32 \<Rightarrow> boot \<Rightarrow> boot option" where
  "boot_early hw gdt_address s =
     do { s \<leftarrow> vga_init s;
          s \<leftarrow> log_info ''Kernel booting...'' [] s;
          g \<leftarrow> gdt_init gdt_address (gdt_state s);
          let s = s\<lparr>gdt_state := g\<rparr>;
          let s = s\<lparr>heap_state := kmalloc_init (heap_state s) 0x00200000 0x00100000\<rparr>;
          s \<leftarrow> log_info ''Heap initialized at 0x200000, size 1MB'' [] s;
          pic_init hw s }"

definition boot_late :: "hardware \<Rightarrow> (nat \<Rightarrow> u32) \<Rightarrow> (nat \<Rightarrow> u32) \<Rightarrow> u32 \<Rightarrow> boot \<Rightarrow> boot option" where
  "boot_late hw isr irq idt_address s =
     do { let s = idt_init isr irq idt_address s;
          s \<leftarrow> log_info ''Interrupt Descriptor Table (IDT) initialized.'' [] s;
          s \<leftarrow> keyboard_init s;
          s \<leftarrow> pit_init hw 100 s;
          s \<leftarrow> log_info ''PIT configured to %d Hz.'' [Word (pit_get_frequency s)] s;
          let s = s\<lparr>int_flag := True\<rparr>;
          s \<leftarrow> log_info ''Interrupts enabled globally. System tick counter is active.'' [] s;
          log_info ''Watching system ticks for 5 seconds...'' [] s }"

definition kernel_boot :: "hardware \<Rightarrow> (nat \<Rightarrow> u32) \<Rightarrow> (nat \<Rightarrow> u32) \<Rightarrow> u32 \<Rightarrow> u32 \<Rightarrow> boot \<Rightarrow> boot option" where
  "kernel_boot hw isr irq gdt_address idt_address s =
     do { s \<leftarrow> boot_early hw gdt_address s;
          boot_late hw isr irq idt_address s }"

text \<open>The loop that watches the ticks for some seconds; the kernel runs it with five.\<close>

fun watch_ticks :: "hardware \<Rightarrow> nat \<Rightarrow> interrupt_frame_t list \<Rightarrow> boot \<Rightarrow> (boot \<times> interrupt_frame_t list) option" where
  "watch_ticks hw 0 fs s = Some (s, fs)"
| "watch_ticks hw (Suc n) fs s =
     do { (s, fs) \<leftarrow> sleep_ms hw 1000 fs s;
          s \<leftarrow> log_info ''  System ticks: %d'' [Word (ucast (time_get_ticks s))] s;
          watch_ticks hw n fs s }"

section \<open>The heap test\<close>

text \<open>
  Lines 102 to 146: two blocks, a write and a read back, a release and a third block. As in the
  source, a null result is reported and then used all the same. The result is the state with the
  three pointers.
\<close>

definition heap_test :: "boot \<Rightarrow> (boot \<times> u32 \<times> u32 \<times> u32) option" where
  "heap_test s =
     do { s \<leftarrow> log_info ''Testing kmalloc...'' [] s;
          (a, h) \<leftarrow> kmalloc (heap_state s) 16;
          let s = s\<lparr>heap_state := h\<rparr>;
          s \<leftarrow> (if a = 0 then log_info ''  [FAIL] kmalloc returned NULL!'' [] s
                else log_info ''  [PASS] kmalloc returned address: 0x%x'' [Word a] s);
          let m = store_le (heap_mem (heap_state s)) a 4 (0xDEADBEEF :: u32);
          let m = store_le m (a + 4) 4 (0xCAFEBABE :: u32);
          let s = s\<lparr>heap_state := (heap_state s)\<lparr>heap_mem := m\<rparr>\<rparr>;
          let a0 = (load_le m a 4 :: u32);
          let a1 = (load_le m (a + 4) 4 :: u32);
          s \<leftarrow> (if a0 = 0xDEADBEEF \<and> a1 = 0xCAFEBABE
                then log_info ''  [PASS] Write/read back correct: 0x%x 0x%x'' [Word a0, Word a1] s
                else log_info ''  [FAIL] Memory corruption detected!'' [] s);
          (b, h) \<leftarrow> kmalloc (heap_state s) 16;
          let s = s\<lparr>heap_state := h\<rparr>;
          s \<leftarrow> (if b = 0 then log_info ''  [FAIL] second kmalloc returned NULL!'' [] s
                else if b = a then log_info ''  [FAIL] both allocs returned same address!'' [] s
                else log_info ''  [PASS] Two allocs at different addresses: 0x%x and 0x%x'' [Word a, Word b] s);
          h \<leftarrow> kfree (heap_state s) a;
          let s = s\<lparr>heap_state := h\<rparr>;
          (c, h) \<leftarrow> kmalloc (heap_state s) 16;
          let s = s\<lparr>heap_state := h\<rparr>;
          s \<leftarrow> log_info ''  After free, new alloc at: 0x%x (should reuse 0x%x)'' [Word c, Word a] s;
          Some (s, a, b, c) }"

section \<open>Sleeping takes the right number of ticks\<close>

lemma sleep_loop_timer:
  assumes "isr_handlers s ! 32 = Some Irq0_timer_handler" "32 < length (isr_handlers s)"
    "\<forall>f \<in> set fs. f_int_no f = 32" "n \<le> length fs" "unat (ticks s) + n < 2 ^ 64" "target = ticks s + of_nat n"
    "n = 0 \<or> int_flag s"
  shows "sleep_loop hw target fs s = Some (s\<lparr>ticks := target, io_trace := io_trace s @ replicate n (Outb 0x20 0x20)\<rparr>, drop n fs)"
  using assms
proof (induction n arbitrary: fs s)
  case 0
  then show ?case by (cases fs) (simp_all add: time_get_ticks_def)
next
  case (Suc n)
  obtain f gs where fs: "fs = f # gs" using Suc.prems(4) by (cases fs) auto
  let ?s = "s\<lparr>ticks := ticks s + 1, io_trace := io_trace s @ [Outb 0x20 0x20]\<rparr>"
  have "isr_common_handler hw f s = Returns ?s"
    using timer_interrupts [of s "[f]" hw] Suc.prems(1-3) fs by (auto split: outcome.splits)
  moreover have u: "unat target = unat (ticks s) + Suc n" "unat (ticks s + 1) = unat (ticks s) + 1"
    using Suc.prems(5,6) unat_add_of_nat [of "ticks s" "Suc n"] unat_add_of_nat [of "ticks s" 1] by simp_all
  moreover have "ticks s < target" using u by (simp add: word_less_nat_alt)
  ultimately show ?case
    using Suc.IH [of ?s gs] Suc.prems fs by (simp add: time_get_ticks_def algebra_simps)
qed

lemma sleep_loop_masked: "\<not> int_flag s \<Longrightarrow> ticks s < target \<Longrightarrow> sleep_loop hw target fs s = None"
  by (cases fs) (simp_all add: time_get_ticks_def)

lemma sleep_loop_short:
  assumes "isr_handlers s ! 32 = Some Irq0_timer_handler" "32 < length (isr_handlers s)"
    "\<forall>f \<in> set fs. f_int_no f = 32" "unat (ticks s) + length fs < unat target"
  shows "sleep_loop hw target fs s = None"
  using assms
proof (induction fs arbitrary: s)
  case Nil
  then show ?case by (simp add: time_get_ticks_def word_less_nat_alt)
next
  case (Cons f fs)
  let ?s = "s\<lparr>ticks := ticks s + 1, io_trace := io_trace s @ [Outb 0x20 0x20]\<rparr>"
  have "isr_common_handler hw f s = Returns ?s"
    using timer_interrupts [of s "[f]" hw] Cons.prems(1-3) by (auto split: outcome.splits)
  moreover have "unat (ticks s + 1) = unat (ticks s) + 1"
    using Cons.prems(4) unat_less_64 [of target] unat_add_of_nat [of "ticks s" 1] by simp
  ultimately show ?case
    using Cons.IH [of ?s] Cons.prems by (simp add: time_get_ticks_def word_less_nat_alt)
qed

lemma sleep_target:
  "unat ((ucast (ms::u32) :: u64) * ucast (hz::u32) div 1000) = unat ms * unat hz div 1000"
proof -
  have b: "unat ms * unat hz < 2 ^ 64"
    using mult_strict_mono' [of "unat ms" "2 ^ 32" "unat hz" "2 ^ 32"] unat_less_32 [of ms] unat_less_32 [of hz] by simp
  have u: "unat (ucast ms :: u64) = unat ms" "unat (ucast hz :: u64) = unat hz"
    by (simp_all add: unsigned_ucast_eq take_bit_eq_mod order_less_trans [OF unat_less_32])
  have "unat ((ucast ms :: u64) * ucast hz) = unat ms * unat hz" using b u by (simp add: unat_word_ariths)
  then show ?thesis by (simp add: unat_div)
qed

section \<open>Initialisation step by step\<close>

lemma boot_fields:
  assumes "vga_t.more s' = vga_t.more (s :: boot)"
  shows "ticks s' = ticks s" "current_pit_hz s' = current_pit_hz s" "idt s' = idt s" "isr_handlers s' = isr_handlers s"
    "int_flag s' = int_flag s" "gdt_state s' = gdt_state s" "heap_state s' = heap_state s" "idtr s' = idtr s"
  using assms by (cases s; cases s'; simp add: vga_t.defs)+

lemma pit_more_fields:
  assumes "pit_t.more s' = pit_t.more (s :: boot)"
  shows "idt s' = idt s" "isr_handlers s' = isr_handlers s"
    "int_flag s' = int_flag s" "gdt_state s' = gdt_state s" "heap_state s' = heap_state s" "idtr s' = idtr s"
  using assms by (cases s; cases s'; simp add: pit_t.defs)+

lemma boot_log:
  assumes "word_format fmt k" "vga_ok (s :: boot)" "length ws = k"
  shows "\<exists>s'. log_info fmt (map Word ws) s = Some s' \<and> logged c s s' \<and> vga_ok s'"
  using log_logged(1) [OF assms(2,1,3), of c] by (auto simp: logged_def)

lemma boot_formats:
  "word_format ''Kernel booting...'' 0" "word_format ''Heap initialized at 0x200000, size 1MB'' 0"
  "word_format ''Interrupt Descriptor Table (IDT) initialized.'' 0" "word_format ''Keyboard driver initialized.'' 0"
  "word_format ''PIT configured to %d Hz.'' 1"
  "word_format ''Interrupts enabled globally. System tick counter is active.'' 0"
  "word_format ''Watching system ticks for 5 seconds...'' 0"
  by (simp_all add: word_format_def)

text \<open>The state the heap test and the idle loop start from.\<close>

definition booted :: "chips \<Rightarrow> (nat \<Rightarrow> bool) \<Rightarrow> (nat \<Rightarrow> u32) \<Rightarrow> u32 \<Rightarrow> u32 \<Rightarrow> boot \<Rightarrow> bool" where
  "booted c was_masked irq gdt_address idt_address s \<longleftrightarrow>
     vga_ok s \<and> int_flag s \<and>
     heap_ok (heap_state s) [(0xFFFF4, True)] \<and> heap_start (heap_state s) = 0x200000 \<and>
     base (gdtr (gdt_state s)) = gdt_address \<and> reg_cs (gdt_state s) = SEG_KERNEL_CODE \<and>
     reg_ds (gdt_state s) = SEG_KERNEL_DATA \<and> reg_ss (gdt_state s) = SEG_KERNEL_DATA \<and>
     idt_limit (idtr s) = 0x7FF \<and> idt_base (idtr s) = idt_address \<and>
     (\<forall>i<16. vector c (io_trace s) i = 32 + i) \<and> (\<forall>i<16. masked c (io_trace s) i \<longleftrightarrow> i \<noteq> 0 \<and> was_masked i) \<and>
     pit_period (io_trace s) = Some 11931 \<and> pit_get_frequency s = 100 \<and>
     (\<forall>i<16. gate_present (idt s ! (32 + i)) \<and> gate_offset (idt s ! (32 + i)) = unat (irq i)) \<and>
     length (isr_handlers s) = 256 \<and>
     isr_handlers s ! 32 = Some Irq0_timer_handler \<and> isr_handlers s ! 33 = Some Keyboard_handler"

lemma boot_early_ok:
  assumes "pic_idle c (io_trace s)" "pic_answers hw c" "length (gdt (gdt_state s)) = GDT_ENTRY_COUNT"
  shows "\<exists>s'. boot_early hw ga s = Some s' \<and> vga_ok s' \<and> ticks s' = ticks s \<and> pic_idle c (io_trace s') \<and>
    heap_ok (heap_state s') [(0xFFFF4, True)] \<and> heap_start (heap_state s') = 0x200000 \<and>
    base (gdtr (gdt_state s')) = ga \<and> reg_cs (gdt_state s') = SEG_KERNEL_CODE \<and>
    reg_ds (gdt_state s') = SEG_KERNEL_DATA \<and> reg_ss (gdt_state s') = SEG_KERNEL_DATA \<and>
    (\<forall>i<16. vector c (io_trace s') i = 32 + i) \<and> (\<forall>i. masked c (io_trace s') i = masked c (io_trace s) i)"
proof -
  obtain s1 where s1: "vga_init s = Some s1" "vga_ok s1" "only_console s s1" using vga_init_ok by blast
  obtain s2 where s2: "log_info ''Kernel booting...'' [] s1 = Some s2" "logged c s1 s2" "vga_ok s2"
    using boot_log [OF boot_formats(1) s1(2), of "[]" c] by auto
  have g: "gdt_state s2 = gdt_state s" "heap_state s2 = heap_state s" "ticks s2 = ticks s"
    using boot_fields [of s2 s1] boot_fields [OF only_console_more [OF s1(3)]] s2(2) by (simp_all add: logged_def)
  obtain g' where g': "gdt_init ga (gdt_state s) = Some g'" "base (gdtr g') = ga" "reg_cs g' = SEG_KERNEL_CODE"
    "reg_ds g' = SEG_KERNEL_DATA" "reg_ss g' = SEG_KERNEL_DATA"
    using gdt_init_ok [OF assms(3), of ga] by auto
  let ?s3 = "s2\<lparr>gdt_state := g', heap_state := kmalloc_init (heap_state s) 0x00200000 0x00100000\<rparr>"
  have ok3: "vga_ok ?s3" using s2(3) by (simp add: vga_ok_def cursor_ok_def)
  obtain s4 where s4: "log_info ''Heap initialized at 0x200000, size 1MB'' [] ?s3 = Some s4" "logged c ?s3 s4" "vga_ok s4"
    using boot_log [OF boot_formats(2) ok3, of "[]" c] by auto
  have ch: "master c (io_trace s4) = master c (io_trace s)" "slave c (io_trace s4) = slave c (io_trace s)"
    using s4(2) s2(2) only_console_chips [OF s1(3), of c] by (simp_all add: logged_def)
  have idle: "pic_idle c (io_trace s4)" using ch assms(1) by (simp add: pic_idle_def)
  obtain s5 where s5: "pic_init hw s4 = Some s5" "vga_ok s5" "vga_t.more s5 = vga_t.more s4" "pic_idle c (io_trace s5)"
    "\<forall>i<16. vector c (io_trace s5) i = 32 + i" "\<forall>i. masked c (io_trace s5) i = masked c (io_trace s4) i"
    using pic_init_ok [OF s4(3) idle assms(2)] by blast
  have f: "gdt_state s5 = g'" "heap_state s5 = kmalloc_init (heap_state s) 0x00200000 0x00100000" "ticks s5 = ticks s"
    using boot_fields [OF s5(3)] boot_fields [of s4 ?s3] s4(2) g(3) by (simp_all add: logged_def)
  have "boot_early hw ga s = Some s5"
    using s1(1) s2(1) g g'(1) s4(1) s5(1) by (simp add: boot_early_def)
  moreover have "masked c (io_trace s4) i = masked c (io_trace s) i" for i using ch by (simp add: masked_def)
  moreover have "heap_ok (heap_state s5) [(0xFFFF4, True)]" "heap_start (heap_state s5) = 0x200000"
    using kmalloc_init_ok [of "0x00200000" "0x00100000" "heap_state s"] f(2) by simp_all
  ultimately show ?thesis using s5(2,4-6) f(1,3) g'(2-5) by simp
qed

lemma boot_late_ok:
  assumes "vga_ok s" "pic_idle c (io_trace s)" "pic_answers hw c"
  shows "\<exists>s'. boot_late hw isr irq ia s = Some s' \<and> vga_ok s' \<and> int_flag s' \<and> ticks s' = ticks s \<and>
    heap_state s' = heap_state s \<and> gdt_state s' = gdt_state s \<and> vector c (io_trace s') = vector c (io_trace s) \<and>
    (\<forall>i<16. masked c (io_trace s') i \<longleftrightarrow> i \<noteq> 0 \<and> masked c (io_trace s) i) \<and>
    pit_period (io_trace s') = Some 11931 \<and> pit_get_frequency s' = 100 \<and> idt s' = idt (idt_init isr irq ia s) \<and>
    idtr s' = idtr (idt_init isr irq ia s) \<and>
    isr_handlers s' = (isr_handlers (idt_init isr irq ia s))[33 := Some Keyboard_handler]"
proof -
  let ?s1 = "idt_init isr irq ia s"
  have ok1: "vga_ok ?s1" and k1: "io_trace ?s1 = io_trace s" "heap_state ?s1 = heap_state s" "gdt_state ?s1 = gdt_state s" "ticks ?s1 = ticks s"
    using assms(1) by (simp_all add: idt_init_eq vga_ok_def cursor_ok_def)
  obtain s2 where s2: "log_info ''Interrupt Descriptor Table (IDT) initialized.'' [] ?s1 = Some s2" "logged c ?s1 s2" "vga_ok s2"
    using boot_log [OF boot_formats(3) ok1, of "[]" c] by auto
  let ?s3 = "idt_register_handler 33 Keyboard_handler s2"
  have ok3: "vga_ok ?s3" using s2(3) by (simp add: idt_register_handler_def vga_ok_def cursor_ok_def)
  obtain s4 where s4: "log_info ''Keyboard driver initialized.'' [] ?s3 = Some s4" "logged c ?s3 s4" "vga_ok s4"
    using boot_log [OF boot_formats(4) ok3, of "[]" c] by auto
  have ch4: "master c (io_trace s4) = master c (io_trace s)" "slave c (io_trace s4) = slave c (io_trace s)"
    using s4(2) s2(2) k1(1) by (simp_all add: logged_def idt_register_handler_def)
  have idle: "pic_idle c (io_trace s4)" using ch4 assms(2) by (simp add: pic_idle_def)
  have f4: "idt s4 = idt ?s1" "isr_handlers s4 = (isr_handlers ?s1)[33 := Some Keyboard_handler]"
    "gdt_state s4 = gdt_state s" "heap_state s4 = heap_state s" "ticks s4 = ticks s"
    "idtr s4 = idtr ?s1"
    using boot_fields [of s2 ?s1] boot_fields [of s4 ?s3] s2(2) s4(2) k1 by (simp_all add: logged_def idt_register_handler_def)
  have "PIT_BASE_FREQ div (if 100 > PIT_MAX_FREQ then PIT_MAX_FREQ else 100) = 11931" by (simp add: c_const)
  from pit_init_ok [of 100, OF _ s4(3) idle assms(3) this [symmetric]]
  obtain s5 where s5: "pit_init hw 100 s4 = Some s5" "vga_ok s5" "pit_t.more s5 = pit_t.more s4"
    "vector c (io_trace s5) = vector c (io_trace s4)" "pit_counter (io_trace s5) = Loaded 0x36 11931" "current_pit_hz s5 = 100"
    "\<forall>i<16. masked c (io_trace s5) i \<longleftrightarrow> i \<noteq> 0 \<and> masked c (io_trace s4) i" "ticks s5 = ticks s4" by (auto simp: c_const)
  obtain s6 where s6: "log_info ''PIT configured to %d Hz.'' [Word 100] s5 = Some s6" "logged c s5 s6" "vga_ok s6"
    using boot_log [OF boot_formats(5) s5(2), of "[100]" c] by auto
  let ?s7 = "s6\<lparr>int_flag := True\<rparr>"
  have ok7: "vga_ok ?s7" using s6(3) by (simp add: vga_ok_def cursor_ok_def)
  obtain s8 where s8: "log_info ''Interrupts enabled globally. System tick counter is active.'' [] ?s7 = Some s8" "logged c ?s7 s8" "vga_ok s8"
    using boot_log [OF boot_formats(6) ok7, of "[]" c] by auto
  obtain s9 where s9: "log_info ''Watching system ticks for 5 seconds...'' [] s8 = Some s9" "logged c s8 s9" "vga_ok s9"
    using boot_log [OF boot_formats(7) s8(3), of "[]" c] by auto
  have run: "boot_late hw isr irq ia s = Some s9"
    using s2(1) s4(1) s5(1,6) s6(1) s8(1) s9(1) by (simp add: boot_late_def keyboard_init_def pit_get_frequency_def)
  have ch: "master c (io_trace s9) = master c (io_trace s5)" "slave c (io_trace s9) = slave c (io_trace s5)"
    "pit_counter (io_trace s9) = Loaded 0x36 11931"
    using s6(2) s8(2) s9(2) s5(5) by (simp_all add: logged_def)
  have m: "masked c (io_trace s9) i = masked c (io_trace s5) i" "masked c (io_trace s4) i = masked c (io_trace s) i" for i
    using ch ch4 by (simp_all add: masked_def)
  have v: "vector c (io_trace s9) = vector c (io_trace s)"
    using vector_cong [OF ch(1,2)] vector_cong [OF ch4] s5(4) by simp
  have f: "int_flag s9" "current_pit_hz s9 = 100" "idt s9 = idt s4" "isr_handlers s9 = isr_handlers s4"
    "gdt_state s9 = gdt_state s4" "heap_state s9 = heap_state s4" "ticks s9 = ticks s4" "idtr s9 = idtr s4"
    using boot_fields [of s9 s8] boot_fields [of s8 ?s7] boot_fields [of s6 s5] pit_more_fields [OF s5(3)] s5(6,8) s6(2) s8(2) s9(2)
    by (simp_all add: logged_def)
  show ?thesis using run s9(3) f f4 m v s5(7) pit_period_binary [OF ch(3)] by (simp add: pit_get_frequency_def)
qed

lemma kernel_boot_ok:
  assumes "pic_idle c (io_trace s)" "pic_answers hw c" "length (gdt (gdt_state s)) = GDT_ENTRY_COUNT"
  shows "\<exists>s'. kernel_boot hw isr irq ga ia s = Some s' \<and> booted c (masked c (io_trace s)) irq ga ia s' \<and> ticks s' = ticks s"
proof -
  obtain s1 where s1: "boot_early hw ga s = Some s1" "vga_ok s1" "pic_idle c (io_trace s1)"
    "heap_ok (heap_state s1) [(0xFFFF4, True)]" "heap_start (heap_state s1) = 0x200000" "base (gdtr (gdt_state s1)) = ga"
    "reg_cs (gdt_state s1) = SEG_KERNEL_CODE" "reg_ds (gdt_state s1) = SEG_KERNEL_DATA"
    "reg_ss (gdt_state s1) = SEG_KERNEL_DATA" "\<forall>i<16. vector c (io_trace s1) i = 32 + i"
    "\<forall>i. masked c (io_trace s1) i = masked c (io_trace s) i" "ticks s1 = ticks s"
    using boot_early_ok [OF assms, of ga] by blast
  have gates: "gate_present (idt (idt_init isr irq ia s1) ! (32 + i)) \<and> gate_offset (idt (idt_init isr irq ia s1) ! (32 + i)) = unat (irq i)"
    if "i < 16" for i
  proof -
    have "idt (idt_init isr irq ia s1) ! (32 + i) = gate (irq i) IDT_KERNEL_INTERRUPT"
      using idt_init_nth(1) [of "32 + i" isr irq ia s1] gate_vector [of "32 + i" isr irq] that by simp
    moreover have "gate_present (gate h IDT_KERNEL_INTERRUPT)" for h
      by (simp add: gate_present_def gate_def c_const bit_numeral_rec)
    ultimately show ?thesis by (simp add: gate_offset_gate)
  qed
  have h: "length (isr_handlers (idt_init isr irq ia s1)) = 256" "isr_handlers (idt_init isr irq ia s1) ! 32 = Some Irq0_timer_handler"
    using idt_init_nth(2,4) [of 32 isr irq ia s1] by (simp_all add: init_handlers_def)
  have t: "idt_limit (idtr (idt_init isr irq ia s1)) = 0x7FF" "idt_base (idtr (idt_init isr irq ia s1)) = ia"
    by (simp_all add: idt_init_eq c_const)
  from boot_late_ok [OF s1(2,3) assms(2), of isr irq ia] show ?thesis
    using s1 gates h t by (auto simp: kernel_boot_def booted_def)
qed

end
