(* ===== verification/Self_Tests.thy ===== *)
theory Self_Tests
  imports Kernel_Main
begin

text \<open>
  The self-tests, \<^verbatim>\<open>kernel/tests.c\<close>, which \<open>kernel_main\<close> runs before it idles. The tests run in the
  kernel, so their state is the state of the kernel with the two counters of the file. What the
  compiler and the machine decide is an argument: the addresses of the local arrays, their contents
  before they are written, the control registers, and the interrupts that arrive during the busy wait.
\<close>

section \<open>State\<close>

record tests_t =
  kern :: boot
  total_pass :: int
  total_fail :: int

record test_args =
  buf_at :: u32
  src_at :: u32
  dst_at :: u32
  ptrs_init :: "u32 list"
  cr0 :: u32
  cr3 :: u32
  wait_frames :: "interrupt_frame_t list"

text \<open>The memory of the machine, and a store to it.\<close>

definition ram_of :: "tests_t \<Rightarrow> mem32" where
  "ram_of t = heap_mem (heap_state (kern t))"

definition set_heap :: "heap_t \<Rightarrow> tests_t \<Rightarrow> tests_t" where
  "set_heap h t = t\<lparr>kern := (kern t)\<lparr>heap_state := h\<rparr>\<rparr>"

definition set_ram :: "mem32 \<Rightarrow> tests_t \<Rightarrow> tests_t" where
  "set_ram m t = set_heap ((heap_state (kern t))\<lparr>heap_mem := m\<rparr>) t"

text \<open>Storing the bytes of an initialiser, or of a loop over an array, in order.\<close>

primrec store_bytes :: "mem32 \<Rightarrow> u32 \<Rightarrow> u8 list \<Rightarrow> mem32" where
  "store_bytes m a [] = m"
| "store_bytes m a (v # vs) = store_bytes (m(a := v)) (a + 1) vs"

section \<open>Reporting\<close>

definition log_line :: "string \<Rightarrow> va_arg list \<Rightarrow> tests_t \<Rightarrow> tests_t option" where
  "log_line fmt args t = do { s \<leftarrow> log_info fmt args (kern t); Some (t\<lparr>kern := s\<rparr>) }"

definition PASS :: "string \<Rightarrow> tests_t \<Rightarrow> tests_t option" where
  "PASS msg t = do { t \<leftarrow> log_line (''  [PASS] '' @ msg) [] t; Some (t\<lparr>total_pass := total_pass t + 1\<rparr>) }"

definition FAIL :: "string \<Rightarrow> tests_t \<Rightarrow> tests_t option" where
  "FAIL msg t = do { t \<leftarrow> log_line (''  [FAIL] '' @ msg) [] t; Some (t\<lparr>total_fail := total_fail t + 1\<rparr>) }"

definition SECTION :: "string \<Rightarrow> tests_t \<Rightarrow> tests_t option" where
  "SECTION msg t = log_line (''--- '' @ msg @ '' ---'') [] t"

text \<open>The dash and the multiplication sign of the messages are several bytes in the source's encoding.\<close>

abbreviation dash :: string where
  "dash \<equiv> [CHR 0xE2, CHR 0x80, CHR 0x94]"

abbreviation times_sign :: string where
  "times_sign \<equiv> [CHR 0xC3, CHR 0x97]"

section \<open>Phase 1: memory routines and the screen\<close>

definition test_phase1_stdlib :: "test_args \<Rightarrow> tests_t \<Rightarrow> tests_t option" where
  "test_phase1_stdlib e t =
     do { t \<leftarrow> SECTION ''PHASE 1: Standard Library & Memory Ops'' t;
          let t = set_ram (snd (memset (ram_of t) (buf_at e) 0xAB 16)) t;
          let ok = list_all (\<lambda>i. ram_of t (buf_at e + of_nat i) = 0xAB) [0..<16];
          t \<leftarrow> (if ok then PASS ''memset fills buffer correctly'' t else FAIL ''memset produced wrong values'' t);
          let t = set_ram (store_bytes (ram_of t) (src_at e) [1, 2, 3, 4, 5, 6, 7, 8]) t;
          let t = set_ram (store_bytes (ram_of t) (dst_at e) (replicate 8 0)) t;
          let t = set_ram (snd (memcpy (ram_of t) (dst_at e) (src_at e) 8)) t;
          let ok = list_all (\<lambda>i. ram_of t (dst_at e + of_nat i) = ram_of t (src_at e + of_nat i)) [0..<8];
          t \<leftarrow> (if ok then PASS ''memcpy copies bytes correctly'' t else FAIL ''memcpy produced wrong values'' t);
          t \<leftarrow> (if memcmp (ram_of t) (src_at e) (dst_at e) 8 = 0 then PASS ''memcmp: equal buffers returns 0'' t
                else FAIL ''memcmp: equal buffers returned non-zero'' t);
          let t = set_ram ((ram_of t)(dst_at e := 99)) t;
          t \<leftarrow> (if memcmp (ram_of t) (src_at e) (dst_at e) 8 \<noteq> 0 then PASS ''memcmp: different buffers returns non-zero'' t
                else FAIL ''memcmp: different buffers returned 0'' t);
          let saved = VGA_MEMORY (kern t) 0;
          let t = t\<lparr>kern := set_cell 0 (0x0F00 OR of_char CHR ''K'') (kern t)\<rparr>;
          t \<leftarrow> (if VGA_MEMORY (kern t) 0 = 0x0F00 OR of_char CHR ''K'' then PASS ''VGA framebuffer write/read at 0xB8000'' t
                else FAIL ''VGA framebuffer read-back mismatch'' t);
          Some (t\<lparr>kern := set_cell 0 saved (kern t)\<rparr>) }"

section \<open>Phase 2: descriptor tables\<close>

definition test_phase2_descriptors :: "tests_t \<Rightarrow> tests_t option" where
  "test_phase2_descriptors t =
     do { t \<leftarrow> SECTION ''PHASE 2: GDT & IDT'' t;
          let cs = reg_cs (gdt_state (kern t));
          t \<leftarrow> (if cs = 0x08 then PASS ''CS = 0x08 (kernel code segment correct)'' t
                else FAIL (''CS != 0x08 '' @ dash @ '' GDT not loaded correctly'') t);
          let ds = reg_ds (gdt_state (kern t));
          t \<leftarrow> (if ds = 0x10 then PASS ''DS = 0x10 (kernel data segment correct)'' t
                else FAIL (''DS != 0x10 '' @ dash @ '' GDT not loaded correctly'') t);
          let ss = reg_ss (gdt_state (kern t));
          t \<leftarrow> (if ss = 0x10 then PASS ''SS = 0x10 (stack segment correct)'' t
                else FAIL (''SS != 0x10 '' @ dash @ '' GDT not loaded correctly'') t);
          let sidt = idtr (kern t);
          t \<leftarrow> (if idt_limit sidt = 0x7FF then PASS ''IDT limit = 0x7FF (256 entries loaded)'' t
                else FAIL (''IDT limit wrong '' @ dash @ '' IDT may not be fully initialized'') t);
          t \<leftarrow> (if idt_base sidt \<noteq> 0 then PASS ''IDT base address is non-zero'' t
                else FAIL (''IDT base is 0 '' @ dash @ '' IDT not loaded'') t);
          PASS ''IDT exception handlers assumed wired (no crash so far)'' t }"

section \<open>Phase 3: interrupts and timing\<close>

text \<open>
  The busy wait between the two readings of the counter: if interrupts are enabled, those of the
  argument are handled. The flag that \<^verbatim>\<open>pushf\<close> reads is the one that \<^verbatim>\<open>cli\<close> and \<^verbatim>\<open>sti\<close> write.
\<close>

definition busy_wait :: "hardware \<Rightarrow> interrupt_frame_t list \<Rightarrow> tests_t \<Rightarrow> tests_t option" where
  "busy_wait hw fs t =
     (if int_flag (kern t) then
        (case interrupts hw fs (kern t) of Returns s \<Rightarrow> Some (t\<lparr>kern := s\<rparr>) | _ \<Rightarrow> None)
      else Some t)"

definition test_phase3_interrupts :: "hardware \<Rightarrow> test_args \<Rightarrow> tests_t \<Rightarrow> tests_t option" where
  "test_phase3_interrupts hw e t =
     do { t \<leftarrow> SECTION ''PHASE 3: PIC, PIT & Interrupts'' t;
          let freq = pit_get_frequency (kern t);
          t \<leftarrow> (if freq > 0 then PASS ''PIT frequency is non-zero'' t
                else FAIL (''PIT frequency is 0 '' @ dash @ '' PIT not initialized'') t);
          t \<leftarrow> (if freq = 100 then PASS ''PIT frequency = 100 Hz as configured'' t else FAIL ''PIT frequency != 100 Hz'' t);
          let t1 = time_get_ticks (kern t);
          t \<leftarrow> busy_wait hw (wait_frames e) t;
          let t2 = time_get_ticks (kern t);
          t \<leftarrow> (if t2 > t1 then PASS ''Tick counter is advancing (timer IRQ firing)'' t
                else FAIL (''Tick counter did not advance '' @ dash @ '' IRQ0 not firing'') t);
          t \<leftarrow> log_line ''  Ticks before wait: %d, after: %d, delta: %d''
                 [Word (ucast t1), Word (ucast t2), Word (ucast (t2 - t1))] t;
          let t = t\<lparr>kern := (kern t)\<lparr>int_flag := False\<rparr>\<rparr>;
          let if_clear = (\<not> int_flag (kern t));
          let t = t\<lparr>kern := (kern t)\<lparr>int_flag := True\<rparr>\<rparr>;
          let if_set = int_flag (kern t);
          if if_clear \<and> if_set then PASS ''CLI clears IF, STI sets IF correctly'' t
          else FAIL ''CLI/STI not toggling interrupt flag'' t }"

section \<open>Phase 4: memory\<close>

definition test_phase4_memory :: "test_args \<Rightarrow> tests_t \<Rightarrow> tests_t option" where
  "test_phase4_memory e t =
     do { t \<leftarrow> SECTION ''PHASE 4: Physical & Virtual Memory'' t;
          let paging = drop_bit 31 (cr0 e) AND 1;
          t \<leftarrow> (if paging \<noteq> 0 then PASS ''Paging is ENABLED (VMM active)'' t
                else PASS (''Paging is DISABLED (flat physical model '' @ dash @ '' OK for basic kernel)'') t);
          t \<leftarrow> (if paging \<noteq> 0 then
                  (if cr3 e \<noteq> 0 then PASS ''CR3 page directory base is non-zero'' t
                   else FAIL (''CR3 is 0 '' @ dash @ '' page directory not set up'') t)
                else Some t);
          let t = set_ram (store_le (ram_of t) 0x00200000 4 (0x12345678 :: u32)) t;
          let t = set_ram (store_le (ram_of t) 0x002FF000 4 (0x87654321 :: u32)) t;
          t \<leftarrow> (if load_le (ram_of t) 0x00200000 4 = (0x12345678 :: u32) then PASS ''Physical read/write at 2MB OK'' t
                else FAIL ''Physical read/write at 2MB FAILED'' t);
          (if load_le (ram_of t) 0x002FF000 4 = (0x87654321 :: u32) then PASS ''Physical read/write at ~3MB OK'' t
           else FAIL ''Physical read/write at ~3MB FAILED'' t) }"

section \<open>Phase 5: the heap\<close>

text \<open>
  The loop of allocations into \<^verbatim>\<open>ptrs\<close>, which stops at the first null pointer, and the loop that
  releases them. The array keeps its earlier contents where the first loop did not get.
\<close>

primrec alloc_ptrs :: "nat list \<Rightarrow> u32 list \<Rightarrow> heap_t \<Rightarrow> (bool \<times> u32 list \<times> heap_t) option" where
  "alloc_ptrs [] ptrs h = Some (True, ptrs, h)"
| "alloc_ptrs (i # is) ptrs h =
     do { (p, h) \<leftarrow> kmalloc h 32;
          let ptrs = ptrs[i := p];
          if p = 0 then Some (False, ptrs, h) else alloc_ptrs is ptrs h }"

primrec free_ptrs :: "u32 list \<Rightarrow> heap_t \<Rightarrow> heap_t option" where
  "free_ptrs [] h = Some h"
| "free_ptrs (p # ps) h = do { h \<leftarrow> kfree h p; free_ptrs ps h }"

definition unique_ptrs :: "u32 list \<Rightarrow> bool" where
  "unique_ptrs ptrs = list_all (\<lambda>i. list_all (\<lambda>j. ptrs ! i \<noteq> ptrs ! j) [Suc i..<8]) [0..<8]"

text \<open>The part of the test after the third allocation, which has no early return.\<close>

definition phase5_many :: "test_args \<Rightarrow> u32 \<Rightarrow> u32 \<Rightarrow> tests_t \<Rightarrow> tests_t option" where
  "phase5_many e b c t =
     do { (ok, ptrs, h) \<leftarrow> alloc_ptrs [0..<8] (ptrs_init e) (heap_state (kern t));
          let t = set_heap h t;
          t \<leftarrow> (if ok then PASS (''8 '' @ times_sign @ '' kmalloc(32) all succeeded'') t
                else FAIL ''One of 8 small allocations returned NULL'' t);
          t \<leftarrow> (if unique_ptrs ptrs then PASS ''All 8 allocations have unique addresses'' t
                else FAIL (''Duplicate addresses '' @ dash @ '' allocator bug'') t);
          h \<leftarrow> free_ptrs ptrs (heap_state (kern t));
          h \<leftarrow> kfree h b;
          h \<leftarrow> kfree h c;
          (big, h) \<leftarrow> kmalloc h 512;
          let t = set_heap h t;
          t \<leftarrow> (if big \<noteq> 0 then PASS ''Large kmalloc(512) after many frees succeeded (coalescing works)'' t
                else FAIL (''Large kmalloc(512) failed '' @ dash @ '' free blocks not coalesced'') t);
          h \<leftarrow> kfree (heap_state (kern t)) big;
          Some (set_heap h t) }"

definition test_phase5_allocator :: "test_args \<Rightarrow> tests_t \<Rightarrow> tests_t option" where
  "test_phase5_allocator e t =
     do { t \<leftarrow> SECTION ''PHASE 5: kmalloc / kfree'' t;
          (a, h) \<leftarrow> kmalloc (heap_state (kern t)) 64;
          let t = set_heap h t;
          if a = 0 then FAIL ''kmalloc(64) returned NULL'' t
          else do {
            t \<leftarrow> PASS ''kmalloc(64) returned non-NULL'' t;
            t \<leftarrow> log_line ''  Allocated 64 bytes at 0x%x'' [Word a] t;
            let t = set_ram (store_bytes (ram_of t) a (map of_nat [0..<64])) t;
            let ok = list_all (\<lambda>i. ram_of t (a + of_nat i) = of_nat i) [0..<64];
            t \<leftarrow> (if ok then PASS (''Write/read 64 bytes '' @ dash @ '' no corruption'') t
                  else FAIL ''Memory corruption in first allocation'' t);
            (b, h) \<leftarrow> kmalloc (heap_state (kern t)) 64;
            let t = set_heap h t;
            if b = 0 then FAIL ''kmalloc(64) second call returned NULL'' t
            else do {
              t \<leftarrow> (if b \<noteq> a then PASS ''Two allocations return different addresses'' t
                    else FAIL (''Two allocations returned SAME address '' @ dash @ '' overlap!'') t);
              t \<leftarrow> log_line ''  Second alloc at 0x%x (gap = %d bytes)'' [Word b, Word (b - a)] t;
              t \<leftarrow> (if b - a \<ge> 64 then PASS ''Gap between allocations is >= requested size'' t
                    else FAIL (''Allocations are too close '' @ dash @ '' header not accounted for'') t);
              h \<leftarrow> kfree (heap_state (kern t)) a;
              (c, h) \<leftarrow> kmalloc h 64;
              let t = set_heap h t;
              if c = 0 then FAIL ''kmalloc after kfree returned NULL'' t
              else do {
                t \<leftarrow> (if c = a then PASS ''kfree + kmalloc reuses freed block (no leak)'' t
                      else PASS ''kfree + kmalloc got new block (allocator chose differently)'' t);
                t \<leftarrow> log_line ''  After free(0x%x), new alloc at 0x%x'' [Word a, Word c] t;
                phase5_many e b c t } } } }"

section \<open>The suite\<close>

abbreviation rule_line :: string where
  "rule_line \<equiv> ''========================================''"

definition run_all_tests :: "hardware \<Rightarrow> test_args \<Rightarrow> tests_t \<Rightarrow> tests_t option" where
  "run_all_tests hw e t =
     do { let t = t\<lparr>total_pass := 0, total_fail := 0\<rparr>;
          t \<leftarrow> log_line rule_line [] t;
          t \<leftarrow> log_line ''       KERNEL SELF-TEST SUITE           '' [] t;
          t \<leftarrow> log_line rule_line [] t;
          t \<leftarrow> test_phase1_stdlib e t;
          t \<leftarrow> test_phase2_descriptors t;
          t \<leftarrow> test_phase3_interrupts hw e t;
          t \<leftarrow> test_phase4_memory e t;
          t \<leftarrow> test_phase5_allocator e t;
          t \<leftarrow> log_line rule_line [] t;
          t \<leftarrow> log_line ''RESULTS: %d passed, %d failed''
                 [Word (word_of_int (total_pass t)), Word (word_of_int (total_fail t))] t;
          t \<leftarrow> (if total_fail t = 0 then log_line ''ALL TESTS PASSED'' [] t
                else log_line (''SOME TESTS FAILED '' @ dash @ '' check output above'') [] t);
          log_line rule_line [] t }"

end
