(* ===== verification/Kernel_Run.thy ===== *)
theory Kernel_Run
  imports Kernel_Main
begin

text \<open>
  The kernel after its initialisation: the lines it prints, the seconds it watches the ticks, and
  its heap test.
\<close>

section \<open>Printed lines\<close>

definition info_line :: "u64 \<Rightarrow> string \<Rightarrow> action list" where
  "info_line t msg = log_actions 32 ''[INFO] '' t (map Put msg)"

text \<open>\<open>s'\<close> is \<open>s\<close> with the messages printed, one line each, and possibly another heap.\<close>

definition said :: "string list \<Rightarrow> boot \<Rightarrow> boot \<Rightarrow> bool" where
  "said msgs s s' \<longleftrightarrow> vga_ok s' \<and> ticks s' = ticks s \<and> int_flag s' = int_flag s \<and> isr_handlers s' = isr_handlers s \<and>
     gdt_state s' = gdt_state s \<and> idtr s' = idtr s \<and> current_pit_hz s' = current_pit_hz s \<and>
     terminal_of s' = fold (vact term_put term_color) (concat (map (info_line (ticks s)) msgs)) (terminal_of s)"

lemma said_refl: "vga_ok s \<Longrightarrow> said [] s s"
  by (simp add: said_def)

lemma said_trans: "said ms s s' \<Longrightarrow> said ns s' s'' \<Longrightarrow> said (ms @ ns) s s''"
  by (simp add: said_def)

lemma said_heap: "said ms s s' \<Longrightarrow> said ms s (s'\<lparr>heap_state := h\<rparr>)"
  by (simp add: said_def vga_ok_def cursor_ok_def terminal_of_def)

lemma said_vga_ok: "said ms s s' \<Longrightarrow> vga_ok s'"
  by (simp add: said_def)

lemma info_said:
  assumes "vga_ok (s :: boot)" "list_all piece_ok (parse_format fmt)"
    "render (parse_format fmt) args = Some (map Put msg)"
  shows "\<exists>s'. log_info fmt args s = Some s' \<and> said [msg] s s' \<and> vga_t.more s' = vga_t.more s"
proof -
  have l: "log_info fmt args s = act (info_line (ticks s) msg) s"
    using log_act(1) [OF assms(2,3), of s] by (simp add: unparse_parse info_line_def)
  obtain s' where s': "act (info_line (ticks s) msg) s = Some s'" "vga_ok s'" "only_console s s'"
    "terminal_of s' = fold (vact term_put term_color) (info_line (ticks s) msg) (terminal_of s)"
    using vga.perform_ok [OF assms(1), of "info_line (ticks s) msg"] by blast
  then show ?thesis
    using l boot_fields [OF only_console_more [OF s'(3)]] only_console_more [OF s'(3)] by (simp add: said_def)
qed

text \<open>The same after other lines have been printed, with the parts the kernel reads next.\<close>

lemma info_next:
  assumes "said ms s0 s" "list_all piece_ok (parse_format fmt)" "render (parse_format fmt) args = Some (map Put msg)"
  obtains s' where "log_info fmt args s = Some s'" "said (ms @ [msg]) s0 s'" "heap_state s' = heap_state s" "gdt_state s' = gdt_state s"
    "current_pit_hz s' = current_pit_hz s"
  using info_said [OF said_vga_ok [OF assms(1)] assms(2,3)] said_trans [OF assms(1)] boot_fields by metis

section \<open>The heap under the heap test\<close>

lemma kmalloc_at:
  assumes "heap_ok h bs" "first_fit (unat sz) (unat (heap_start h)) bs = Some (p, bs')"
  obtains h' where "kmalloc h sz = Some (of_nat p, h')" "heap_start h' = heap_start h" "heap_ok h' bs'"
  using kmalloc_run [OF assms(1), of sz] assms(2) by auto

lemma test_heap_run:
  assumes "heap_ok h [(0xFFFF4, True)]" "heap_start h = 0x200000"
  obtains h1 m h2 h3 h4 where "kmalloc h 16 = Some (0x20000C, h1)"
    "m = store_le (store_le (heap_mem h1) 0x20000C 4 (0xDEADBEEF :: u32)) 0x200010 4 (0xCAFEBABE :: u32)"
    "load_le m 0x20000C 4 = (0xDEADBEEF :: u32)" "load_le m 0x200010 4 = (0xCAFEBABE :: u32)"
    "kmalloc (h1\<lparr>heap_mem := m\<rparr>) 16 = Some (0x200028, h2)" "kfree h2 0x20000C = Some h3"
    "kmalloc h3 16 = Some (0x20000C, h4)"
    "heap_ok h4 [(16, False), (16, False), (0xFFFBC, True)]" "heap_start h4 = 0x200000"
proof -
  obtain h1 where h1: "kmalloc h 16 = Some (0x20000C, h1)" "heap_start h1 = 0x200000" "heap_ok h1 [(16, False), (0xFFFD8, True)]"
    using kmalloc_at [OF assms(1), of 16 "0x20000C" "[(16, False), (0xFFFD8, True)]"] assms(2) by (auto simp: of_nat_numeral)
  define m where "m = store_le (store_le (heap_mem h1) 0x20000C 4 (0xDEADBEEF :: u32)) 0x200010 4 (0xCAFEBABE :: u32)"
  have d: "region 0x20000C 4 \<inter> region (0x200010 :: u32) 4 = {}"
    by (auto simp: region_unat)
  have l: "load_le m 0x20000C 4 = (0xDEADBEEF :: u32)" "load_le m 0x200010 4 = (0xCAFEBABE :: u32)"
    using d by (simp_all add: m_def mem_simps)
  have "m x = heap_mem h1 x" if "x \<notin> region (of_nat 0x20000C) 16" for x
  proof -
    have "x \<notin> region 0x20000C 4" "x \<notin> region 0x200010 4" using that by (auto simp: region_unat)
    then show ?thesis by (simp add: m_def store_le_outside)
  qed
  then have "heap_ok (h1\<lparr>heap_mem := m\<rparr>) [(16, False), (0xFFFD8, True)]"
    using payload_write [OF h1(3), of "0x20000C" 16 m] h1(2) by simp
  from kmalloc_at [OF this, of 16 "0x200028" "[(16, False), (16, False), (0xFFFBC, True)]"] h1(2)
  obtain h2 where h2: "kmalloc (h1\<lparr>heap_mem := m\<rparr>) 16 = Some (0x200028, h2)" "heap_start h2 = 0x200000"
    "heap_ok h2 [(16, False), (16, False), (0xFFFBC, True)]" by (auto simp: of_nat_numeral)
  obtain h3 where h3: "kfree h2 0x20000C = Some h3" "heap_start h3 = 0x200000" "heap_ok h3 [(16, True), (16, False), (0xFFFBC, True)]"
    using kfree_run [OF h2(3), of "0x20000C" 16] h2(2) by (auto simp: of_nat_numeral)
  obtain h4 where h4: "kmalloc h3 16 = Some (0x20000C, h4)" "heap_start h4 = 0x200000" "heap_ok h4 [(16, False), (16, False), (0xFFFBC, True)]"
    using kmalloc_at [OF h3(3), of 16 "0x20000C" "[(16, False), (16, False), (0xFFFBC, True)]"] h3(2) by (auto simp: of_nat_numeral)
  show thesis using that [OF h1(1) m_def l h2(1) h3(1) h4(1,3,2)] .
qed

section \<open>The heap test passes\<close>

definition heap_test_output :: "string list" where
  "heap_test_output =
     [''Testing kmalloc...'', ''  [PASS] kmalloc returned address: 0x20000C'',
      ''  [PASS] Write/read back correct: 0xDEADBEEF 0xCAFEBABE'',
      ''  [PASS] Two allocs at different addresses: 0x20000C and 0x200028'',
      ''  After free, new alloc at: 0x20000C (should reuse 0x20000C)'']"

lemma test_addresses:
  "radix 16 0x20000C = ''20000C''" "radix 16 0x200028 = ''200028''"
  "radix 16 0xDEADBEEF = ''DEADBEEF''" "radix 16 0xCAFEBABE = ''CAFEBABE''"
  by (simp_all add: radix.simps digit_def)

lemma test_formats:
  "list_all piece_ok (parse_format ''Testing kmalloc...'')"
  "render (parse_format ''Testing kmalloc...'') [] = Some (map Put (heap_test_output ! 0))"
  "list_all piece_ok (parse_format ''  [PASS] kmalloc returned address: 0x%x'')"
  "render (parse_format ''  [PASS] kmalloc returned address: 0x%x'') [Word 0x20000C] = Some (map Put (heap_test_output ! 1))"
  "list_all piece_ok (parse_format ''  [PASS] Write/read back correct: 0x%x 0x%x'')"
  "render (parse_format ''  [PASS] Write/read back correct: 0x%x 0x%x'') [Word 0xDEADBEEF, Word 0xCAFEBABE] =
     Some (map Put (heap_test_output ! 2))"
  "list_all piece_ok (parse_format ''  [PASS] Two allocs at different addresses: 0x%x and 0x%x'')"
  "render (parse_format ''  [PASS] Two allocs at different addresses: 0x%x and 0x%x'') [Word 0x20000C, Word 0x200028] =
     Some (map Put (heap_test_output ! 3))"
  "list_all piece_ok (parse_format ''  After free, new alloc at: 0x%x (should reuse 0x%x)'')"
  "render (parse_format ''  After free, new alloc at: 0x%x (should reuse 0x%x)'') [Word 0x20000C, Word 0x20000C] =
     Some (map Put (heap_test_output ! 4))"
  by (simp_all add: heap_test_output_def test_addresses)

lemma heap_test_ok:
  assumes "vga_ok s" "heap_ok (heap_state s) [(0xFFFF4, True)]" "heap_start (heap_state s) = 0x200000"
  obtains s' where "heap_test s = Some (s', 0x20000C, 0x200028, 0x20000C)" "said heap_test_output s s'"
    "heap_ok (heap_state s') [(16, False), (16, False), (0xFFFBC, True)]" "heap_start (heap_state s') = 0x200000"
proof -
  obtain h1 m h2 h3 h4 where h: "kmalloc (heap_state s) 16 = Some (0x20000C, h1)"
    and m: "m = store_le (store_le (heap_mem h1) 0x20000C 4 (0xDEADBEEF :: u32)) 0x200010 4 (0xCAFEBABE :: u32)"
    "load_le m 0x20000C 4 = (0xDEADBEEF :: u32)" "load_le m 0x200010 4 = (0xCAFEBABE :: u32)"
    and h': "kmalloc (h1\<lparr>heap_mem := m\<rparr>) 16 = Some (0x200028, h2)" "kfree h2 0x20000C = Some h3"
    "kmalloc h3 16 = Some (0x20000C, h4)"
    "heap_ok h4 [(16, False), (16, False), (0xFFFBC, True)]" "heap_start h4 = 0x200000"
    using test_heap_run [OF assms(2,3)] .
  let ?o = heap_test_output
  obtain s1 where s1: "log_info ''Testing kmalloc...'' [] s = Some s1" "said [?o ! 0] s s1" "heap_state s1 = heap_state s"
    using info_next [OF said_refl [OF assms(1)] test_formats(1,2)] by auto
  obtain s2 where s2: "log_info ''  [PASS] kmalloc returned address: 0x%x'' [Word 0x20000C] (s1\<lparr>heap_state := h1\<rparr>) = Some s2"
    "said [?o ! 0, ?o ! 1] s s2" "heap_state s2 = h1"
    using info_next [OF said_heap [OF s1(2)] test_formats(3,4)] by auto
  obtain s3 where s3: "log_info ''  [PASS] Write/read back correct: 0x%x 0x%x'' [Word 0xDEADBEEF, Word 0xCAFEBABE]
      (s2\<lparr>heap_state := h1\<lparr>heap_mem := m\<rparr>\<rparr>) = Some s3"
    "said [?o ! 0, ?o ! 1, ?o ! 2] s s3" "heap_state s3 = h1\<lparr>heap_mem := m\<rparr>"
    using info_next [OF said_heap [OF s2(2)] test_formats(5,6)] by auto
  obtain s4 where s4: "log_info ''  [PASS] Two allocs at different addresses: 0x%x and 0x%x'' [Word 0x20000C, Word 0x200028]
      (s3\<lparr>heap_state := h2\<rparr>) = Some s4"
    "said [?o ! 0, ?o ! 1, ?o ! 2, ?o ! 3] s s4" "heap_state s4 = h2"
    using info_next [OF said_heap [OF s3(2)] test_formats(7,8)] by auto
  obtain s5 where s5: "log_info ''  After free, new alloc at: 0x%x (should reuse 0x%x)'' [Word 0x20000C, Word 0x20000C]
      (s4\<lparr>heap_state := h4\<rparr>) = Some s5"
    "said [?o ! 0, ?o ! 1, ?o ! 2, ?o ! 3, ?o ! 4] s s5" "heap_state s5 = h4"
    using info_next [OF said_heap [OF s4(2)] test_formats(9,10)] by auto
  have "heap_test s = Some (s5, 0x20000C, 0x200028, 0x20000C)"
    using s1 s2 s3 s4 s5 h h' m by (simp add: heap_test_def Let_def)
  moreover have "said ?o s s5" using s5(2) by (simp add: heap_test_output_def)
  ultimately show thesis using that h'(4,5) s5(3) by simp
qed

section \<open>Watching the ticks\<close>

text \<open>One second of sleep at 100 Hz takes a hundred timer interrupts, and nothing else changes.\<close>

lemma sleep_second:
  assumes "isr_handlers s ! 32 = Some Irq0_timer_handler" "32 < length (isr_handlers s)" "current_pit_hz s = 100"
    "\<forall>f \<in> set fs. f_int_no f = 32" "100 \<le> length fs" "unat (ticks s) + 100 < 2 ^ 64" "int_flag s"
  shows "sleep_ms hw 1000 fs s =
    Some (s\<lparr>ticks := ticks s + 100, io_trace := io_trace s @ replicate 100 (Outb 0x20 0x20)\<rparr>, drop 100 fs)"
  using sleep_loop_timer [OF assms(1,2,4,5), of "ticks s + 100" hw] assms(3,6,7)
  by (simp add: sleep_ms_def pit_get_frequency_def time_get_ticks_def)

lemma watch_ticks_ok:
  fixes s :: boot
  assumes "vga_ok s" "isr_handlers s ! 32 = Some Irq0_timer_handler" "32 < length (isr_handlers s)" "current_pit_hz s = 100"
    "\<forall>f \<in> set fs. f_int_no f = 32" "100 * n \<le> length fs" "unat (ticks s) + 100 * n < 2 ^ 64" "int_flag s"
  shows "\<exists>s'. watch_ticks hw n fs s = Some (s', drop (100 * n) fs) \<and> vga_ok s' \<and> ticks s' = ticks s + of_nat (100 * n) \<and>
    heap_state s' = heap_state s \<and> gdt_state s' = gdt_state s \<and> isr_handlers s' = isr_handlers s \<and>
    int_flag s' = int_flag s \<and> idtr s' = idtr s \<and> current_pit_hz s' = 100"
  using assms
proof (induction n arbitrary: s fs)
  case (Suc n)
  let ?s1 = "s\<lparr>ticks := ticks s + 100, io_trace := io_trace s @ replicate 100 (Outb 0x20 0x20)\<rparr>"
  have sleep: "sleep_ms hw 1000 fs s = Some (?s1, drop 100 fs)" using sleep_second [of s fs hw] Suc.prems by simp
  have ok1: "vga_ok ?s1" using Suc.prems(1) by (simp add: vga_ok_def cursor_ok_def)
  have "word_format ''  System ticks: %d'' 1" by (simp add: word_format_def)
  from boot_log [OF this ok1, of "[ucast (ticks s + 100)]"] obtain s2 where
    s2: "log_info ''  System ticks: %d'' [Word (ucast (ticks s + 100))] ?s1 = Some s2" "vga_t.more s2 = vga_t.more ?s1" "vga_ok s2"
    by (auto simp: logged_def)
  note f = boot_fields [OF s2(2)]
  have u: "unat (ticks s + 100) = unat (ticks s) + 100" using Suc.prems(7) unat_add_of_nat [of "ticks s" 100] by simp
  have g: "\<forall>f \<in> set (drop 100 fs). f_int_no f = 32" "100 * n \<le> length (drop 100 fs)"
    using Suc.prems(5,6) by (auto dest: in_set_dropD)
  obtain s' where s': "watch_ticks hw n (drop 100 fs) s2 = Some (s', drop (100 * n) (drop 100 fs))" "vga_ok s'"
    "ticks s' = ticks s2 + of_nat (100 * n)" "heap_state s' = heap_state s2" "gdt_state s' = gdt_state s2"
    "isr_handlers s' = isr_handlers s2" "int_flag s' = int_flag s2" "idtr s' = idtr s2" "current_pit_hz s' = 100"
    using Suc.IH [OF s2(3) _ _ _ g] Suc.prems f u by auto
  have "watch_ticks hw (Suc n) fs s = Some (s', drop (100 * Suc n) fs)"
    using sleep s2(1) s'(1) by (simp add: time_get_ticks_def add.commute)
  then show ?case using s'(2-9) f by (simp add: algebra_simps)
qed simp

end
