(* ===== verification/Heap_Damage.thy ===== *)
theory Heap_Damage
  imports Kmalloc_Properties
begin

text \<open>
  A heap whose first block is in use and has lost its size. The allocator never reads the size of a
  used block, so it goes on working with the blocks behind: on them \<open>kmalloc\<close> and \<open>kfree\<close> are what they
  are on a heap that starts there. This is the state in which the self-tests leave the heap.
\<close>

lemma kmalloc_skip:
  assumes "heap_start h \<noteq> 0" "hdr_is_free (heap_mem h) (heap_start h) = 0"
  shows "kmalloc h sz = map_option (\<lambda>(p, h'). (p, h'\<lparr>heap_start := heap_start h\<rparr>))
    (kmalloc (h\<lparr>heap_start := hdr_next (heap_mem h) (heap_start h)\<rparr>) sz)"
proof -
  have "kmalloc_loop (heap_mem h) sz (heap_start h) =
      kmalloc_loop (heap_mem h) sz (hdr_next (heap_mem h) (heap_start h))"
    using assms by (subst kmalloc_loop.simps) simp
  then show ?thesis by (simp add: kmalloc_def option.map_comp o_def case_prod_unfold)
qed

lemma kfree_loop_skip:
  assumes "current \<noteq> 0" "hdr_is_free m current = 0"
  shows "kfree_loop m current = kfree_loop m (hdr_next m current)"
  using assms by (subst (1 2) kfree_loop.simps) (subst kfree_loop.simps, simp)

text \<open>The first block has \<open>n\<close> bytes and the size field \<open>v\<close>; the blocks \<open>bs\<close> follow it.\<close>

definition second_block :: "heap_t \<Rightarrow> nat \<Rightarrow> u32" where
  "second_block h n = heap_start h + of_nat (12 + n)"

definition damaged :: "u32 \<Rightarrow> nat \<Rightarrow> heap_t \<Rightarrow> block list \<Rightarrow> bool" where
  "damaged v n h bs \<longleftrightarrow>
     heap_start h \<noteq> 0 \<and> unat (heap_start h) + 12 + n + extent bs < 2 ^ 32 \<and>
     hdr_size (heap_mem h) (heap_start h) = v \<and> hdr_is_free (heap_mem h) (heap_start h) = 0 \<and>
     hdr_next (heap_mem h) (heap_start h) = second_block h n \<and>
     heap_ok (h\<lparr>heap_start := second_block h n\<rparr>) bs"

lemma second_block_unat: "damaged v n h bs \<Longrightarrow> unat (second_block h n) = unat (heap_start h) + 12 + n"
  using unat_add_of_nat [of "heap_start h" "12 + n"] by (simp add: damaged_def second_block_def)

lemma tail_hdrs_above:
  "x \<in> hdrs a bs \<Longrightarrow> a + extent bs \<le> 2 ^ 32 \<Longrightarrow> a \<le> unat x"
proof (induction a bs rule: hdrs.induct)
  case (2 a n f bs)
  then show ?case using payload_region [of a 12 x] by auto
qed simp

lemma damaged_head:
  assumes "damaged v n h bs" "x \<in> region (heap_start h) 12"
  shows "unat x < unat (heap_start h) + 12"
  using assms payload_region [of "unat (heap_start h)" 12 x] by (simp add: damaged_def)

lemma damagedI:
  assumes "damaged v n h bs" "heap_start h' = heap_start h" "extent bs' = extent bs"
    "heap_ok (h'\<lparr>heap_start := second_block h n\<rparr>) bs'"
    "\<And>x. x \<in> region (heap_start h) 12 \<Longrightarrow> heap_mem h' x = heap_mem h x"
  shows "damaged v n h' bs'"
  using assms hdr_read_cong [of "heap_start h" "heap_mem h'" "heap_mem h"]
  by (simp add: damaged_def second_block_def)

lemma damaged_kmalloc:
  assumes d: "damaged v n h bs" and f: "first_fit (unat sz) (unat (heap_start h) + 12 + n) bs = Some (p, bs')"
  obtains h' where "kmalloc h sz = Some (of_nat p, h')" "damaged v n h' bs'" "heap_start h' = heap_start h"
    "of_nat p \<noteq> (0 :: u32)"
proof -
  let ?h = "h\<lparr>heap_start := second_block h n\<rparr>"
  have ok: "heap_ok ?h bs" using d by (simp add: damaged_def)
  from kmalloc_run [OF ok, of sz] f second_block_unat [OF d]
  obtain h1 where h1: "kmalloc ?h sz = Some (of_nat p, h1)" "heap_start h1 = second_block h n" "heap_ok h1 bs'"
    "extent bs' = extent bs" "\<forall>x. x \<notin> hdrs (unat (second_block h n)) bs' \<longrightarrow> heap_mem h1 x = heap_mem h x"
    by auto
  let ?h' = "h1\<lparr>heap_start := heap_start h\<rparr>"
  have "kmalloc h sz = Some (of_nat p, ?h')"
    using d h1(1) kmalloc_skip [of h sz] by (simp add: damaged_def)
  moreover have "damaged v n ?h' bs'"
  proof (rule damagedI [OF d])
    show "heap_mem ?h' x = heap_mem h x" if "x \<in> region (heap_start h) 12" for x
    proof -
      have "x \<notin> hdrs (unat (second_block h n)) bs'"
        using tail_hdrs_above [of x] damaged_head [OF d that] second_block_unat [OF d] d h1(4) by (fastforce simp: damaged_def)
      then show ?thesis using h1(5) by simp
    qed
    have "h1\<lparr>heap_start := second_block h n\<rparr> = h1" using h1(2) by (cases h1) simp
    then show "heap_ok (?h'\<lparr>heap_start := second_block h n\<rparr>) bs'" using h1(3) by simp
  qed (use h1(4) in simp_all)
  moreover have "of_nat p \<noteq> (0 :: u32)"
    using first_fit_live [OF f] live_block_range(4) [OF h1(3), of p] second_block_unat [OF d] h1(2) by auto
  ultimately show thesis using that by simp
qed

lemma damaged_kfree:
  assumes d: "damaged v n h bs" and l: "(p, k) \<in> live (unat (heap_start h) + 12 + n) bs"
  obtains h' where "kfree h (of_nat p) = Some h'" "heap_start h' = heap_start h"
    "damaged v n h' (coalesce (mark_free p (unat (heap_start h) + 12 + n) bs))"
proof -
  let ?h = "h\<lparr>heap_start := second_block h n\<rparr>" and ?bs = "coalesce (mark_free p (unat (heap_start h) + 12 + n) bs)"
  have ok: "heap_ok ?h bs" using d by (simp add: damaged_def)
  have l': "(p, k) \<in> live (unat (heap_start ?h)) bs" using l second_block_unat [OF d] by simp
  obtain h1 where h1: "kfree ?h (of_nat p) = Some h1" "heap_start h1 = second_block h n" "heap_ok h1 ?bs"
    "\<forall>x. x \<notin> hdrs (unat (second_block h n)) bs \<longrightarrow> heap_mem h1 x = heap_mem h x"
    using kfree_run [OF ok l'] second_block_unat [OF d] by auto
  have p: "of_nat p \<noteq> (0 :: u32)" "unat (of_nat p :: u32) = p" "unat (heap_start h) + 12 + n + 12 \<le> p" "p < 2 ^ 32"
    using live_block_range [OF ok l'] live_bound [OF l] by simp_all
  let ?m = "set_is_free (heap_mem h) (of_nat p - 12) 1"
  have "of_nat p - 12 + 4 = (of_nat (p - 8) :: u32)" using p(3) by (simp add: of_nat_diff)
  moreover have "unat (of_nat (p - 8) :: u32) = p - 8" using p(4) by (simp only: unat_of_nat) simp
  ultimately have u: "unat (of_nat p - 12 + 4 :: u32) = p - 8" by (simp only:)
  have same: "?m x = heap_mem h x" if "x \<in> region (heap_start h) 12" for x
    using damaged_head [OF d that] p(3) u by (auto simp: set_is_free_def)
  have "kfree_loop ?m (heap_start h) = kfree_loop ?m (second_block h n)"
    using kfree_loop_skip [of "heap_start h" ?m] hdr_read_cong [OF same] d by (simp add: damaged_def)
  then have "kfree h (of_nat p) = Some (h1\<lparr>heap_start := heap_start h\<rparr>)"
    using h1(1) p(1) by (auto simp: kfree_def Let_def sizeof_block_header_def)
  moreover have "damaged v n (h1\<lparr>heap_start := heap_start h\<rparr>) ?bs"
  proof (rule damagedI [OF d])
    show "heap_mem (h1\<lparr>heap_start := heap_start h\<rparr>) x = heap_mem h x" if "x \<in> region (heap_start h) 12" for x
    proof -
      have "x \<notin> hdrs (unat (second_block h n)) bs"
        using tail_hdrs_above [of x] damaged_head [OF d that] second_block_unat [OF d] d by (fastforce simp: damaged_def)
      then show ?thesis using h1(4) by simp
    qed
    have "h1\<lparr>heap_start := second_block h n\<rparr> = h1" using h1(2) by (cases h1) simp
    then show "heap_ok (h1\<lparr>heap_start := heap_start h\<rparr>\<lparr>heap_start := second_block h n\<rparr>) ?bs" using h1(3) by simp
  qed (simp_all add: coalesce_layout(1))
  ultimately show thesis using that by simp
qed

lemma damaged_write:
  assumes d: "damaged v n h bs" and l: "(p, k) \<in> live (unat (heap_start h) + 12 + n) bs"
    and m: "\<And>x. x \<notin> region (of_nat p) k \<Longrightarrow> m x = heap_mem h x"
  shows "damaged v n (h\<lparr>heap_mem := m\<rparr>) bs"
proof (rule damagedI [OF d])
  have ok: "heap_ok (h\<lparr>heap_start := second_block h n\<rparr>) bs" using d by (simp add: damaged_def)
  have l': "(p, k) \<in> live (unat (heap_start (h\<lparr>heap_start := second_block h n\<rparr>))) bs"
    using l second_block_unat [OF d] by simp
  show "heap_ok (h\<lparr>heap_mem := m\<rparr>\<lparr>heap_start := second_block h n\<rparr>) bs"
    using payload_write [OF ok l', of m] m by (simp add: heap_ok_def)
  have b: "unat (heap_start h) + 12 + n + 12 \<le> p" "p + k \<le> 2 ^ 32"
    using live_bound [OF l] live_block_range(3) [OF ok l'] by auto
  show "heap_mem (h\<lparr>heap_mem := m\<rparr>) x = heap_mem h x" if "x \<in> region (heap_start h) 12" for x
    using m [of x] payload_region [of p k x] damaged_head [OF d that] b by fastforce
qed simp_all

text \<open>How a heap comes to be damaged: a store over the size of the first block.\<close>

lemma damaged_intro:
  assumes ok: "heap_ok h ((n, False) # bs)" and bs: "bs \<noteq> []"
    and m: "hdr_size m (heap_start h) = v" "hdr_is_free m (heap_start h) = hdr_is_free (heap_mem h) (heap_start h)"
      "hdr_next m (heap_start h) = hdr_next (heap_mem h) (heap_start h)"
      "\<And>x. x \<in> hdrs (unat (heap_start h) + 12 + n) bs \<Longrightarrow> m x = heap_mem h x"
  shows "damaged v n (h\<lparr>heap_mem := m\<rparr>) bs"
proof -
  let ?a = "unat (heap_start h)"
  have h: "heap_start h \<noteq> 0" "?a + 12 + n + extent bs < 2 ^ 32" "hdr_is_free (heap_mem h) (heap_start h) = 0"
    "hdr_next (heap_mem h) (heap_start h) = of_nat (?a + 12 + n)" "heap_at (heap_mem h) (?a + 12 + n) bs" "no_adjacent_free bs"
    using ok bs no_adjacent_tl [of "(n, False)" bs] by (simp_all add: heap_ok_def)
  have s: "of_nat (?a + 12 + n) = second_block h n" by (simp add: second_block_def)
  have "?a + (12 + n) < 2 ^ 32" using h(2) by simp
  then have u: "unat (second_block h n) = ?a + 12 + n"
    using unat_add_of_nat [of "heap_start h" "12 + n"] by (simp add: second_block_def)
  then have "second_block h n \<noteq> 0" by auto
  then have "heap_ok (h\<lparr>heap_mem := m, heap_start := second_block h n\<rparr>) bs"
    using h(2,5,6) bs m(4) u heap_at_cong [of "?a + 12 + n" bs m "heap_mem h"] by (simp add: heap_ok_def)
  moreover have "second_block (h\<lparr>heap_mem := m\<rparr>) n = second_block h n" by (simp add: second_block_def)
  ultimately show ?thesis using h m(1-3) s by (simp add: damaged_def)
qed

text \<open>
  What the damage costs: once the first block is released, the allocator believes the size it finds
  and hands out memory that belongs to others.
\<close>

lemma damaged_release:
  assumes d: "damaged v n h ((k, False) # bs)"
  obtains h' where "kfree h (heap_start h + 12) = Some h'" "heap_start h' = heap_start h"
    "hdr_size (heap_mem h') (heap_start h) = v" "hdr_is_free (heap_mem h') (heap_start h) \<noteq> 0"
proof -
  let ?a = "heap_start h" and ?m = "set_is_free (heap_mem h) (heap_start h) 1" and ?b = "unat (heap_start h) + 12 + n"
  have h: "?a \<noteq> 0" "?b + extent ((k, False) # bs) \<le> 2 ^ 32" "hdr_next (heap_mem h) ?a = second_block h n"
    "hdr_size (heap_mem h) ?a = v" "heap_at (heap_mem h) ?b ((k, False) # bs)"
    using d second_block_unat [OF d] by (simp_all add: damaged_def heap_ok_def)
  have away: "x \<notin> region ?a 12" if "x \<in> hdrs ?b ((k, False) # bs)" for x
    using tail_hdrs_above [OF that h(2)] damaged_head [OF d, of x] by auto
  have b: "of_nat ?b = second_block h n" "second_block h n \<noteq> 0"
    using second_block_unat [OF d] by (auto simp: second_block_def)
  have at: "heap_at ?m ?b ((k, False) # bs)"
    using h(5) heap_at_cong [of ?b "(k, False) # bs" ?m "heap_mem h"] hdr_write_outside(2) [OF away] by blast
  obtain m' where m': "kfree_loop ?m (block_ptr ?b ((k, False) # bs)) = Some m'"
    "\<forall>x. x \<notin> hdrs ?b ((k, False) # bs) \<longrightarrow> m' x = ?m x"
    using kfree_loop_coalesce [OF at _ h(2)] by auto
  have "hdr_is_free ?m (second_block h n) = 0" using at b(1) by (simp only: heap_at.simps) simp
  moreover have "hdr_next ?m ?a = second_block h n" using h(3) by (simp add: mem_simps)
  ultimately have "kfree_loop ?m ?a = kfree_loop ?m (second_block h n)"
    using h(1) b(2) by (subst kfree_loop.simps) simp
  moreover have "block_ptr ?b ((k, False) # bs) = second_block h n" using b(1) by (simp add: block_ptr_def)
  moreover have "?a + 12 \<noteq> 0"
  proof
    assume "?a + 12 = 0"
    then have "unat (?a + 12) = 0" by simp
    then show False using unat_add_of_nat [of ?a 12] d by (simp add: damaged_def)
  qed
  ultimately have "kfree h (?a + 12) = Some (h\<lparr>heap_mem := m'\<rparr>)"
    using m'(1) by (simp add: kfree_def Let_def sizeof_block_header_def)
  moreover have "m' x = ?m x" if "x \<in> region ?a 12" for x using m'(2) away that by blast
  then have "hdr_size m' ?a = v" "hdr_is_free m' ?a \<noteq> 0"
    using hdr_read_cong [of ?a m' ?m] h(4) by (simp_all add: mem_simps)
  ultimately show thesis using that by simp
qed

lemma damaged_overcommits:
  assumes "damaged v n h ((k, False) # bs)" "sz \<le> v"
  obtains h1 h2 where "kfree h (heap_start h + 12) = Some h1" "kmalloc h1 sz = Some (heap_start h + 12, h2)"
proof -
  obtain h1 where h1: "kfree h (heap_start h + 12) = Some h1" "heap_start h1 = heap_start h"
    "hdr_size (heap_mem h1) (heap_start h) = v" "hdr_is_free (heap_mem h1) (heap_start h) \<noteq> 0"
    using damaged_release [OF assms(1)] .
  moreover have "heap_start h \<noteq> 0" using assms(1) by (simp add: damaged_def)
  ultimately have "\<exists>h2. kmalloc h1 sz = Some (heap_start h + 12, h2)"
    using assms(2) by (simp add: kmalloc_def kmalloc_loop.simps Let_def sizeof_block_header_def)
  then show thesis using that h1(1) by blast
qed

end
