(* ===== verification/Self_Tests_Properties.thy ===== *)
theory Self_Tests_Properties
  imports Self_Tests Kernel_Run Heap_Damage
begin

text \<open>
  The self-tests pass on the kernel that \<open>kernel_boot\<close> and the heap test leave, and what they leave
  behind themselves. The proofs walk through each phase with one rule per kind of statement; the
  rules say what a printed line and a counted verdict do to the state.
\<close>

section \<open>Walking through a test\<close>

text \<open>All tests so far passed, \<open>n\<close> of them, and apart from the screen the kernel is as \<open>X\<close>.\<close>

definition passing :: "int \<Rightarrow> boot \<Rightarrow> tests_t \<Rightarrow> bool" where
  "passing n X t \<longleftrightarrow> vga_ok (kern t) \<and> vga_t.more (kern t) = vga_t.more X \<and> total_pass t = n \<and> total_fail t = 0"

definition reaches :: "tests_t option \<Rightarrow> (tests_t \<Rightarrow> bool) \<Rightarrow> bool" where
  "reaches r Q \<longleftrightarrow> (\<exists>t. r = Some t \<and> Q t)"

lemma passing_fields:
  assumes "passing n X t"
  shows "ticks (kern t) = ticks X" "current_pit_hz (kern t) = current_pit_hz X" "isr_handlers (kern t) = isr_handlers X"
    "int_flag (kern t) = int_flag X" "gdt_state (kern t) = gdt_state X" "heap_state (kern t) = heap_state X"
    "idtr (kern t) = idtr X" "ram_of t = heap_mem (heap_state X)"
  using assms boot_fields [of "kern t" X] by (simp_all add: passing_def ram_of_def)

lemma reaches_Some [intro]: "Q t \<Longrightarrow> reaches (Some t) Q"
  by (simp add: reaches_def)

lemma reaches_bind: "reaches r (\<lambda>t. reaches (k t) Q) \<Longrightarrow> reaches (r \<bind> k) Q"
  by (auto simp: reaches_def)

lemma log_line_passing:
  assumes "passing n X t" "word_format fmt (length args)" "\<forall>a \<in> set args. \<exists>w. a = Word w"
  shows "reaches (log_line fmt args t) (passing n X)"
proof -
  obtain ws where ws: "args = map Word ws" using assms(3) by (metis ex_map_conv)
  obtain s' where "log_info fmt (map Word ws) (kern t) = Some s'" "vga_ok s'" "only_console (kern t) s'"
    using log_words(1) [of "kern t" fmt ws] assms(1,2) ws by (auto simp: passing_def)
  then show ?thesis
    using assms(1) only_console_more [of "kern t" s'] by (simp add: ws log_line_def reaches_def passing_def)
qed

lemma PASS_passing:
  assumes "passing n X t" "word_format (''  [PASS] '' @ msg) 0"
  shows "reaches (PASS msg t) (passing (n + 1) X)"
  using log_line_passing [OF assms(1), of "''  [PASS] '' @ msg" "[]"] assms(2)
  by (auto simp: PASS_def reaches_def passing_def)

text \<open>The rules, one per kind of statement.\<close>

lemma reaches_mono: "reaches r P \<Longrightarrow> (\<And>t. P t \<Longrightarrow> Q t) \<Longrightarrow> reaches r Q"
  by (auto simp: reaches_def)

lemma reaches_line:
  assumes "passing n X t" "word_format fmt (length args)" "\<forall>a \<in> set args. \<exists>w. a = Word w"
    "\<And>t'. passing n X t' \<Longrightarrow> reaches (k t') Q"
  shows "reaches (log_line fmt args t \<bind> k) Q"
  by (rule reaches_bind, rule reaches_mono [OF log_line_passing [OF assms(1-3)]], rule assms(4))

lemma reaches_section:
  assumes "passing n X t" "word_format (''--- '' @ msg @ '' ---'') 0" "\<And>t'. passing n X t' \<Longrightarrow> reaches (k t') Q"
  shows "reaches (SECTION msg t \<bind> k) Q"
  using reaches_line [OF assms(1), of "''--- '' @ msg @ '' ---''" "[]" k Q] assms(2,3) by (simp add: SECTION_def)

lemma reaches_verdict:
  assumes "passing n X t" "b" "word_format (''  [PASS] '' @ msg) 0" "\<And>t'. passing (n + 1) X t' \<Longrightarrow> reaches (k t') Q"
  shows "reaches ((if b then PASS msg t else r) \<bind> k) Q"
  using reaches_bind [OF reaches_mono [OF PASS_passing [OF assms(1,3)] assms(4)]] assms(2) by simp

lemma reaches_last_verdict:
  assumes "passing n X t" "b" "word_format (''  [PASS] '' @ msg) 0"
  shows "reaches (if b then PASS msg t else r) (passing (n + 1) X)"
  using PASS_passing [OF assms(1,3)] assms(2) by simp

lemma passing_set_heap: "passing n X t \<Longrightarrow> passing n (X\<lparr>heap_state := h\<rparr>) (set_heap h t)"
  by (cases "kern t"; cases X) (simp add: passing_def set_heap_def vga_t.defs vga_ok_def cursor_ok_def)

section \<open>Descriptor tables\<close>

lemma phase2_passes:
  assumes "passing n X t" "reg_cs (gdt_state X) = 0x08" "reg_ds (gdt_state X) = 0x10" "reg_ss (gdt_state X) = 0x10"
    "idt_limit (idtr X) = 0x7FF" "idt_base (idtr X) \<noteq> 0"
  shows "reaches (test_phase2_descriptors t) (passing (n + 6) X)"
  unfolding test_phase2_descriptors_def Let_def
  apply (rule reaches_section [OF assms(1)], simp add: word_format_def)
  apply (rule reaches_verdict, assumption, simp add: passing_fields assms, simp add: word_format_def)+
  apply (rule reaches_mono [OF PASS_passing], assumption, simp add: word_format_def, simp add: add.commute)
  done

section \<open>Interrupts\<close>

lemma busy_wait_passing:
  assumes "passing n X t" "int_flag X" "isr_handlers X ! 32 = Some Irq0_timer_handler" "32 < length (isr_handlers X)"
    "\<forall>f \<in> set fs. f_int_no f = 32"
  shows "reaches (busy_wait hw fs t) (passing n (X\<lparr>ticks := ticks X + of_nat (length fs)\<rparr>))"
proof -
  note f = passing_fields [OF assms(1)]
  have "interrupts hw fs (kern t) = Returns ((kern t)\<lparr>ticks := ticks X + of_nat (length fs),
      io_trace := io_trace (kern t) @ replicate (length fs) (Outb 0x20 0x20)\<rparr>)"
    using timer_interrupts [of "kern t" fs hw] assms(3-5) f by simp
  then show ?thesis
    using assms(1,2) f(4)
    by (cases "kern t"; cases X) (simp add: busy_wait_def reaches_def passing_def vga_ok_def cursor_ok_def vga_t.defs)
qed

lemma reaches_wait:
  assumes "passing n X t" "int_flag X" "isr_handlers X ! 32 = Some Irq0_timer_handler" "32 < length (isr_handlers X)"
    "\<forall>f \<in> set fs. f_int_no f = 32"
    "\<And>t'. passing n (X\<lparr>ticks := ticks X + of_nat (length fs)\<rparr>) t' \<Longrightarrow> reaches (k t') Q"
  shows "reaches (busy_wait hw fs t \<bind> k) Q"
  by (rule reaches_bind, rule reaches_mono [OF busy_wait_passing [OF assms(1-5)]], rule assms(6))

lemma passing_int_flag: "passing n X t \<Longrightarrow> passing n (X\<lparr>int_flag := b\<rparr>) (t\<lparr>kern := (kern t)\<lparr>int_flag := b\<rparr>\<rparr>)"
  by (cases "kern t"; cases X) (simp add: passing_def vga_t.defs vga_ok_def cursor_ok_def)

lemma phase3_passes:
  assumes "passing n X t" "int_flag X" "isr_handlers X ! 32 = Some Irq0_timer_handler" "32 < length (isr_handlers X)"
    "\<forall>f \<in> set (wait_frames e). f_int_no f = 32" "wait_frames e \<noteq> []" "current_pit_hz X = 100"
    "unat (ticks X) + length (wait_frames e) < 2 ^ 64"
  shows "reaches (test_phase3_interrupts hw e t) (passing (n + 4) (X\<lparr>ticks := ticks X + of_nat (length (wait_frames e))\<rparr>))"
proof -
  let ?X = "X\<lparr>ticks := ticks X + of_nat (length (wait_frames e))\<rparr>"
  have later: "ticks X < ticks X + of_nat (length (wait_frames e))"
    using assms(6,8) unat_add_of_nat [of "ticks X" "length (wait_frames e)"] by (simp add: word_less_nat_alt)
  have flag: "?X\<lparr>int_flag := False\<rparr>\<lparr>int_flag := True\<rparr> = ?X" using assms(2) by (cases X) simp
  show ?thesis
    unfolding test_phase3_interrupts_def Let_def
    apply (rule reaches_section [OF assms(1)], simp add: word_format_def)
    apply (rule reaches_verdict, assumption, simp add: passing_fields assms(7) pit_get_frequency_def, simp add: word_format_def)+
    apply (rule reaches_wait [OF _ assms(2-5)], assumption)
    apply (rule reaches_verdict, assumption, simp add: passing_fields later time_get_ticks_def, simp add: word_format_def)
    apply (rule reaches_line, assumption, simp add: word_format_def, simp)
    apply (rule reaches_mono [OF reaches_last_verdict [OF passing_int_flag [OF passing_int_flag]]], assumption)
      apply (simp, simp add: word_format_def, simp add: flag add.commute)
    done
qed

section \<open>Memory\<close>

lemma passing_set_ram:
  "passing n X t \<Longrightarrow> passing n (X\<lparr>heap_state := (heap_state X)\<lparr>heap_mem := m\<rparr>\<rparr>) (set_ram m t)"
  using passing_set_heap [of n X t "(heap_state X)\<lparr>heap_mem := m\<rparr>"] by (simp add: set_ram_def passing_fields)

lemma set_ram_simps [simp]: "ram_of (set_ram m t) = m" "set_ram m (set_ram m' t) = set_ram m t"
  by (simp_all add: ram_of_def set_ram_def set_heap_def)

definition probed :: "mem32 \<Rightarrow> mem32" where
  "probed m = store_le (store_le m 0x00200000 4 (0x12345678 :: u32)) 0x002FF000 4 (0x87654321 :: u32)"

lemma probed_reads:
  "load_le (probed m) 0x00200000 4 = (0x12345678 :: u32)" "load_le (probed m) 0x002FF000 4 = (0x87654321 :: u32)"
proof -
  have "region 0x00200000 4 \<inter> region (0x002FF000 :: u32) 4 = {}" by (auto simp: region_unat)
  then show "load_le (probed m) 0x00200000 4 = (0x12345678 :: u32)" "load_le (probed m) 0x002FF000 4 = (0x87654321 :: u32)"
    by (simp_all add: probed_def mem_simps)
qed

definition phase4_count :: "test_args \<Rightarrow> int" where
  "phase4_count e = (if drop_bit 31 (cr0 e) AND 1 = 0 then 3 else 4)"

lemma reaches_optional_verdict:
  assumes "passing n X t" "b \<Longrightarrow> c" "word_format (''  [PASS] '' @ msg) 0"
    "\<And>t'. passing (if b then n + 1 else n) X t' \<Longrightarrow> reaches (k t') Q"
  shows "reaches ((if b then if c then PASS msg t else r else Some t) \<bind> k) Q"
  using reaches_verdict [OF assms(1) _ assms(3), of c k Q r] assms by (cases b) simp_all

lemma reaches_either:
  assumes "passing n X t" "word_format (''  [PASS] '' @ msg) 0" "word_format (''  [PASS] '' @ msg') 0"
    "\<And>t'. passing (n + 1) X t' \<Longrightarrow> reaches (k t') Q"
  shows "reaches ((if b then PASS msg t else PASS msg' t) \<bind> k) Q"
  using reaches_verdict [OF assms(1) _ assms(2,4)] reaches_verdict [OF assms(1) _ assms(3,4)] by (cases b) fastforce+

lemma phase4_passes:
  assumes "passing n X t" "drop_bit 31 (cr0 e) AND 1 = 0 \<or> cr3 e \<noteq> 0"
  shows "reaches (test_phase4_memory e t)
    (passing (n + phase4_count e) (X\<lparr>heap_state := (heap_state X)\<lparr>heap_mem := probed (heap_mem (heap_state X))\<rparr>\<rparr>))"
  unfolding test_phase4_memory_def Let_def
  unfolding set_ram_simps probed_def [symmetric]
  apply (rule reaches_section [OF assms(1)], simp add: word_format_def)
  apply (rule reaches_either, assumption, simp add: word_format_def, simp add: word_format_def)
  apply (rule reaches_optional_verdict, assumption, use assms(2) in simp, simp add: word_format_def)
  apply (rule reaches_verdict, rule passing_set_ram, assumption, simp add: probed_reads, simp add: word_format_def)
  apply (rule reaches_mono [OF reaches_last_verdict], assumption)
    apply (simp add: passing_fields(8) probed_reads, simp add: word_format_def)
  apply (simp add: passing_fields(8) phase4_count_def add.commute split: if_splits)
  done


section \<open>Memory routines and the screen\<close>

lemma store_bytes_outside: "x \<notin> region a (length vs) \<Longrightarrow> length vs \<le> 2 ^ 32 \<Longrightarrow> store_bytes m a vs x = m x"
  by (induction vs arbitrary: m a) (auto simp: region_Suc)

lemma store_bytes_inside:
  "i < length vs \<Longrightarrow> length vs \<le> 2 ^ 32 \<Longrightarrow> store_bytes m a vs (a + of_nat i) = vs ! i"
proof (induction vs arbitrary: m a i)
  case (Cons v vs)
  show ?case
  proof (cases i)
    case 0
    have "a \<notin> region (a + 1) (length vs)" using Cons.prems(2) by (simp add: region_def unsigned_minus_1_eq_mask mask_eq_exp_minus_1)
    then show ?thesis using 0 Cons.prems(2) store_bytes_outside [of a "a + 1" vs] by simp
  next
    case (Suc j)
    then have "store_bytes (m(a := v)) (a + 1) vs (a + 1 + of_nat j) = vs ! j" using Cons.IH Cons.prems by simp
    then show ?thesis using Suc by (simp add: add.assoc)
  qed
qed simp

lemma memcmp_loop_equal:
  "(\<And>j. j < k \<Longrightarrow> m (p + i + of_nat j) = m (q + i + of_nat j)) \<Longrightarrow> memcmp_loop m p q i k = 0"
proof (induction k arbitrary: i)
  case (Suc k)
  have "m (p + i) = m (q + i)" using Suc.prems [of 0] by simp
  moreover have "m (p + (i + 1) + of_nat j) = m (q + (i + 1) + of_nat j)" if "j < k" for j
    using Suc.prems [of "Suc j"] that by (simp add: algebra_simps)
  ultimately show ?case using Suc.IH [of "i + 1"] by simp
qed simp

definition filled :: "test_args \<Rightarrow> mem32 \<Rightarrow> mem32" where
  "filled e m = snd (memset m (buf_at e) 0xAB 16)"

definition copied_arrays :: "test_args \<Rightarrow> mem32 \<Rightarrow> mem32" where
  "copied_arrays e m =
     snd (memcpy (store_bytes (store_bytes (filled e m) (src_at e) [1, 2, 3, 4, 5, 6, 7, 8]) (dst_at e) (replicate 8 0))
       (dst_at e) (src_at e) 8)"

text \<open>The memory after the phase.\<close>

definition stdlib_ram :: "test_args \<Rightarrow> mem32 \<Rightarrow> mem32" where
  "stdlib_ram e m = (copied_arrays e m)(dst_at e := 99)"

definition arrays :: "test_args \<Rightarrow> u32 set" where
  "arrays e = region (buf_at e) 16 \<union> region (src_at e) 8 \<union> region (dst_at e) 8"

lemma filled_bytes: "i < 16 \<Longrightarrow> filled e m (buf_at e + of_nat i) = 0xAB" "x \<notin> region (buf_at e) 16 \<Longrightarrow> filled e m x = m x"
  by (auto simp: filled_def memset_def memset_loop_fill)

lemma copied_arrays_facts:
  assumes "region (dst_at e) 8 \<inter> region (src_at e) 8 = {}"
  shows "i < 8 \<Longrightarrow> copied_arrays e m (dst_at e + of_nat i) = copied_arrays e m (src_at e + of_nat i)"
    "copied_arrays e m (src_at e) = 1" "x \<notin> arrays e \<Longrightarrow> copied_arrays e m x = m x"
proof -
  let ?m2 = "store_bytes (filled e m) (src_at e) [1, 2, 3, 4, 5, 6, 7, 8]" let ?m3 = "store_bytes ?m2 (dst_at e) (replicate 8 0)"
  have c: "copied_arrays e m = copied ?m3 (dst_at e) (src_at e) 8"
    using memmove_up_copied [of 8 "dst_at e" "src_at e" ?m3] disjoint_no_overlap [OF assms]
    by (simp add: copied_arrays_def memcpy_def memcpy_loop_up)
  have eight: "length [1, 2, 3, 4, 5, 6, 7, 8 :: u8] = 8" by simp
  have src: "src_at e + of_nat i \<notin> region (dst_at e) 8" if "i < 8" for i
    using region_member [OF that, of "src_at e"] assms by auto
  show "copied_arrays e m (dst_at e + of_nat i) = copied_arrays e m (src_at e + of_nat i)" if "i < 8"
    using that src [OF that] region_member [OF that, of "dst_at e"] by (simp add: c copied_def)
  have "?m3 (src_at e) = ?m2 (src_at e)" using src [of 0] store_bytes_outside [of "src_at e" "dst_at e" "replicate 8 0"] by simp
  also have "\<dots> = 1" using store_bytes_inside [of 0 "[1, 2, 3, 4, 5, 6, 7, 8]" "filled e m" "src_at e"] by simp
  finally show "copied_arrays e m (src_at e) = 1" using src [of 0] by (simp add: c copied_def)
  show "copied_arrays e m x = m x" if "x \<notin> arrays e"
    using that store_bytes_outside [of x "src_at e" "[1, 2, 3, 4, 5, 6, 7, 8]" "filled e m", unfolded eight]
      store_bytes_outside [of x "dst_at e" "replicate 8 0" ?m2]
    by (simp add: c copied_def arrays_def filled_bytes del: store_bytes.simps)
qed

lemma stdlib_ram_facts:
  assumes "region (dst_at e) 8 \<inter> region (src_at e) 8 = {}"
  shows "memcmp (copied_arrays e m) (src_at e) (dst_at e) 8 = 0"
    "memcmp (stdlib_ram e m) (src_at e) (dst_at e) 8 \<noteq> 0" "x \<notin> arrays e \<Longrightarrow> stdlib_ram e m x = m x"
proof -
  note f = copied_arrays_facts [OF assms]
  show "memcmp (copied_arrays e m) (src_at e) (dst_at e) 8 = 0"
    using f(1) by (simp add: memcmp_def memcmp_loop_equal)
  have d: "dst_at e \<in> region (dst_at e) 8" "src_at e \<in> region (src_at e) 8" by (simp_all add: region_def)
  then have "src_at e \<noteq> dst_at e" using assms by auto
  then show "memcmp (stdlib_ram e m) (src_at e) (dst_at e) 8 \<noteq> 0"
    using f(2) memcmp_loop.simps(2) [of "stdlib_ram e m" "src_at e" "dst_at e" 0 7] by (simp add: memcmp_def stdlib_ram_def)
  show "stdlib_ram e m x = m x" if "x \<notin> arrays e" using f(3) that d(1) by (auto simp: stdlib_ram_def arrays_def)
qed

lemma passing_cell: "passing n X t \<Longrightarrow> passing n X (t\<lparr>kern := set_cell i c (kern t)\<rparr>)"
  by (cases "kern t") (simp add: passing_def set_cell_def vga_ok_def cursor_ok_def vga_t.defs)

lemma phase1_passes:
  assumes "passing n X t" "region (dst_at e) 8 \<inter> region (src_at e) 8 = {}"
  shows "reaches (test_phase1_stdlib e t)
    (passing (n + 5) (X\<lparr>heap_state := (heap_state X)\<lparr>heap_mem := stdlib_ram e (heap_mem (heap_state X))\<rparr>\<rparr>))"
proof -
  let ?m = "heap_mem (heap_state X)" let ?X = "\<lambda>m. X\<lparr>heap_state := (heap_state X)\<lparr>heap_mem := m\<rparr>\<rparr>"
  note facts = stdlib_ram_facts [OF assms(2)] copied_arrays_facts [OF assms(2)]
  have p1: "passing k (?X (filled e ?m)) (set_ram (filled e (ram_of u)) u)" if "passing k X u" for k u
    using passing_set_ram [OF that] passing_fields(8) [OF that] by simp
  have p2: "passing k (?X (copied_arrays e ?m)) (set_ram (snd (memcpy (store_bytes (store_bytes (ram_of u) (src_at e)
      [1, 2, 3, 4, 5, 6, 7, 8]) (dst_at e) (replicate 8 0)) (dst_at e) (src_at e) 8)) u)"
    if "passing k (?X (filled e ?m)) u" for k u
    using passing_set_ram [OF that] passing_fields(8) [OF that] by (simp add: copied_arrays_def)
  have p3: "passing k (?X (stdlib_ram e ?m)) (set_ram ((ram_of u)(dst_at e := 99)) u)"
    if "passing k (?X (copied_arrays e ?m)) u" for k u
    using passing_set_ram [OF that] passing_fields(8) [OF that] by (simp add: stdlib_ram_def)
  show ?thesis
    unfolding test_phase1_stdlib_def Let_def set_ram_simps filled_def [symmetric]
    apply (rule reaches_section [OF assms(1)], simp add: word_format_def)
    apply (rule reaches_verdict, rule p1, assumption)
      apply (simp add: list_all_iff filled_bytes, simp add: word_format_def)
    apply (rule reaches_verdict, rule p2, assumption)
      apply (simp add: list_all_iff passing_fields(8) copied_arrays_def [symmetric] facts del: store_bytes.simps)
     apply (simp add: word_format_def)
    apply (rule reaches_verdict, assumption, simp add: passing_fields(8) facts, simp add: word_format_def)
    apply (rule reaches_verdict, rule p3, assumption)
      apply (simp add: passing_fields(8) stdlib_ram_def [symmetric] facts, simp add: word_format_def)
    apply (rule reaches_verdict, rule passing_cell, assumption, simp add: set_cell_def, simp add: word_format_def)
    apply (rule reaches_Some, rule passing_cell, simp add: add.commute)
    done
qed

section \<open>The heap\<close>

text \<open>
  Sequences of allocations and releases on the list of blocks, by which the loops of the test are
  followed on a heap with a damaged first block.
\<close>

primrec fits :: "nat \<Rightarrow> nat \<Rightarrow> nat \<Rightarrow> block list \<Rightarrow> (nat list \<times> block list) option" where
  "fits 0 k a bs = Some ([], bs)"
| "fits (Suc n) k a bs =
     (case first_fit k a bs of
        None \<Rightarrow> None
      | Some (p, bs) \<Rightarrow> map_option (\<lambda>(ps, bs). (p # ps, bs)) (fits n k a bs))"

primrec releases :: "nat list \<Rightarrow> nat \<Rightarrow> block list \<Rightarrow> block list option" where
  "releases [] a bs = Some bs"
| "releases (p # ps) a bs =
     (if p \<in> fst ` live a bs then releases ps a (coalesce (mark_free p a bs)) else None)"

lemma alloc_ptrs_damaged:
  assumes "damaged v n h bs" "fits k 32 (unat (heap_start h) + 12 + n) bs = Some (ps, bs')" "i + k \<le> length ptrs"
  shows "\<exists>h'. alloc_ptrs [i..<i + k] ptrs h = Some (True, take i ptrs @ map of_nat ps @ drop (i + k) ptrs, h') \<and>
    damaged v n h' bs' \<and> heap_start h' = heap_start h"
  using assms
proof (induction k arbitrary: h bs ps ptrs i)
  case (Suc k)
  let ?a = "unat (heap_start h) + 12 + n"
  obtain p bs1 qs where f: "first_fit 32 ?a bs = Some (p, bs1)" "fits k 32 ?a bs1 = Some (qs, bs')" "ps = p # qs"
    using Suc.prems(2) by (auto split: option.splits)
  obtain h1 where h1: "kmalloc h 32 = Some (of_nat p, h1)" "damaged v n h1 bs1" "heap_start h1 = heap_start h"
    and p: "of_nat p \<noteq> (0 :: u32)"
    using damaged_kmalloc [OF Suc.prems(1), of 32 p bs1] f(1) by auto
  have f1: "fits k 32 (unat (heap_start h1) + 12 + n) bs1 = Some (qs, bs')" using f(2) h1(3) by simp
  obtain h' where h': "alloc_ptrs [Suc i..<Suc i + k] (ptrs[i := of_nat p]) h1 =
      Some (True, take (Suc i) (ptrs[i := of_nat p]) @ map of_nat qs @ drop (Suc i + k) (ptrs[i := of_nat p]), h')"
      "damaged v n h' bs'" "heap_start h' = heap_start h1"
    using Suc.IH [OF h1(2) f1, of "Suc i" "ptrs[i := of_nat p]"] Suc.prems(3) by auto
  have "[i..<i + Suc k] = i # [Suc i..<Suc i + k]" by (simp add: upt_rec)
  moreover have "take (Suc i) (ptrs[i := of_nat p]) = take i ptrs @ [of_nat p]"
    using Suc.prems(3) by (simp add: take_Suc_conv_app_nth)
  ultimately show ?case using h' h1 p f(3) by simp
qed simp

lemma free_ptrs_damaged:
  assumes "damaged v n h bs" "releases ps (unat (heap_start h) + 12 + n) bs = Some bs'"
  shows "\<exists>h'. free_ptrs (map of_nat ps) h = Some h' \<and> damaged v n h' bs' \<and> heap_start h' = heap_start h"
  using assms
proof (induction ps arbitrary: h bs)
  case (Cons p ps)
  let ?a = "unat (heap_start h) + 12 + n"
  obtain k where k: "(p, k) \<in> live ?a bs" "releases ps ?a (coalesce (mark_free p ?a bs)) = Some bs'"
    using Cons.prems(2) by (auto split: if_splits)
  obtain h1 where "kfree h (of_nat p) = Some h1" "heap_start h1 = heap_start h" "damaged v n h1 (coalesce (mark_free p ?a bs))"
    using damaged_kfree [OF Cons.prems(1) k(1)] .
  then show ?case using Cons.IH [of h1] k(2) by auto
qed simp

text \<open>
  The heap of the kernel when the phase begins: the first block of 16 bytes is damaged, the second
  one follows, and then the rest. The addresses the phase gets are the ones below.
\<close>

abbreviation kernel_damage :: "heap_t \<Rightarrow> block list \<Rightarrow> bool" where
  "kernel_damage h bs \<equiv> damaged 0x12345678 16 h bs \<and> heap_start h = 0x200000"

definition small_blocks :: "nat list" where
  "small_blocks = [0x2000DC, 0x200108, 0x200134, 0x200160, 0x20018C, 0x2001B8, 0x2001E4, 0x200210]"

lemma kernel_damage_kmalloc:
  assumes "kernel_damage h bs" "first_fit (unat sz) 0x20001C bs = Some (p, bs')"
  shows "\<exists>h'. kmalloc h sz = Some (of_nat p, h') \<and> kernel_damage h' bs'"
  using damaged_kmalloc [of "0x12345678" 16 h bs sz p bs'] assms by auto

lemma kernel_damage_kfree:
  assumes "kernel_damage h bs" "(p, k) \<in> live 0x20001C bs" "coalesce (mark_free p 0x20001C bs) = bs'"
  shows "\<exists>h'. kfree h (of_nat p) = Some h' \<and> kernel_damage h' bs'"
  using damaged_kfree [of "0x12345678" 16 h bs p k] assms by auto

lemma replicate_eight: "replicate 8 x = [x, x, x, x, x, x, x, x]"
  by (simp add: numeral_eq_Suc)

lemma fits_small:
  "fits 8 32 0x20001C [(16, False), (64, False), (64, False), (0xFFF24, True)] =
     Some (small_blocks, [(16, False), (64, False), (64, False)] @ replicate 8 (32, False) @ [(0xFFDC4, True)])"
proof -
  have "fits (Suc (Suc (Suc (Suc (Suc (Suc (Suc (Suc 0)))))))) 32 0x20001C
      [(16, False), (64, False), (64, False), (0xFFF24, True)] =
      Some (small_blocks, [(16, False), (64, False), (64, False)] @ replicate 8 (32, False) @ [(0xFFDC4, True)])"
    by (simp add: small_blocks_def replicate_eight)
  moreover have "Suc (Suc (Suc (Suc (Suc (Suc (Suc (Suc 0))))))) = 8" by simp
  ultimately show ?thesis by (simp only:)
qed

lemma releases_small:
  "releases small_blocks 0x20001C ([(16, False), (64, False), (64, False)] @ replicate 8 (32, False) @ [(0xFFDC4, True)]) =
     Some [(16, False), (64, False), (64, False), (0xFFF24, True)]"
  by (simp add: small_blocks_def replicate_eight)

lemma phase5_many_heap:
  assumes "kernel_damage h [(16, False), (64, False), (64, False), (0xFFF24, True)]" "length ptrs = 8"
  obtains h1 h2 h3 h4 h5 h6 where "alloc_ptrs [0..<8] ptrs h = Some (True, map of_nat small_blocks, h1)"
    "free_ptrs (map of_nat small_blocks) h1 = Some h2" "kfree h2 0x200090 = Some h3" "kfree h3 0x200044 = Some h4"
    "kmalloc h4 512 = Some (0x200044, h5)" "kfree h5 0x200044 = Some h6"
    "kernel_damage h6 [(16, False), (0xFFFBC, True)]"
proof -
  let ?bs = "[(16, False), (64, False), (64, False)] @ replicate 8 (32, False) @ [(0xFFDC4, True)]"
  have a: "unat (heap_start h) + 12 + 16 = 0x20001C" using assms(1) by simp
  obtain h1 where h1: "alloc_ptrs [0..<8] ptrs h = Some (True, map of_nat small_blocks, h1)" "kernel_damage h1 ?bs"
    using alloc_ptrs_damaged [of "0x12345678" 16 h _ 8 small_blocks ?bs 0 ptrs] assms fits_small unfolding a by auto
  have a1: "unat (heap_start h1) + 12 + 16 = 0x20001C" using h1(2) by simp
  obtain h2 where h2: "free_ptrs (map of_nat small_blocks) h1 = Some h2"
    "kernel_damage h2 [(16, False), (64, False), (64, False), (0xFFF24, True)]"
    using free_ptrs_damaged [of "0x12345678" 16 h1 ?bs small_blocks] h1(2) releases_small unfolding a1 by auto
  obtain h3 where h3: "kfree h2 0x200090 = Some h3" "kernel_damage h3 [(16, False), (64, False), (0xFFF70, True)]"
    using kernel_damage_kfree [OF h2(2), of "0x200090" 64] by auto
  obtain h4 where h4: "kfree h3 0x200044 = Some h4" "kernel_damage h4 [(16, False), (0xFFFBC, True)]"
    using kernel_damage_kfree [OF h3(2), of "0x200044" 64] by auto
  obtain h5 where h5: "kmalloc h4 512 = Some (0x200044, h5)" "kernel_damage h5 [(16, False), (512, False), (0xFFDB0, True)]"
    using kernel_damage_kmalloc [OF h4(2), of 512 "0x200044"] by auto
  obtain h6 where h6: "kfree h5 0x200044 = Some h6" "kernel_damage h6 [(16, False), (0xFFFBC, True)]"
    using kernel_damage_kfree [OF h5(2), of "0x200044" 512] by auto
  show thesis using that [OF h1(1) h2(1) h3(1) h4(1) h5(1) h6] .
qed

lemma passing_heap_again: "passing n (X\<lparr>heap_state := g\<rparr>) t \<Longrightarrow> passing n (X\<lparr>heap_state := h\<rparr>) (set_heap h t)"
  using passing_set_heap [of n "X\<lparr>heap_state := g\<rparr>" t h] by simp

lemma phase5_many_passes:
  assumes t: "passing n X t" and h: "kernel_damage (heap_state X) [(16, False), (64, False), (64, False), (0xFFF24, True)]"
    and l: "length (ptrs_init e) = 8"
  shows "\<exists>h'. kernel_damage h' [(16, False), (0xFFFBC, True)] \<and>
    reaches (phase5_many e 0x200090 0x200044 t) (passing (n + 3) (X\<lparr>heap_state := h'\<rparr>))"
proof -
  obtain h1 h2 h3 h4 h5 h6 where r: "alloc_ptrs [0..<8] (ptrs_init e) (heap_state X) = Some (True, map of_nat small_blocks, h1)"
    "free_ptrs (map of_nat small_blocks) h1 = Some h2" "kfree h2 0x200090 = Some h3" "kfree h3 0x200044 = Some h4"
    "kmalloc h4 512 = Some (0x200044, h5)" "kfree h5 0x200044 = Some h6" "kernel_damage h6 [(16, False), (0xFFFBC, True)]"
    using phase5_many_heap [OF h l] .
  have u: "unique_ptrs (map of_nat small_blocks)" by (simp add: unique_ptrs_def small_blocks_def upt_rec)
  have "reaches (phase5_many e 0x200090 0x200044 t) (passing (n + 3) (X\<lparr>heap_state := h6\<rparr>))"
    unfolding phase5_many_def Let_def
    apply (simp add: passing_fields(6) [OF t] r(1) u)
    apply (rule reaches_bind, rule reaches_mono [OF PASS_passing [OF passing_set_heap [OF t]]], simp add: word_format_def)
    apply (rule reaches_bind, rule reaches_mono [OF PASS_passing], assumption, simp add: word_format_def)
    apply (simp add: passing_fields(6) r)
    apply (rule reaches_bind, rule reaches_mono [OF PASS_passing [OF passing_heap_again]], assumption, simp add: word_format_def)
    apply (simp add: passing_fields(6) r)
    apply (rule reaches_Some, rule passing_heap_again, simp add: add.commute)
    done
  then show ?thesis using r(7) by blast
qed

lemma phase5_first_heap:
  assumes "kernel_damage h [(16, False), (0xFFFBC, True)]"
  obtains h1 m h2 h3 h4 where "kmalloc h 64 = Some (0x200044, h1)"
    "m = store_bytes (heap_mem h1) 0x200044 (map of_nat [0..<64])" "list_all (\<lambda>i. m (0x200044 + of_nat i) = of_nat i) [0..<64]"
    "kmalloc (h1\<lparr>heap_mem := m\<rparr>) 64 = Some (0x200090, h2)" "kfree h2 0x200044 = Some h3" "kmalloc h3 64 = Some (0x200044, h4)"
    "kernel_damage h4 [(16, False), (64, False), (64, False), (0xFFF24, True)]"
proof -
  obtain h1 where h1: "kmalloc h 64 = Some (0x200044, h1)" "kernel_damage h1 [(16, False), (64, False), (0xFFF70, True)]"
    using kernel_damage_kmalloc [OF assms, of 64 "0x200044"] by auto
  define m where "m = store_bytes (heap_mem h1) 0x200044 (map of_nat [0..<64])"
  have r: "list_all (\<lambda>i. m (0x200044 + of_nat i) = of_nat i) [0..<64]"
    using store_bytes_inside [of _ "map of_nat [0..<64]" "heap_mem h1" "0x200044"] by (simp add: m_def list_all_iff del: upt_conv_Cons_Cons)
  have "kernel_damage (h1\<lparr>heap_mem := m\<rparr>) [(16, False), (64, False), (0xFFF70, True)]"
    using damaged_write [of "0x12345678" 16 h1 _ "0x200044" 64 m] h1(2)
      store_bytes_outside [of _ "0x200044" "map of_nat [0..<64]" "heap_mem h1"] by (simp add: m_def)
  from kernel_damage_kmalloc [OF this, of 64 "0x200090"]
  obtain h2 where h2: "kmalloc (h1\<lparr>heap_mem := m\<rparr>) 64 = Some (0x200090, h2)"
    "kernel_damage h2 [(16, False), (64, False), (64, False), (0xFFF24, True)]" by auto
  obtain h3 where h3: "kfree h2 0x200044 = Some h3" "kernel_damage h3 [(16, False), (64, True), (64, False), (0xFFF24, True)]"
    using kernel_damage_kfree [OF h2(2), of "0x200044" 64] by auto
  obtain h4 where h4: "kmalloc h3 64 = Some (0x200044, h4)" "kernel_damage h4 [(16, False), (64, False), (64, False), (0xFFF24, True)]"
    using kernel_damage_kmalloc [OF h3(2), of 64 "0x200044"] by auto
  show thesis using that [OF h1(1) m_def r h2(1) h3(1) h4] .
qed

lemma phase5_passes:
  assumes t: "passing n X t" and h: "kernel_damage (heap_state X) [(16, False), (0xFFFBC, True)]"
    and l: "length (ptrs_init e) = 8"
  shows "\<exists>h'. kernel_damage h' [(16, False), (0xFFFBC, True)] \<and>
    reaches (test_phase5_allocator e t) (passing (n + 8) (X\<lparr>heap_state := h'\<rparr>))"
proof -
  obtain h1 m h2 h3 h4 where r: "kmalloc (heap_state X) 64 = Some (0x200044, h1)"
    and m: "m = store_bytes (heap_mem h1) 0x200044 (map of_nat [0..<64])" "list_all (\<lambda>i. m (0x200044 + of_nat i) = of_nat i) [0..<64]"
    and r': "kmalloc (h1\<lparr>heap_mem := m\<rparr>) 64 = Some (0x200090, h2)" "kfree h2 0x200044 = Some h3" "kmalloc h3 64 = Some (0x200044, h4)"
    and d: "kernel_damage h4 [(16, False), (64, False), (64, False), (0xFFF24, True)]"
    using phase5_first_heap [OF h] .
  let ?X = "\<lambda>h. X\<lparr>heap_state := h\<rparr>"
  have many: "reaches (phase5_many e 0x200090 0x200044 u)
      (\<lambda>u. \<exists>h'. kernel_damage h' [(16, False), (0xFFFBC, True)] \<and> passing (k + 3) (?X h') u)" if u: "passing k (?X h4) u" for k u
  proof -
    obtain h' where h': "kernel_damage h' [(16, False), (0xFFFBC, True)]"
      "reaches (phase5_many e 0x200090 0x200044 u) (passing (k + 3) (?X h'))"
      using phase5_many_passes [OF u _ l] d by auto
    from h'(2) show ?thesis by (rule reaches_mono) (use h'(1) in blast)
  qed
  have "reaches (test_phase5_allocator e t)
      (\<lambda>u. \<exists>h'. kernel_damage h' [(16, False), (0xFFFBC, True)] \<and> passing (n + 8) (?X h') u)"
    unfolding test_phase5_allocator_def Let_def
    apply (rule reaches_section [OF t], simp add: word_format_def)
    apply (simp add: passing_fields(6) r)
    apply (rule reaches_bind, rule reaches_mono [OF PASS_passing [OF passing_set_heap]], assumption, simp add: word_format_def)
    apply (rule reaches_line, assumption, simp add: word_format_def, simp)
    apply (rule reaches_verdict, rule passing_set_ram, assumption)
      apply (simp add: passing_fields(8) m(1) [symmetric] m(2), simp add: word_format_def)
    apply (simp add: passing_fields(6,8) m(1) [symmetric] r')
    apply (rule reaches_bind, rule reaches_mono [OF PASS_passing [OF passing_heap_again]], assumption, simp add: word_format_def)
    apply (rule reaches_line, assumption, simp add: word_format_def, simp)
    apply (rule reaches_bind, rule reaches_mono [OF PASS_passing], assumption, simp add: word_format_def)
    apply (simp add: passing_fields(6) r')
    apply (rule reaches_bind, rule reaches_mono [OF PASS_passing [OF passing_heap_again]], assumption, simp add: word_format_def)
    apply (rule reaches_line, assumption, simp add: word_format_def, simp)
    apply (rule reaches_mono [OF many], assumption, simp add: add.commute)
    done
  then show ?thesis unfolding reaches_def by blast
qed

section \<open>The suite\<close>

text \<open>What the suite relies on: the local arrays lie apart from each other and from the heap.\<close>

definition arrays_ok :: "test_args \<Rightarrow> bool" where
  "arrays_ok e \<longleftrightarrow> region (dst_at e) 8 \<inter> region (src_at e) 8 = {} \<and> arrays e \<inter> region 0x200000 0x100000 = {} \<and>
     length (ptrs_init e) = 8"

lemma kernel_heap_damaged:
  assumes ok: "heap_ok h [(16, False), (16, False), (0xFFFBC, True)]" "heap_start h = 0x200000"
    and m: "\<And>x. x \<in> region 0x200000 0x100000 \<Longrightarrow> m x = heap_mem h x"
  shows "kernel_damage (h\<lparr>heap_mem := probed m\<rparr>) [(16, False), (0xFFFBC, True)]"
proof -
  have o: "x \<notin> region 0x200000 4 \<Longrightarrow> x \<notin> region 0x2FF000 4 \<Longrightarrow> probed m x = m x" for x
    by (simp add: probed_def store_le_outside)
  have h: "probed m x = heap_mem h x" if "x \<in> region 0x20001C 12 \<union> region 0x200038 12 \<union> region 0x200008 4 \<union> {0x200004}" for x
    using that o [of x] m [of x] by (auto simp: region_unat)
  have "hdr_next (probed m) 0x200000 = hdr_next (heap_mem h) 0x200000"
    using h by (auto simp: hdr_next_def intro!: load_le_cong)
  moreover have "hdr_is_free (probed m) 0x200000 = hdr_is_free (heap_mem h) 0x200000" using h by (simp add: hdr_is_free_def)
  moreover have "hdr_size (probed m) 0x200000 = 0x12345678" using probed_reads by (simp add: hdr_size_def)
  ultimately show ?thesis
    using damaged_intro [OF ok(1), of "probed m" "0x12345678"] ok(2) h by simp
qed

text \<open>The report: four lines.\<close>

definition report :: "int \<Rightarrow> string list" where
  "report n = [rule_line, ''RESULTS: '' @ decimal n @ '' passed, 0 failed'', ''ALL TESTS PASSED'', rule_line]"

lemma log_line_said:
  assumes "passing n X t" "said ms s0 (kern t)" "list_all piece_ok (parse_format fmt)"
    "render (parse_format fmt) args = Some (map Put msg)"
  obtains t' where "log_line fmt args t = Some t'" "passing n X t'" "said (ms @ [msg]) s0 (kern t')"
proof -
  obtain s' where s': "log_info fmt args (kern t) = Some s'" "said [msg] (kern t) s'" "vga_t.more s' = vga_t.more (kern t)"
    using info_said [OF _ assms(3,4), of "kern t"] assms(1) by (auto simp: passing_def)
  show thesis
    using that [of "t\<lparr>kern := s'\<rparr>"] s' said_trans [OF assms(2) s'(2)] said_vga_ok [OF s'(2)] assms(1)
    by (simp add: log_line_def passing_def)
qed

lemma report_said:
  assumes t: "passing n X t" and n: "n = 26 \<or> n = 27"
  obtains u where "do { t \<leftarrow> log_line rule_line [] t;
          t \<leftarrow> log_line ''RESULTS: %d passed, %d failed''
                 [Word (word_of_int (total_pass t)), Word (word_of_int (total_fail t))] t;
          t \<leftarrow> (if total_fail t = 0 then log_line ''ALL TESTS PASSED'' [] t
                else log_line (''SOME TESTS FAILED '' @ dash @ '' check output above'') [] t);
          log_line rule_line [] t } = Some u" "passing n X u" "said (report n) (kern t) (kern u)"
proof -
  have f: "list_all piece_ok (parse_format rule_line)" "render (parse_format rule_line) [] = Some (map Put rule_line)"
    "list_all piece_ok (parse_format ''ALL TESTS PASSED'')" "render (parse_format ''ALL TESTS PASSED'') [] = Some (map Put ''ALL TESTS PASSED'')"
    "list_all piece_ok (parse_format ''RESULTS: %d passed, %d failed'')"
    by simp_all
  have "sint (word_of_int n :: u32) = n" "decimal 0 = ''0''"
    using n by (auto simp: decimal_def radix.simps [of 10 0] digit_def)
  then have r: "render (parse_format ''RESULTS: %d passed, %d failed'') [Word (word_of_int n), Word (word_of_int 0)] =
      Some (map Put (''RESULTS: '' @ decimal n @ '' passed, 0 failed''))"
    by simp
  have s0: "said [] (kern t) (kern t)" using t said_refl by (simp add: passing_def)
  obtain t1 where t1: "log_line rule_line [] t = Some t1" "passing n X t1" "said [rule_line] (kern t) (kern t1)"
    using log_line_said [OF t s0 f(1,2)] unfolding append.simps .
  have c1: "total_pass t1 = n" "total_fail t1 = 0" using t1(2) by (simp_all add: passing_def)
  obtain t2 where t2: "log_line ''RESULTS: %d passed, %d failed'' [Word (word_of_int n), Word (word_of_int 0)] t1 = Some t2" "passing n X t2"
    "said [rule_line, ''RESULTS: '' @ decimal n @ '' passed, 0 failed''] (kern t) (kern t2)"
    using log_line_said [OF t1(2,3) f(5) r] unfolding append.simps .
  have c2: "total_fail t2 = 0" using t2(2) by (simp add: passing_def)
  obtain t3 where t3: "log_line ''ALL TESTS PASSED'' [] t2 = Some t3" "passing n X t3"
    "said [rule_line, ''RESULTS: '' @ decimal n @ '' passed, 0 failed'', ''ALL TESTS PASSED''] (kern t) (kern t3)"
    using log_line_said [OF t2(2,3) f(3,4)] unfolding append.simps .
  obtain u where u: "log_line rule_line [] t3 = Some u" "passing n X u" "said (report n) (kern t) (kern u)"
    using log_line_said [OF t3(2,3) f(1,2)] unfolding report_def append.simps .
  show thesis using that [of u] t1(1) c1 t2(1) c2 t3(1) u by simp
qed

lemma suite_end:
  assumes t: "passing k X t" "kernel_damage (heap_state X) [(16, False), (0xFFFBC, True)]" "length (ptrs_init e) = 8"
    and k: "k + 8 = 26 \<or> k + 8 = 27"
  shows "reaches (test_phase5_allocator e t \<bind> (\<lambda>t. do { t \<leftarrow> log_line rule_line [] t;
          t \<leftarrow> log_line ''RESULTS: %d passed, %d failed''
                 [Word (word_of_int (total_pass t)), Word (word_of_int (total_fail t))] t;
          t \<leftarrow> (if total_fail t = 0 then log_line ''ALL TESTS PASSED'' [] t
                else log_line (''SOME TESTS FAILED '' @ dash @ '' check output above'') [] t);
          log_line rule_line [] t }))
    (\<lambda>u. \<exists>h t5. passing (k + 8) (X\<lparr>heap_state := h\<rparr>) u \<and> kernel_damage h [(16, False), (0xFFFBC, True)] \<and>
       said (report (k + 8)) t5 (kern u))"
proof -
  obtain h where h: "kernel_damage h [(16, False), (0xFFFBC, True)]"
    "reaches (test_phase5_allocator e t) (passing (k + 8) (X\<lparr>heap_state := h\<rparr>))"
    using phase5_passes [OF t] by blast
  from h(2) obtain t5 where t5: "test_phase5_allocator e t = Some t5" "passing (k + 8) (X\<lparr>heap_state := h\<rparr>) t5"
    unfolding reaches_def by blast
  show ?thesis
    by (rule report_said [OF t5(2) k]) (use t5(1) h(1) in \<open>auto simp: reaches_def\<close>)
qed

text \<open>The kernel that the suite is run on: what \<open>kernel_boot\<close> and the heap test establish.\<close>

definition ready :: "test_args \<Rightarrow> boot \<Rightarrow> bool" where
  "ready e X \<longleftrightarrow> vga_ok X \<and> reg_cs (gdt_state X) = 0x08 \<and> reg_ds (gdt_state X) = 0x10 \<and> reg_ss (gdt_state X) = 0x10 \<and>
     idt_limit (idtr X) = 0x7FF \<and> idt_base (idtr X) \<noteq> 0 \<and> int_flag X \<and> current_pit_hz X = 100 \<and>
     isr_handlers X ! 32 = Some Irq0_timer_handler \<and> 32 < length (isr_handlers X) \<and>
     heap_ok (heap_state X) [(16, False), (16, False), (0xFFFBC, True)] \<and> heap_start (heap_state X) = 0x200000 \<and>
     wait_frames e \<noteq> [] \<and> (\<forall>f \<in> set (wait_frames e). f_int_no f = 32) \<and> unat (ticks X) + length (wait_frames e) < 2 ^ 64 \<and>
     (drop_bit 31 (cr0 e) AND 1 = 0 \<or> cr3 e \<noteq> 0) \<and> arrays_ok e"

lemma suite_reaches:
  assumes X: "ready e (kern t)"
  shows "reaches (run_all_tests hw e t)
    (\<lambda>u. \<exists>h t5. passing (23 + phase4_count e) ((kern t)\<lparr>ticks := ticks (kern t) + of_nat (length (wait_frames e)), heap_state := h\<rparr>) u \<and>
       kernel_damage h [(16, False), (0xFFFBC, True)] \<and> said (report (23 + phase4_count e)) t5 (kern u))"
proof -
  let ?X = "kern t" let ?h = "heap_state ?X" let ?m = "stdlib_ram e (heap_mem ?h)"
  let ?X1 = "?X\<lparr>heap_state := ?h\<lparr>heap_mem := ?m\<rparr>\<rparr>"
  let ?X3 = "?X1\<lparr>ticks := ticks ?X + of_nat (length (wait_frames e))\<rparr>"
  let ?X4 = "?X3\<lparr>heap_state := ?h\<lparr>heap_mem := probed ?m\<rparr>\<rparr>"
  have t0: "passing 0 ?X (t\<lparr>total_pass := 0, total_fail := 0\<rparr>)" using X by (simp add: passing_def ready_def)
  have disj: "region (dst_at e) 8 \<inter> region (src_at e) 8 = {}" using X by (simp add: ready_def arrays_ok_def)
  have "arrays e \<inter> region 0x200000 0x100000 = {}" using X by (simp add: ready_def arrays_ok_def)
  then have "\<And>x. x \<in> region 0x200000 0x100000 \<Longrightarrow> ?m x = heap_mem ?h x"
    using stdlib_ram_facts(3) [OF disj] by blast
  then have d: "kernel_damage (heap_state ?X4) [(16, False), (0xFFFBC, True)]"
    using kernel_heap_damaged [of ?h ?m] X by (simp add: ready_def)
  have n: "0 + 5 + 6 + 4 + phase4_count e + 8 = 26 \<or> 0 + 5 + 6 + 4 + phase4_count e + 8 = 27" by (simp add: phase4_count_def)
  have l: "length (ptrs_init e) = 8" using X by (simp add: ready_def arrays_ok_def)
  show ?thesis
    unfolding run_all_tests_def Let_def
    apply (rule reaches_line [OF t0], simp add: word_format_def, simp)
    apply (rule reaches_line, assumption, simp add: word_format_def, simp)
    apply (rule reaches_line, assumption, simp add: word_format_def, simp)
    apply (rule reaches_bind, rule reaches_mono [OF phase1_passes [OF _ disj]], assumption)
    apply (rule reaches_bind, rule reaches_mono [OF phase2_passes], assumption)
         apply (use X in \<open>simp_all add: ready_def\<close>) [5]
    apply (rule reaches_bind, rule reaches_mono [OF phase3_passes [where e = e]], assumption)
           apply (use X in \<open>simp_all add: ready_def\<close>) [7]
    apply (rule reaches_bind, rule reaches_mono [OF phase4_passes [where e = e]], assumption)
     apply (use X in \<open>simp add: ready_def\<close>)
    apply (rule reaches_mono [OF suite_end [OF _ _ l n]], simp, use d in simp, simp add: add.commute)
    done
qed

end
