(* ===== verification/Kernel_Complete.thy ===== *)
theory Kernel_Complete
  imports Self_Tests_Properties
begin

text \<open>
  \<open>kernel_main\<close> as a whole: the initialisation, five seconds of ticks, the heap test and the self-tests,
  up to the loop over \<^verbatim>\<open>hlt\<close> in which it stays. The interrupts that arrive while the kernel sleeps
  are an argument; those left over are part of the result, with the three pointers of the heap test.
\<close>

definition kernel_until_tests :: "hardware \<Rightarrow> (nat \<Rightarrow> u32) \<Rightarrow> (nat \<Rightarrow> u32) \<Rightarrow> u32 \<Rightarrow> u32 \<Rightarrow> interrupt_frame_t list \<Rightarrow> boot \<Rightarrow>
    (boot \<times> interrupt_frame_t list \<times> u32 \<times> u32 \<times> u32) option" where
  "kernel_until_tests hw isr irq gdt_address idt_address fs s =
     do { s \<leftarrow> kernel_boot hw isr irq gdt_address idt_address s;
          (s, fs) \<leftarrow> watch_ticks hw 5 fs s;
          s \<leftarrow> log_info ''Boot sequence complete. Entering kernel idle loop.'' [] s;
          (s, a, b, c) \<leftarrow> heap_test s;
          Some (s, fs, a, b, c) }"

definition kernel_main :: "hardware \<Rightarrow> (nat \<Rightarrow> u32) \<Rightarrow> (nat \<Rightarrow> u32) \<Rightarrow> u32 \<Rightarrow> u32 \<Rightarrow> interrupt_frame_t list \<Rightarrow> test_args \<Rightarrow> boot \<Rightarrow>
    (tests_t \<times> interrupt_frame_t list \<times> u32 \<times> u32 \<times> u32) option" where
  "kernel_main hw isr irq gdt_address idt_address fs e s =
     do { (s, fs, a, b, c) \<leftarrow> kernel_until_tests hw isr irq gdt_address idt_address fs s;
          t \<leftarrow> run_all_tests hw e \<lparr>kern = s, total_pass = 0, total_fail = 0\<rparr>;
          Some (t, fs, a, b, c) }"

text \<open>What the environment has to provide for the self-tests to pass.\<close>

definition env_ok :: "test_args \<Rightarrow> bool" where
  "env_ok e \<longleftrightarrow> wait_frames e \<noteq> [] \<and> (\<forall>f \<in> set (wait_frames e). f_int_no f = 32) \<and> length (wait_frames e) < 2 ^ 63 \<and>
     (drop_bit 31 (cr0 e) AND 1 = 0 \<or> cr3 e \<noteq> 0) \<and> arrays_ok e"

lemma kernel_until_tests_ok:
  assumes "pic_idle c (io_trace s)" "pic_answers hw c" "length (gdt (gdt_state s)) = GDT_ENTRY_COUNT"
    "ticks s = 0" "\<forall>f \<in> set fs. f_int_no f = 32" "500 \<le> length fs" "ia \<noteq> 0" "env_ok e"
  obtains s' where "kernel_until_tests hw isr irq ga ia fs s = Some (s', drop 500 fs, 0x20000C, 0x200028, 0x20000C)"
    "ready e s'" "ticks s' = 500"
proof -
  obtain s1 where s1: "kernel_boot hw isr irq ga ia s = Some s1" "booted c (masked c (io_trace s)) irq ga ia s1" "ticks s1 = ticks s"
    using kernel_boot_ok [OF assms(1-3)] by blast
  obtain s2 where s2: "watch_ticks hw 5 fs s1 = Some (s2, drop 500 fs)" "vga_ok s2" "ticks s2 = 500" "heap_state s2 = heap_state s1"
    "gdt_state s2 = gdt_state s1" "isr_handlers s2 = isr_handlers s1" "int_flag s2 = int_flag s1" "idtr s2 = idtr s1" "current_pit_hz s2 = 100"
    using watch_ticks_ok [of s1 fs 5 hw] s1(2,3) assms(4-6) by (auto simp: booted_def pit_get_frequency_def)
  have r: "render (parse_format ''Boot sequence complete. Entering kernel idle loop.'') [] =
      Some (map Put ''Boot sequence complete. Entering kernel idle loop.'')"
    "list_all piece_ok (parse_format ''Boot sequence complete. Entering kernel idle loop.'')" by simp_all
  obtain s3 where s3: "log_info ''Boot sequence complete. Entering kernel idle loop.'' [] s2 = Some s3"
    "said [''Boot sequence complete. Entering kernel idle loop.''] s2 s3" "heap_state s3 = heap_state s2"
    using info_next [OF said_refl [OF s2(2)] r(2,1)] by (metis append_Nil)
  have hs: "heap_ok (heap_state s3) [(0xFFFF4, True)]" "heap_start (heap_state s3) = 0x200000"
    using s3(3) s2(4) s1(2) by (simp_all add: booted_def)
  obtain s4 where s4: "heap_test s3 = Some (s4, 0x20000C, 0x200028, 0x20000C)" "said heap_test_output s3 s4"
    "heap_ok (heap_state s4) [(16, False), (16, False), (0xFFFBC, True)]" "heap_start (heap_state s4) = 0x200000"
    using heap_test_ok [OF said_vga_ok [OF s3(2)] hs] .
  have "kernel_until_tests hw isr irq ga ia fs s = Some (s4, drop 500 fs, 0x20000C, 0x200028, 0x20000C)"
    using s1(1) s2(1) s3(1) s4(1) by (simp add: kernel_until_tests_def)
  moreover have "ticks s4 = 500" using s4(2) s3(2) s2(3) by (simp add: said_def)
  moreover from this have "ready e s4"
    using s4(2-4) s3(2) s2(5-9) s1(2) assms(7,8) by (simp add: ready_def env_ok_def said_def booted_def c_const)
  ultimately show thesis using that by blast
qed

lemma kernel_main_ok:
  assumes "pic_idle c (io_trace s)" "pic_answers hw c" "length (gdt (gdt_state s)) = GDT_ENTRY_COUNT"
    "ticks s = 0" "\<forall>f \<in> set fs. f_int_no f = 32" "500 \<le> length fs" "ia \<noteq> 0" "env_ok e"
  obtains t s5 where "kernel_main hw isr irq ga ia fs e s = Some (t, drop 500 fs, 0x20000C, 0x200028, 0x20000C)"
    "total_pass t = 23 + phase4_count e" "total_fail t = 0" "ticks (kern t) = 500 + of_nat (length (wait_frames e))"
    "said (report (23 + phase4_count e)) s5 (kern t)"
proof -
  obtain s' where s': "kernel_until_tests hw isr irq ga ia fs s = Some (s', drop 500 fs, 0x20000C, 0x200028, 0x20000C)"
    "ready e s'" "ticks s' = 500"
    using kernel_until_tests_ok [OF assms] .
  have "ready e (kern \<lparr>kern = s', total_pass = 0, total_fail = 0\<rparr>)" using s'(2) by simp
  from suite_reaches [OF this, of hw] obtain u h s5 where
    u: "run_all_tests hw e \<lparr>kern = s', total_pass = 0, total_fail = 0\<rparr> = Some u"
    "passing (23 + phase4_count e) (s'\<lparr>ticks := ticks s' + of_nat (length (wait_frames e)), heap_state := h\<rparr>) u"
    "said (report (23 + phase4_count e)) s5 (kern u)"
    unfolding reaches_def by auto
  have "kernel_main hw isr irq ga ia fs e s = Some (u, drop 500 fs, 0x20000C, 0x200028, 0x20000C)"
    using s'(1) u(1) by (simp add: kernel_main_def)
  then show thesis using that u(2,3) s'(3) passing_fields(1) [OF u(2)] by (simp add: passing_def)
qed

end
