(* ===== verification/Spec2Isabelle.thy ===== *)
theory Spec2Isabelle
  imports Lib_Memory Vmm_Properties Process_Properties Isr_Stubs Kernel_Complete
begin

text \<open>
  \<^bold>\<open>A verification of os-kernel\<close>

  The repository holds a small 32-bit x86 kernel and, beside it, the memory management of a larger
  one: the kernel boots, prints on the VGA text screen, installs segment and interrupt tables,
  programs the interrupt controllers and the timer, allocates from a heap and keeps a round-robin
  queue of processes; \<^verbatim>\<open>memory_map\<close>, \<^verbatim>\<open>pmm\<close> and \<^verbatim>\<open>vmm\<close> manage 64 MB of simulated physical memory and
  four-level page tables in it.

  \<^bold>\<open>Theories and the code they model\<close>

  \<^descr>[\<open>Prelude\<close>] the C integer types as words, the macros of \<^verbatim>\<open>types/types.h\<close>, and the collections
    \<open>word_unat\<close>, \<open>c_const\<close>, \<open>mem_simps\<close> of rewrite rules the other theories use.
  \<^descr>[\<open>Byte_Memory\<close>] byte memory with little-endian loads and stores, and which reads a write leaves
    alone.
  \<^descr>[\<open>Lib_Memory\<close>] \<^verbatim>\<open>lib/memory.c\<close>: copying, filling, comparing, and the string routines.
  \<^descr>[\<open>Memory_Map\<close>] \<^verbatim>\<open>memory_map/memory_map.c\<close>: the table of memory regions.
  \<^descr>[\<open>Pmm\<close>, \<open>Pmm_Init\<close>, \<open>Frame_Allocator\<close>, \<open>Pmm_Properties\<close>] \<^verbatim>\<open>pmm/pmm.c\<close>: the bitmap allocator of
    physical pages; its contract towards clients is the locale \<open>frame_allocator\<close>, extended to
    \<open>zeroing_allocator\<close>, which \<open>pmm_alloc\<close> interprets.
  \<^descr>[\<open>Page_Table\<close>, \<open>Vmm\<close>, \<open>Address_Space\<close>, \<open>Vmm_Space\<close>, \<open>Vmm_Properties\<close>] \<^verbatim>\<open>vmm/vmm.c\<close>: page tables as
    trees of pages taken from the allocator; the locale \<open>address_space\<close> states what mapping,
    unmapping and translating do to a partial function from pages to entries, \<open>address_space_ranges\<close>
    extends it to ranges, and both are interpreted on the code's functions.
  \<^descr>[\<open>Kmalloc\<close>, \<open>Heap_Contract\<close>, \<open>Kmalloc_Properties\<close>] \<^verbatim>\<open>kmalloc.c\<close>: the heap as a linked list of headers
    in byte memory; the locale \<open>heap\<close> is what its clients rely on.
  \<^descr>[\<open>Process\<close>, \<open>Process_Properties\<close>] \<^verbatim>\<open>pcb.c\<close>, \<^verbatim>\<open>scheduler.c\<close>, \<^verbatim>\<open>switch.asm\<close>: process control blocks in
    the heap, the circular ready queue and the context switch, instruction by instruction.
  \<^descr>[\<open>Io_Ports\<close>] \<^verbatim>\<open>arch/x86/io.h\<close>: port accesses, recorded as a trace. What a port answers is a
    parameter, a function of the trace so far.
  \<^descr>[\<open>Spinlock\<close>] \<^verbatim>\<open>include/spinlock.h\<close>: the lock as one caller runs it and as contenders interleave.
  \<^descr>[\<open>Vga\<close>, \<open>Console\<close>, \<open>Vga_Properties\<close>] \<^verbatim>\<open>drivers/vga/vga.c\<close>: the screen, the cursor and the lock. The
    locale \<open>console\<close> is what printing code relies on, the abstract terminal what the driver
    implements.
  \<^descr>[\<open>Printf\<close>, \<open>Printf_Properties\<close>] \<^verbatim>\<open>lib/printf.c\<close>: numbers, formats and colour sequences.
  \<^descr>[\<open>Log\<close>] \<^verbatim>\<open>time/time.c\<close>, \<^verbatim>\<open>log/log.c\<close>, \<^verbatim>\<open>kernel/stubs.c\<close>: the tick counter and the log.
  \<^descr>[\<open>Pic\<close>, \<open>Pit\<close>] \<^verbatim>\<open>pic/pic.c\<close>, \<^verbatim>\<open>pit/pit.c\<close>: the interrupt controllers and the timer, with the state
    that the documented chips have after a trace of port writes.
  \<^descr>[\<open>Gdt\<close>, \<open>Idt\<close>] \<^verbatim>\<open>gdt_and_idt/\<close>: the segment and interrupt tables, and the routines that load them.
  \<^descr>[\<open>Isr\<close>, \<open>Isr_Properties\<close>] the dispatcher of \<^verbatim>\<open>idt.c\<close>, the handlers of \<^verbatim>\<open>cpu/isr.c\<close>,
    \<^verbatim>\<open>drivers/keyboard/keyboard.c\<close> and \<^verbatim>\<open>kernel/panic.c\<close>. A handler returns, halts the machine, or never
    returns.
  \<^descr>[\<open>Isr_Stubs\<close>] \<^verbatim>\<open>gdt_and_idt/isr_stubs.asm\<close> and \<^verbatim>\<open>boot/boot.asm\<close>: the entry stubs of the interrupts and
    the entry point of the kernel, as lists of instructions on registers and byte memory. What the
    compiled dispatcher does to the registers is a parameter; \<open>cdecl\<close> is the calling convention.
  \<^descr>[\<open>Kernel_Main\<close>, \<open>Kernel_Run\<close>] \<^verbatim>\<open>kernel/kernel_main.c\<close>: \<open>sleep_ms\<close>, the initialisation, the watch on the
    ticks and the heap test; what is printed on the way.
  \<^descr>[\<open>Self_Tests\<close>, \<open>Heap_Damage\<close>, \<open>Self_Tests_Properties\<close>] \<^verbatim>\<open>kernel/tests.c\<close>: the five phases of self-tests and
    their counters. The tests overwrite a header of the heap, so the heap of the last phase is not
    well-formed; \<open>Heap_Damage\<close> says what still holds of it.
  \<^descr>[\<open>Kernel_Complete\<close>] \<open>kernel_main\<close> from its first line to the loop in which it ends.

  The device state is one record, extended from theory to theory (\<open>io_state\<close>, \<open>vga_t\<close>, \<open>time_t\<close>, \<open>pit_t\<close>,
  \<open>idt_t\<close>, \<open>boot_t\<close>), so that each operation works on every state that has its variables.

  \<^bold>\<open>What is shown\<close>

  For each allocator: it hands out memory that is free, the first that fits; it never hands out
  memory twice; releasing restores what was there; and it stays well-formed over every sequence of
  calls by clients that release only what they hold. For page tables: each operation is the
  corresponding update of the abstract address space, and a failure for lack of frames changes
  nothing of it. For processes: the queue is a circle, exactly the current process runs, the order is
  round robin and every process gets its turn. For the console: it is an abstract terminal, over
  every sequence of calls the cursor stays on the screen, and \<open>vga_write\<close> is a sequence of
  \<open>vga_put_char\<close>; for formatted output: numbers read back as themselves and a format prints the
  sequence of its pieces. For the tables and chips: after initialisation the interrupt lines raise
  vectors 32 to 47, the timer has the period asked for, the segments are flat, and every gate leads
  to its stub; the stubs describe the interrupted program to the dispatcher and restore it. This
  theory puts them together: \<open>kernel_boot\<close> establishes all of it, \<open>sleep_ms\<close> takes exactly its number of
  timer interrupts, and \<open>kernel_main\<close> runs to its end with the heap test and all self-tests
  reporting success.

  Some theorems state where the code does something other than was intended: a new process starts at
  address 0, exceptions are decided by the wrong register, a key pressed while the kernel prints
  stops it for ever, the self-tests destroy a block of the heap, and others; they are named so and
  their texts say what happens. Where a comment promises something else than the code does, the text
  of the theorem says so: \<open>sleep_ms\<close> rounds down, and only 38 of the 256 interrupt gates are present.

  \<^bold>\<open>Loops, bounds and failures\<close>

  Loops over counters and lists are structural recursion or have a termination proof. Loops that run
  through memory until they find a zero or a null pointer (\<open>strlen\<close>, \<open>strcmp\<close>, \<open>strcpy\<close>, \<open>kmalloc\<close>,
  \<open>kfree\<close>, the ready queue) and the lock's loop are partial functions, where \<open>None\<close> is a loop that does
  not end; the theorems state that they end. In the allocator of pages and the page tables \<open>None\<close> is
  an access outside the arrays or through a null pointer. \<open>sleep_ms\<close> takes the interrupts that arrive
  as a list, and \<open>None\<close> is a processor that is not woken, for want of interrupts or because they are
  disabled. Machine integers keep their width; C's
  \<^verbatim>\<open>int\<close> counters that stay small are \<^typ>\<open>int\<close> or \<^typ>\<open>nat\<close>, with overflow as a failure where it is undefined.

  \<^bold>\<open>Not modelled\<close>

  \<^verbatim>\<open>cpu/isr_stub.asm\<close>, which is not built, and the files that hold only comments (\<^verbatim>\<open>kernel/isr.c\<close>,
  \<^verbatim>\<open>kernel/page_fault.c\<close>). Interrupts are taken between statements only where the code waits for them
  or where a theorem places them; in particular none arrives during the initialisation. The
  addresses that the linker and the compiler choose, of tables, stubs, local arrays and the stack,
  are arguments. The stubs are modelled for interrupts of the kernel itself: nothing in the
  repository runs at another privilege level.
\<close>

section \<open>Sleeping\<close>

text \<open>
  C21. Sleeping. With the timer's handler installed and the timer running at \<open>hz\<close>, \<open>sleep_ms\<close> waits for
  exactly \<open>ms * hz div 1000\<close> timer interrupts, however large the two numbers are, and returns having
  advanced the tick counter by that number and acknowledged each interrupt. If fewer interrupts
  arrive, or if there is something to wait for and interrupts are disabled, it does not return. The
  division rounds down: at 100 Hz, 19 ms are one tick and less than 10 ms are none, where the
  comment in the source speaks of rounding to the nearest ten.
\<close>

theorem sleep_ms_correct:
  fixes s :: "'a kernel"
  assumes "isr_handlers s ! 32 = Some Irq0_timer_handler" "32 < length (isr_handlers s)"
    "\<forall>f \<in> set fs. f_int_no f = 32" "current_pit_hz s \<noteq> 0"
    "n = unat ms * unat (current_pit_hz s) div 1000" "unat (ticks s) + n < 2 ^ 64"
  shows "sleep_ms hw ms fs s =
    (if n = 0 \<or> int_flag s \<and> n \<le> length fs
     then Some (s\<lparr>ticks := ticks s + of_nat n, io_trace := io_trace s @ replicate n (Outb 0x20 0x20)\<rparr>, drop n fs)
     else None)"
proof -
  let ?target = "ticks s + (ucast ms :: u64) * ucast (current_pit_hz s) div 1000"
  have d: "(ucast ms :: u64) * ucast (current_pit_hz s) div 1000 = of_nat n"
    unfolding assms(5) sleep_target [symmetric] by simp
  have u: "unat ?target = unat (ticks s) + n" using assms(6) unat_add_of_nat [of "ticks s" n] d by simp
  have "sleep_ms hw ms fs s = sleep_loop hw ?target fs s"
    using assms(4) by (simp add: sleep_ms_def pit_get_frequency_def time_get_ticks_def Let_def)
  moreover have "sleep_loop hw ?target fs s = None" if "n \<noteq> 0" "\<not> int_flag s"
    using that u by (intro sleep_loop_masked) (simp_all add: word_less_nat_alt)
  ultimately show ?thesis
    using sleep_loop_timer [OF assms(1-3), of n ?target hw] sleep_loop_short [OF assms(1-3), of ?target hw] assms(6) u d
    by auto
qed

text \<open>A machine before the kernel starts: nothing initialised, the chips as the firmware left them.\<close>

definition power_on :: boot where
  "power_on = \<lparr>io_trace = [], VGA_MEMORY = \<lambda>_. 0x0720, cursor_row = 0, cursor_col = 0, current_color_byte = 0,
     vga_lock = \<lparr>locked = 0\<rparr>, ticks = 0, current_pit_hz = 0, idt = [], idt_ptr = \<lparr>idt_limit = 0, idt_base = 0\<rparr>,
     isr_handlers = [], idtr = \<lparr>idt_limit = 0, idt_base = 0\<rparr>, int_flag = False,
     gdt_state = raw_gdt, heap_state = \<lparr>heap_start = 0, heap_mem = \<lambda>_. 0\<rparr>\<rparr>"

definition ticking :: boot where
  "ticking = power_on\<lparr>isr_handlers := replicate 32 None @ [Some Irq0_timer_handler], current_pit_hz := 100, int_flag := True\<rparr>"

lemma ticking:
  "isr_handlers ticking ! 32 = Some Irq0_timer_handler" "32 < length (isr_handlers ticking)" "current_pit_hz ticking = 100"
  "ticks ticking = 0" "int_flag ticking"
  by (simp_all add: ticking_def power_on_def nth_append)

theorem sleep_ms_correct_witness:
  "(\<exists>s'. sleep_ms (\<lambda>_ _. 0) 30 (replicate 4 timer_frame) ticking = Some (s', [timer_frame]) \<and> ticks s' = 3) \<and>
   (\<exists>s'. sleep_ms (\<lambda>_ _. 0) 19 (replicate 4 timer_frame) ticking = Some (s', replicate 3 timer_frame) \<and> ticks s' = 1) \<and>
   sleep_ms (\<lambda>_ _. 0) 30 (replicate 2 timer_frame) ticking = None \<and>
   sleep_ms (\<lambda>_ _. 0) 30 (replicate 4 timer_frame) (ticking\<lparr>int_flag := False\<rparr>) = None"
proof -
  have f: "\<forall>f \<in> set (replicate k timer_frame). f_int_no f = 32" for k by (simp add: timer_frame_def)
  have run: "sleep_ms (\<lambda>_ _. 0) ms (replicate k timer_frame) s =
      (if n = 0 \<or> int_flag s \<and> n \<le> k
       then Some (s\<lparr>ticks := of_nat n, io_trace := io_trace s @ replicate n (Outb 0x20 0x20)\<rparr>, replicate (k - n) timer_frame)
       else None)" if "s = ticking\<lparr>int_flag := b\<rparr>" "n = unat ms * 100 div 1000" "n < 4" for s ms k n b
    using sleep_ms_correct [of s "replicate k timer_frame" n ms "\<lambda>_ _. 0"] that f ticking by simp
  have t: "ticking = ticking\<lparr>int_flag := True\<rparr>" by (simp add: ticking_def)
  have a: "\<exists>s'. sleep_ms (\<lambda>_ _. 0) 30 (replicate 4 timer_frame) ticking = Some (s', [timer_frame]) \<and> ticks s' = 3"
    using run [OF t, of 3 30 4] ticking(5) by simp
  have b: "\<exists>s'. sleep_ms (\<lambda>_ _. 0) 19 (replicate 4 timer_frame) ticking = Some (s', replicate 3 timer_frame) \<and> ticks s' = 1"
    using run [OF t, of 1 19 4] ticking(5) by simp
  have c: "sleep_ms (\<lambda>_ _. 0) 30 (replicate 2 timer_frame) ticking = None" using run [OF t, of 3 30 2] by simp
  have d: "sleep_ms (\<lambda>_ _. 0) 30 (replicate 4 timer_frame) (ticking\<lparr>int_flag := False\<rparr>) = None"
    using run [OF refl, where b = False and n = 3 and ms = 30 and k = 4] by simp
  show ?thesis using a b c d by (intro conjI)
qed

section \<open>Initialisation\<close>

text \<open>
  C6. The kernel boots. From a machine whose interrupt controllers are not in the middle of a command
  sequence, the initialisation returns; then the console is in order and unlocked, the heap is one
  free block of 1 MB less a header at 2 MB, the segment and interrupt tables are loaded, interrupt lines 0 to 15
  raise vectors 32 to 47, only line 0 has been opened, the timer ticks every 11931 clocks, which is
  reported as 100 Hz, each gate of an interrupt line leads to its stub, the timer and the keyboard
  have their handlers, and interrupts are on.
\<close>

theorem kernel_boot_correct:
  assumes "pic_idle c (io_trace s)" "pic_answers hw c" "length (gdt (gdt_state s)) = GDT_ENTRY_COUNT"
  shows "\<exists>s'. kernel_boot hw isr irq gdt_address idt_address s = Some s' \<and> ticks s' = ticks s \<and>
    vga_ok s' \<and> int_flag s' \<and>
    heap_ok (heap_state s') [(0x100000 - 12, True)] \<and> heap_start (heap_state s') = 0x200000 \<and>
    base (gdtr (gdt_state s')) = gdt_address \<and> reg_cs (gdt_state s') = SEG_KERNEL_CODE \<and>
    idt_limit (idtr s') = 0x7FF \<and> idt_base (idtr s') = idt_address \<and>
    (\<forall>i<16. vector c (io_trace s') i = 32 + i) \<and>
    (\<forall>i<16. masked c (io_trace s') i \<longleftrightarrow> i \<noteq> 0 \<and> masked c (io_trace s) i) \<and>
    pit_period (io_trace s') = Some 11931 \<and> pit_get_frequency s' = 100 \<and>
    (\<forall>i<16. gate_present (idt s' ! (32 + i)) \<and> gate_offset (idt s' ! (32 + i)) = unat (irq i)) \<and>
    isr_handlers s' ! 32 = Some Irq0_timer_handler \<and> isr_handlers s' ! 33 = Some Keyboard_handler"
  using kernel_boot_ok [OF assms, of isr irq gdt_address idt_address] by (auto simp: booted_def)

lemma power_on_ready:
  "pic_idle firmware_chips (io_trace power_on)" "length (gdt (gdt_state power_on)) = GDT_ENTRY_COUNT" "ticks power_on = 0"
  using firmware_idle by (simp_all add: power_on_def raw_gdt_def c_const)

theorem kernel_boot_correct_witness:
  "pic_idle firmware_chips (io_trace power_on) \<and>
   (\<exists>s'. kernel_boot (chip_hw firmware_chips) (\<lambda>_. 0) (\<lambda>_. 0) 0x104000 0x105000 power_on = Some s' \<and>
     int_flag s' \<and> pit_get_frequency s' = 100)"
  using kernel_boot_correct [OF power_on_ready(1) chip_hw_answers power_on_ready(2)] power_on_ready(1) by blast

section \<open>The heap test\<close>

text \<open>
  C20. The heap test of \<open>kernel_main\<close> passes. On the heap that the initialisation leaves, it obtains two
  different blocks and, after releasing the first, the same address again; the terminal shows
  exactly its five lines, each of them reporting success, and apart from the heap and the console
  nothing has changed that the kernel reads later.
\<close>

theorem heap_test_correct:
  assumes "vga_ok s" "heap_ok (heap_state s) [(0x100000 - 12, True)]" "heap_start (heap_state s) = 0x200000"
  shows "\<exists>s'. heap_test s = Some (s', 0x20000C, 0x200028, 0x20000C) \<and> vga_ok s' \<and> ticks s' = ticks s \<and>
    heap_ok (heap_state s') [(16, False), (16, False), (0x100000 - 68, True)] \<and>
    terminal_of s' = fold (vact term_put term_color)
      (concat (map (info_line (ticks s))
        [''Testing kmalloc...'', ''  [PASS] kmalloc returned address: 0x20000C'',
         ''  [PASS] Write/read back correct: 0xDEADBEEF 0xCAFEBABE'',
         ''  [PASS] Two allocs at different addresses: 0x20000C and 0x200028'',
         ''  After free, new alloc at: 0x20000C (should reuse 0x20000C)''])) (terminal_of s)"
proof -
  have "heap_ok (heap_state s) [(0xFFFF4, True)]" using assms(2) by simp
  then obtain s' where "heap_test s = Some (s', 0x20000C, 0x200028, 0x20000C)" "said heap_test_output s s'"
    "heap_ok (heap_state s') [(16, False), (16, False), (0xFFFBC, True)]"
    using heap_test_ok [OF assms(1) _ assms(3)] by blast
  then show ?thesis by (simp add: said_def heap_test_output_def)
qed

definition fresh_machine :: boot where
  "fresh_machine = power_on\<lparr>heap_state := kernel_heap\<rparr>"

theorem heap_test_correct_witness:
  "\<exists>s'. heap_test fresh_machine = Some (s', 0x20000C, 0x200028, 0x20000C)"
proof -
  have "vga_ok fresh_machine" "heap_ok (heap_state fresh_machine) [(0x100000 - 12, True)]" "heap_start (heap_state fresh_machine) = 0x200000"
    using kernel_heap by (simp_all add: fresh_machine_def power_on_def vga_ok_def cursor_ok_def)
  from heap_test_correct [OF this] show ?thesis by blast
qed

section \<open>The kernel from start to idle loop\<close>

text \<open>
  C1. The kernel runs to its end. From a machine with idle interrupt controllers and the tick counter at
  zero, if timer interrupts keep arriving, \<open>kernel_main\<close> sleeps for exactly 500 of them and reaches
  its idle loop; the heap test has obtained the right addresses, all self-tests have passed, 26 of
  them or 27 with paging enabled, and the last four lines on the terminal say so.
\<close>

theorem kernel_main_correct:
  assumes "pic_idle c (io_trace s)" "pic_answers hw c" "length (gdt (gdt_state s)) = GDT_ENTRY_COUNT"
    "ticks s = 0" "\<forall>f \<in> set fs. f_int_no f = 32" "500 \<le> length fs" "idt_address \<noteq> 0" "env_ok e"
  shows "\<exists>t (s5 :: boot). kernel_main hw isr irq gdt_address idt_address fs e s = Some (t, drop 500 fs, 0x20000C, 0x200028, 0x20000C) \<and>
    total_pass t = (if drop_bit 31 (cr0 e) AND 1 = 0 then 26 else 27) \<and> total_fail t = 0 \<and>
    ticks (kern t) = 500 + of_nat (length (wait_frames e)) \<and> vga_ok (kern t) \<and>
    terminal_of (kern t) = fold (vact term_put term_color)
      (concat (map (info_line (ticks (kern t)))
        [rule_line, ''RESULTS: '' @ decimal (total_pass t) @ '' passed, 0 failed'', ''ALL TESTS PASSED'', rule_line])) (terminal_of s5)"
proof -
  obtain t s5 where t: "kernel_main hw isr irq gdt_address idt_address fs e s = Some (t, drop 500 fs, 0x20000C, 0x200028, 0x20000C)"
    "total_pass t = 23 + phase4_count e" "total_fail t = 0" "ticks (kern t) = 500 + of_nat (length (wait_frames e))"
    "said (report (23 + phase4_count e)) s5 (kern t)"
    using kernel_main_ok [OF assms] .
  have n: "total_pass t = (if drop_bit 31 (cr0 e) AND 1 = 0 then 26 else 27)" using t(2) by (simp add: phase4_count_def)
  have r: "vga_ok (kern t)" "terminal_of (kern t) = fold (vact term_put term_color)
      (concat (map (info_line (ticks (kern t))) (report (total_pass t)))) (terminal_of s5)"
    using t(2,5) by (simp_all add: said_def)
  show ?thesis
    using t(1) n t(3,4) r(1) r(2) [unfolded report_def] by blast
qed

definition sample_env :: test_args where
  "sample_env = \<lparr>buf_at = 0x10F000, src_at = 0x10F010, dst_at = 0x10F018, ptrs_init = replicate 8 0xCCCCCCCC,
     cr0 = 0x11, cr3 = 0, wait_frames = [timer_frame, timer_frame]\<rparr>"

lemma sample_env_ok: "env_ok sample_env"
proof -
  have "region (0x10F018 :: u32) 8 \<inter> region 0x10F010 8 = {}" by (auto simp: region_unat)
  moreover have "(region 0x10F000 16 \<union> region 0x10F010 8 \<union> region 0x10F018 8) \<inter> region (0x200000 :: u32) 0x100000 = {}"
    by (auto simp: region_unat)
  ultimately show ?thesis by (simp add: env_ok_def arrays_ok_def arrays_def sample_env_def timer_frame_def)
qed

theorem kernel_main_correct_witness:
  "\<exists>t rest. kernel_main (chip_hw firmware_chips) (\<lambda>_. 0) (\<lambda>_. 0) 0x104000 0x105000 (replicate 502 timer_frame) sample_env power_on =
     Some (t, rest, 0x20000C, 0x200028, 0x20000C) \<and> total_pass t = 26 \<and> total_fail t = 0 \<and> length rest = 2"
proof -
  have f: "\<forall>f \<in> set (replicate 502 timer_frame). f_int_no f = 32" "500 \<le> length (replicate 502 timer_frame)" "(0x105000 :: u32) \<noteq> 0"
    by (simp_all add: timer_frame_def)
  have "drop_bit 31 (cr0 sample_env) AND 1 = 0" by (simp add: sample_env_def)
  then show ?thesis
    using kernel_main_correct [OF power_on_ready(1) chip_hw_answers power_on_ready(2,3) f sample_env_ok, of "\<lambda>_. 0" "\<lambda>_. 0" "0x104000"]
    by (elim exE conjE) (intro exI conjI, assumption, simp_all)
qed

text \<open>
  C37. The self-tests destroy the heap that they go on to test. Phase 4 writes to address 2 MB, where the
  heap begins: the first block, 16 bytes long and in use, is given the size 0x12345678. All tests
  pass all the same, since the allocator never reads the size of a used block. But when that block
  is released, a request for the whole megabyte of the heap is granted at its address, over the
  second block, which is still in use.
\<close>

theorem tests_damage_heap:
  assumes "ready e (kern t)"
  shows "\<exists>u h1 h2. run_all_tests hw e t = Some u \<and> total_fail u = 0 \<and>
    hdr_size (heap_mem (heap_state (kern u))) 0x200000 = 0x12345678 \<and>
    (0x200028, 16) \<in> live 0x20001C [(16, False), (0xFFFBC, True)] \<and>
    heap_ok ((heap_state (kern u))\<lparr>heap_start := 0x20001C\<rparr>) [(16, False), (0xFFFBC, True)] \<and>
    kfree (heap_state (kern u)) 0x20000C = Some h1 \<and> kmalloc h1 0x100000 = Some (0x20000C, h2) \<and>
    region 0x200028 16 \<subseteq> region (0x20000C :: u32) 0x100000"
proof -
  obtain u h where u: "run_all_tests hw e t = Some u" "passing (23 + phase4_count e)
      ((kern t)\<lparr>ticks := ticks (kern t) + of_nat (length (wait_frames e)), heap_state := h\<rparr>) u"
    and h: "kernel_damage h [(16, False), (0xFFFBC, True)]"
    using suite_reaches [OF assms, of hw] unfolding reaches_def by auto
  have hu: "heap_state (kern u) = h" using passing_fields(6) [OF u(2)] by simp
  obtain h1 h2 where r: "kfree h 0x20000C = Some h1" "kmalloc h1 0x100000 = Some (0x20000C, h2)"
    using damaged_overcommits [of "0x12345678" 16 h 16 "[(0xFFFBC, True)]" "0x100000"] h by auto
  have "heap_start h = 0x200000" "damaged 0x12345678 16 h [(16, False), (0xFFFBC, True)]" using h by simp_all
  then have "hdr_size (heap_mem h) 0x200000 = 0x12345678" "heap_ok (h\<lparr>heap_start := 0x20001C\<rparr>) [(16, False), (0xFFFBC, True)]"
    by (simp_all add: damaged_def second_block_def)
  moreover have "region 0x200028 16 \<subseteq> region (0x20000C :: u32) 0x100000" by (auto simp: region_unat)
  ultimately show ?thesis using u r hu by (simp add: passing_def)
qed

definition tested_machine :: tests_t where
  "tested_machine = \<lparr>kern = fst (the (kernel_until_tests (chip_hw firmware_chips) (\<lambda>_. 0) (\<lambda>_. 0) 0x104000 0x105000
     (replicate 500 timer_frame) power_on)), total_pass = 0, total_fail = 0\<rparr>"

theorem tests_damage_heap_witness:
  "\<exists>u h1 h2. run_all_tests (chip_hw firmware_chips) sample_env tested_machine = Some u \<and> total_fail u = 0 \<and>
     kfree (heap_state (kern u)) 0x20000C = Some h1 \<and> kmalloc h1 0x100000 = Some (0x20000C, h2)"
proof -
  have f: "\<forall>f \<in> set (replicate 500 timer_frame). f_int_no f = 32" "500 \<le> length (replicate 500 timer_frame)" "(0x105000 :: u32) \<noteq> 0"
    by (simp_all add: timer_frame_def)
  obtain s where "kernel_until_tests (chip_hw firmware_chips) (\<lambda>_. 0) (\<lambda>_. 0) 0x104000 0x105000 (replicate 500 timer_frame) power_on =
      Some (s, drop 500 (replicate 500 timer_frame), 0x20000C, 0x200028, 0x20000C)" "ready sample_env s"
    using kernel_until_tests_ok [OF power_on_ready(1) chip_hw_answers power_on_ready(2,3) f sample_env_ok] .
  then have "ready sample_env (kern tested_machine)" by (simp add: tested_machine_def)
  from tests_damage_heap [OF this] show ?thesis by blast
qed

end
